(* ===== verification/HRX_Prelude.thy ===== *)
theory HRX_Prelude
  imports Main "HOL-Library.Word"
begin

text \<open>
  Shared vocabulary of the development: the C integer types as fixed-width words, the status
  codes of \<^verbatim>\<open>runtime/src/iree/base/status.h\<close> with the result type of fallible functions, the
  named collections the component theories fill, and generic facts on words and lists.
\<close>

unbundle bit_operations_syntax

section \<open>Machine types\<close>

type_synonym u8 = "8 word"
type_synonym u16 = "16 word"
type_synonym u32 = "32 word"
type_synonym u64 = "64 word"

text \<open>
  On the 64-bit targets of the runtime \<^verbatim>\<open>iree_host_size_t\<close> and \<^verbatim>\<open>iree_device_size_t\<close>
  (\<^verbatim>\<open>base/config.h\<close>) are both \<^verbatim>\<open>size_t\<close>, i.e. 64 bits wide.
\<close>

type_synonym iree_host_size_t = u64
type_synonym iree_device_size_t = u64

section \<open>Status codes and results\<close>

datatype iree_status_code_t =
    IREE_STATUS_OK
  | IREE_STATUS_CANCELLED
  | IREE_STATUS_UNKNOWN
  | IREE_STATUS_INVALID_ARGUMENT
  | IREE_STATUS_DEADLINE_EXCEEDED
  | IREE_STATUS_NOT_FOUND
  | IREE_STATUS_ALREADY_EXISTS
  | IREE_STATUS_PERMISSION_DENIED
  | IREE_STATUS_RESOURCE_EXHAUSTED
  | IREE_STATUS_FAILED_PRECONDITION
  | IREE_STATUS_ABORTED
  | IREE_STATUS_OUT_OF_RANGE
  | IREE_STATUS_UNIMPLEMENTED
  | IREE_STATUS_INTERNAL
  | IREE_STATUS_UNAVAILABLE
  | IREE_STATUS_DATA_LOSS
  | IREE_STATUS_UNAUTHENTICATED
  | IREE_STATUS_DEFERRED
  | IREE_STATUS_INCOMPATIBLE

text \<open>
  A function returning \<^verbatim>\<open>iree_status_t\<close> with an out parameter is a sum: \<^term>\<open>Inl\<close> carries the
  non-OK status code, \<^term>\<open>Inr\<close> the value written on success. Status messages are not modelled.
\<close>

type_synonym 'a iree_result = "iree_status_code_t + 'a"

section \<open>Named collections\<close>

named_theorems word_size_simps \<open>sizes and bounds of machine words as naturals\<close>
named_theorems block_store_simps \<open>reading a store after a write\<close>

section \<open>Words as naturals\<close>

lemma unat_u64_lt [word_size_simps]: "unat (w :: u64) < 18446744073709551616"
  using unsigned_less [of w] by simp

lemma unat_u32_lt [word_size_simps]: "unat (w :: u32) < 4294967296"
  using unsigned_less [of w] by simp

lemma unat_u8_lt [word_size_simps]: "unat (w :: u8) < 256"
  using unsigned_less [of w] by simp

lemma unat_u64_max [word_size_simps]: "unat (- 1 :: u64) = 18446744073709551615"
  by (simp add: unsigned_minus_1_eq_mask mask_eq_exp_minus_1)

lemma unat_u32_max [word_size_simps]: "unat (- 1 :: u32) = 4294967295"
  by (simp add: unsigned_minus_1_eq_mask mask_eq_exp_minus_1)

lemma unat_add_no_wrap:
  "unat (a :: 'a::len word) + unat b < 2 ^ LENGTH('a) \<Longrightarrow> unat (a + b) = unat a + unat b"
  by (simp add: unat_word_ariths)

lemma unat_sub_no_wrap:
  "(b :: 'a::len word) \<le> a \<Longrightarrow> unat (a - b) = unat a - unat b"
  by (simp add: unat_sub)

section \<open>Lists\<close>

lemma take_Suc_nth: "i < length xs \<Longrightarrow> take (Suc i) xs = take i xs @ [xs ! i]"
  by (rule take_Suc_conv_app_nth)

lemma drop_Cons_nth: "i < length xs \<Longrightarrow> drop i xs = xs ! i # drop (Suc i) xs"
  by (simp add: Cons_nth_drop_Suc)

end
