(* ===== verification/Machine_Math.thy ===== *)
theory Machine_Math
  imports HRX_Prelude
begin

text \<open>
  The bit-level helpers of \<^verbatim>\<open>runtime/src/iree/base/alignment.h\<close>,
  \<^verbatim>\<open>base/checked_math.h\<close> and \<^verbatim>\<open>base/internal/math.h\<close> that the other components call, at the
  width the C code uses.
\<close>

section \<open>Bit scans\<close>

text \<open>
  The compiler builtins are modelled by what they compute: the index of the highest set bit and
  of the lowest set bit, as structural recursions on the value.
\<close>

fun highest_bit :: "nat \<Rightarrow> nat" where
  "highest_bit n = (if n < 2 then 0 else Suc (highest_bit (n div 2)))"

fun lowest_bit :: "nat \<Rightarrow> nat" where
  "lowest_bit n = (if n = 0 \<or> odd n then 0 else Suc (lowest_bit (n div 2)))"

declare highest_bit.simps [simp del] lowest_bit.simps [simp del]

definition iree_math_count_leading_zeros_u32 :: "u32 \<Rightarrow> nat" where
  "iree_math_count_leading_zeros_u32 n = (if n = 0 then 32 else 31 - highest_bit (unat n))"

definition iree_math_count_leading_zeros_u64 :: "u64 \<Rightarrow> nat" where
  "iree_math_count_leading_zeros_u64 n = (if n = 0 then 64 else 63 - highest_bit (unat n))"

text \<open>The builtin is undefined on zero; callers test for zero first.\<close>

definition iree_math_count_trailing_zeros_u32 :: "u32 \<Rightarrow> nat" where
  "iree_math_count_trailing_zeros_u32 n = lowest_bit (unat n)"

definition iree_math_count_trailing_zeros_u64 :: "u64 \<Rightarrow> nat" where
  "iree_math_count_trailing_zeros_u64 n = lowest_bit (unat n)"

text \<open>The portable fallback, compiled when no builtin is available.\<close>

definition count_trailing_zeros_u64_fallback :: "u64 \<Rightarrow> int" where
  "count_trailing_zeros_u64_fallback n0 =
     (let n = n0 AND (NOT n0 + 1);
          c = 63;
          c = (if n AND 0x00000000FFFFFFFF \<noteq> 0 then c - 32 else c);
          c = (if n AND 0x0000FFFF0000FFFF \<noteq> 0 then c - 16 else c);
          c = (if n AND 0x00FF00FF00FF00FF \<noteq> 0 then c - 8 else c);
          c = (if n AND 0x0F0F0F0F0F0F0F0F \<noteq> 0 then c - 4 else c);
          c = (if n AND 0x3333333333333333 \<noteq> 0 then c - 2 else c);
          c = (if n AND 0x5555555555555555 \<noteq> 0 then c - 1 else c)
      in c)"

definition iree_shr_u32 :: "u32 \<Rightarrow> nat \<Rightarrow> u32" where
  "iree_shr_u32 value shamt = (if shamt < 32 then drop_bit shamt value else 0)"

definition iree_shr_u64 :: "u64 \<Rightarrow> nat \<Rightarrow> u64" where
  "iree_shr_u64 value shamt = (if shamt < 64 then drop_bit shamt value else 0)"

section \<open>Alignment\<close>

definition iree_host_align :: "iree_host_size_t \<Rightarrow> iree_host_size_t \<Rightarrow> iree_host_size_t" where
  "iree_host_align v alignment = (v + (alignment - 1)) AND NOT (alignment - 1)"

definition iree_host_size_is_power_of_two :: "iree_host_size_t \<Rightarrow> bool" where
  "iree_host_size_is_power_of_two v \<longleftrightarrow> v \<noteq> 0 \<and> v AND (v - 1) = 0"

definition iree_host_size_is_valid_alignment :: "iree_host_size_t \<Rightarrow> bool" where
  "iree_host_size_is_valid_alignment a \<longleftrightarrow> a = 0 \<or> iree_host_size_is_power_of_two a"

definition iree_device_align :: "iree_device_size_t \<Rightarrow> iree_device_size_t \<Rightarrow> iree_device_size_t" where
  "iree_device_align value alignment = (value + (alignment - 1)) AND NOT (alignment - 1)"

definition iree_device_size_is_power_of_two :: "iree_device_size_t \<Rightarrow> bool" where
  "iree_device_size_is_power_of_two value \<longleftrightarrow> value \<noteq> 0 \<and> value AND (value - 1) = 0"

definition iree_device_size_next_power_of_two :: "iree_device_size_t \<Rightarrow> iree_device_size_t" where
  "iree_device_size_next_power_of_two value =
     (if value \<le> 1 then 1
      else if value > drop_bit 1 (NOT 0) + 1 then NOT 0
      else let value = value - 1;
               value = value OR drop_bit 1 value;
               value = value OR drop_bit 2 value;
               value = value OR drop_bit 4 value;
               value = value OR drop_bit 8 value;
               value = value OR drop_bit 16 value;
               value = value OR drop_bit 32 value
           in value + 1)"

definition iree_host_size_ceil_div :: "iree_host_size_t \<Rightarrow> iree_host_size_t \<Rightarrow> iree_host_size_t" where
  "iree_host_size_ceil_div lhs rhs = (if lhs = 0 then 0 else 1 + (lhs - 1) div rhs)"

section \<open>Checked arithmetic\<close>

text \<open>\<^term>\<open>None\<close> is the C result \<^verbatim>\<open>false\<close>; the guard is that of the portable branch.\<close>

definition iree_checked_add_u64 :: "u64 \<Rightarrow> u64 \<Rightarrow> u64 option" where
  "iree_checked_add_u64 a b = (if a > NOT 0 - b then None else Some (a + b))"

definition iree_checked_mul_u64 :: "u64 \<Rightarrow> u64 \<Rightarrow> u64 option" where
  "iree_checked_mul_u64 a b = (if b \<noteq> 0 \<and> a > NOT 0 div b then None else Some (a * b))"

definition iree_checked_align_u64 :: "u64 \<Rightarrow> u64 \<Rightarrow> u64 option" where
  "iree_checked_align_u64 value alignment =
     (case iree_checked_add_u64 value (alignment - 1) of
        None \<Rightarrow> None
      | Some padded \<Rightarrow> Some (padded AND NOT (alignment - 1)))"

section \<open>Facts about the bit scans\<close>

lemma highest_bit_bounds:
  "0 < n \<Longrightarrow> 2 ^ highest_bit n \<le> n \<and> n < 2 ^ Suc (highest_bit n)"
proof (induction n rule: highest_bit.induct)
  case (1 n)
  show ?case
  proof (cases "n < 2")
    case True
    with 1 show ?thesis by (simp add: highest_bit.simps [of n])
  next
    case False
    with 1 have "2 ^ highest_bit (n div 2) \<le> n div 2 \<and> n div 2 < 2 ^ Suc (highest_bit (n div 2))"
      by simp
    with False show ?thesis
      using highest_bit.simps [of n] by simp linarith
  qed
qed

lemma highest_bit_unique:
  assumes "2 ^ k \<le> n" and "n < 2 ^ Suc k"
  shows "highest_bit n = k"
proof -
  have "0 < n" using assms(1) by (metis gr0I le_zero_eq power_not_zero zero_neq_numeral)
  then have b: "2 ^ highest_bit n \<le> n" "n < 2 ^ Suc (highest_bit n)"
    using highest_bit_bounds by auto
  have "(2::nat) ^ highest_bit n < 2 ^ Suc k" and "(2::nat) ^ k < 2 ^ Suc (highest_bit n)"
    using b assms by linarith+
  then have "highest_bit n < Suc k" and "k < Suc (highest_bit n)"
    using power_less_imp_less_exp [of "2::nat"] one_less_numeral_iff semiring_norm(76) by blast+
  then show ?thesis by simp
qed

lemma highest_bit_less: "0 < n \<Longrightarrow> n < 2 ^ m \<Longrightarrow> highest_bit n < m"
  using highest_bit_bounds [of n] power_strict_increasing_iff [of "2::nat" "highest_bit n" m]
  by linarith

lemma lowest_bit_dvd:
  "0 < n \<Longrightarrow> 2 ^ lowest_bit n dvd n \<and> odd (n div 2 ^ lowest_bit n)"
proof (induction n rule: lowest_bit.induct)
  case (1 n)
  show ?case
  proof (cases "odd n")
    case True
    then show ?thesis by (simp add: lowest_bit.simps [of n])
  next
    case False
    then obtain m where m: "n = 2 * m" by (auto elim: evenE)
    with False 1 have "2 ^ lowest_bit m dvd m \<and> odd (m div 2 ^ lowest_bit m)"
      by simp
    moreover have "lowest_bit n = Suc (lowest_bit m)"
      using m False 1(2) by (simp add: lowest_bit.simps [of "2 * m"])
    ultimately show ?thesis
      using m by simp
  qed
qed

end
