(* ===== verification/Frontier.thy ===== *)
theory Frontier
  imports Machine_Math
begin

text \<open>
  Causal frontiers, \<^verbatim>\<open>runtime/src/iree/async/frontier.{h,c}\<close>: vector clocks kept as arrays of
  (axis, epoch) pairs sorted by axis. The model keeps the array with its spare capacity, the
  index loops and the in-place right-to-left merge of the C code; the abstraction
  \<open>epoch_at\<close> reads a frontier as a total function from axes to epochs.
\<close>

section \<open>Axes\<close>

type_synonym iree_async_axis_t = u64

definition IREE_ASYNC_QUEUE_INCARNATION_MAX :: u32 where
  "IREE_ASYNC_QUEUE_INCARNATION_MAX = 0x00FFFFFF"

datatype iree_async_causal_domain_t =
    IREE_ASYNC_CAUSAL_DOMAIN_QUEUE
  | IREE_ASYNC_CAUSAL_DOMAIN_COLLECTIVE
  | IREE_ASYNC_CAUSAL_DOMAIN_EPILOGUE
  | IREE_ASYNC_CAUSAL_DOMAIN_HOST
  | IREE_ASYNC_CAUSAL_DOMAIN_JOIN

fun domain_code :: "iree_async_causal_domain_t \<Rightarrow> u8" where
  "domain_code IREE_ASYNC_CAUSAL_DOMAIN_QUEUE = 0"
| "domain_code IREE_ASYNC_CAUSAL_DOMAIN_COLLECTIVE = 1"
| "domain_code IREE_ASYNC_CAUSAL_DOMAIN_EPILOGUE = 2"
| "domain_code IREE_ASYNC_CAUSAL_DOMAIN_HOST = 3"
| "domain_code IREE_ASYNC_CAUSAL_DOMAIN_JOIN = 4"

definition iree_async_axis_make :: "u8 \<Rightarrow> u8 \<Rightarrow> u8 \<Rightarrow> u64 \<Rightarrow> iree_async_axis_t" where
  "iree_async_axis_make session_epoch machine_index domain ordinal =
     push_bit 56 (ucast session_epoch) OR push_bit 48 (ucast machine_index) OR
     push_bit 40 (ucast domain) OR (ordinal AND 0xFFFFFFFFFF)"

definition iree_async_axis_make_queue ::
    "u8 \<Rightarrow> u8 \<Rightarrow> u8 \<Rightarrow> u8 \<Rightarrow> u32 \<Rightarrow> iree_async_axis_t" where
  "iree_async_axis_make_queue session_epoch machine_index device_index queue_index queue_incarnation =
     iree_async_axis_make session_epoch machine_index (domain_code IREE_ASYNC_CAUSAL_DOMAIN_QUEUE)
       (push_bit 32 (ucast device_index) OR push_bit 24 (ucast queue_index) OR
        ucast queue_incarnation)"

definition iree_async_axis_session :: "iree_async_axis_t \<Rightarrow> u8" where
  "iree_async_axis_session a = ucast (drop_bit 56 a)"

definition iree_async_axis_machine :: "iree_async_axis_t \<Rightarrow> u8" where
  "iree_async_axis_machine a = ucast (drop_bit 48 a)"

definition iree_async_axis_domain :: "iree_async_axis_t \<Rightarrow> u8" where
  "iree_async_axis_domain a = ucast (drop_bit 40 a AND 0xFF)"

definition iree_async_axis_ordinal :: "iree_async_axis_t \<Rightarrow> u64" where
  "iree_async_axis_ordinal a = a AND 0xFFFFFFFFFF"

definition iree_async_axis_device_index :: "iree_async_axis_t \<Rightarrow> u8" where
  "iree_async_axis_device_index a = ucast (drop_bit 32 (iree_async_axis_ordinal a))"

definition iree_async_axis_queue_index :: "iree_async_axis_t \<Rightarrow> u8" where
  "iree_async_axis_queue_index a = ucast (drop_bit 24 (iree_async_axis_ordinal a))"

definition iree_async_axis_queue_incarnation :: "iree_async_axis_t \<Rightarrow> u32" where
  "iree_async_axis_queue_incarnation a =
     ucast (iree_async_axis_ordinal a AND ucast IREE_ASYNC_QUEUE_INCARNATION_MAX)"

section \<open>Frontier storage\<close>

record iree_async_frontier_entry_t =
  axis :: iree_async_axis_t
  epoch :: u64

text \<open>
  \<^term>\<open>entries\<close> is the whole trailing array, spare cells included; only the first
  \<^term>\<open>entry_count\<close> cells are live. The counter is a \<^verbatim>\<open>uint8_t\<close>: \<open>frontier_ok\<close> bounds it by 255.
  The reserved header bytes are always zero and are left out.
\<close>

record iree_async_frontier_t =
  entry_count :: nat
  entries :: "iree_async_frontier_entry_t list"

definition live :: "iree_async_frontier_t \<Rightarrow> iree_async_frontier_entry_t list" where
  "live f = take (entry_count f) (entries f)"

definition iree_async_frontier_initialize ::
    "iree_async_frontier_t \<Rightarrow> nat \<Rightarrow> iree_async_frontier_t" where
  "iree_async_frontier_initialize f n = f\<lparr>entry_count := n\<rparr>"

definition iree_async_single_frontier_initialize ::
    "iree_async_axis_t \<Rightarrow> u64 \<Rightarrow> iree_async_frontier_t" where
  "iree_async_single_frontier_initialize a e =
     \<lparr>entry_count = 1, entries = [\<lparr>axis = a, epoch = e\<rparr>]\<rparr>"

text \<open>
  \<^verbatim>\<open>memcpy\<close> of a header and its live entries over another frontier's storage, the idiom every
  owner of inline frontier storage uses. The cells past the copied ones keep what they held.
\<close>

definition frontier_copy ::
    "iree_async_frontier_t \<Rightarrow> iree_async_frontier_t \<Rightarrow> iree_async_frontier_t" where
  "frontier_copy dst src =
     \<lparr>entry_count = entry_count src,
      entries = take (entry_count src) (entries src) @ drop (entry_count src) (entries dst)\<rparr>"

section \<open>Validation\<close>

function validate_order_from :: "iree_async_frontier_t \<Rightarrow> nat \<Rightarrow> bool" where
  "validate_order_from f i =
     (if i < entry_count f
      then if axis (entries f ! (i - 1)) \<ge> axis (entries f ! i) then False
           else validate_order_from f (Suc i)
      else True)"
  by pat_completeness auto
termination
  by (relation "measure (\<lambda>(f, i). entry_count f - i)") auto

function validate_epochs_from :: "iree_async_frontier_t \<Rightarrow> nat \<Rightarrow> bool" where
  "validate_epochs_from f i =
     (if i < entry_count f
      then if epoch (entries f ! i) = 0 then False else validate_epochs_from f (Suc i)
      else True)"
  by pat_completeness auto
termination
  by (relation "measure (\<lambda>(f, i). entry_count f - i)") auto

definition iree_async_frontier_validate :: "iree_async_frontier_t \<Rightarrow> iree_status_code_t" where
  "iree_async_frontier_validate f =
     (if \<not> validate_order_from f 1 then IREE_STATUS_INVALID_ARGUMENT
      else if \<not> validate_epochs_from f 0 then IREE_STATUS_INVALID_ARGUMENT
      else IREE_STATUS_OK)"

section \<open>Comparison\<close>

datatype iree_async_frontier_comparison_t =
    IREE_ASYNC_FRONTIER_EQUAL
  | IREE_ASYNC_FRONTIER_BEFORE
  | IREE_ASYNC_FRONTIER_AFTER
  | IREE_ASYNC_FRONTIER_CONCURRENT

text \<open>The axis comparison loop shared by the fast paths of compare, merge and find_undominated.\<close>

function axes_match_from ::
    "iree_async_frontier_t \<Rightarrow> iree_async_frontier_t \<Rightarrow> nat \<Rightarrow> bool" where
  "axes_match_from a b k =
     (if k < entry_count a
      then if axis (entries a ! k) \<noteq> axis (entries b ! k) then False
           else axes_match_from a b (Suc k)
      else True)"
  by pat_completeness auto
termination
  by (relation "measure (\<lambda>(a, b, k). entry_count a - k)") auto

definition comparison_of_flags :: "bool \<Rightarrow> bool \<Rightarrow> iree_async_frontier_comparison_t" where
  "comparison_of_flags has_less has_greater =
     (if has_less \<and> has_greater then IREE_ASYNC_FRONTIER_CONCURRENT
      else if has_less then IREE_ASYNC_FRONTIER_BEFORE
      else if has_greater then IREE_ASYNC_FRONTIER_AFTER
      else IREE_ASYNC_FRONTIER_EQUAL)"

text \<open>The same-axes loop, with its early exit as soon as both flags are set.\<close>

function compare_epochs_from ::
    "iree_async_frontier_t \<Rightarrow> iree_async_frontier_t \<Rightarrow> nat \<Rightarrow> bool \<Rightarrow> bool \<Rightarrow>
     iree_async_frontier_comparison_t" where
  "compare_epochs_from a b k has_less has_greater =
     (if k < entry_count a then
        let has_less = (has_less \<or> epoch (entries a ! k) < epoch (entries b ! k));
            has_greater = (has_greater \<or> epoch (entries a ! k) > epoch (entries b ! k))
        in if has_less \<and> has_greater then IREE_ASYNC_FRONTIER_CONCURRENT
           else compare_epochs_from a b (Suc k) has_less has_greater
      else if has_less then IREE_ASYNC_FRONTIER_BEFORE
      else if has_greater then IREE_ASYNC_FRONTIER_AFTER
      else IREE_ASYNC_FRONTIER_EQUAL)"
  by pat_completeness auto
termination
  by (relation "measure (\<lambda>(a, b, k, l, g). entry_count a - k)") auto

function compare_scan ::
    "iree_async_frontier_t \<Rightarrow> iree_async_frontier_t \<Rightarrow> nat \<Rightarrow> nat \<Rightarrow> bool \<Rightarrow> bool \<Rightarrow> bool \<times> bool" where
  "compare_scan a b i j has_less has_greater =
     (if i < entry_count a \<and> j < entry_count b then
        if axis (entries a ! i) = axis (entries b ! j) then
          compare_scan a b (Suc i) (Suc j)
            (has_less \<or> epoch (entries a ! i) < epoch (entries b ! j))
            (has_greater \<or> epoch (entries a ! i) > epoch (entries b ! j))
        else if axis (entries a ! i) < axis (entries b ! j) then
          compare_scan a b (Suc i) j has_less True
        else compare_scan a b i (Suc j) True has_greater
      else (if j < entry_count b then True else has_less,
            if i < entry_count a then True else has_greater))"
  by pat_completeness auto
termination
  by (relation "measure (\<lambda>(a, b, i, j, l, g). (entry_count a - i) + (entry_count b - j))") auto

definition iree_async_frontier_compare ::
    "iree_async_frontier_t \<Rightarrow> iree_async_frontier_t \<Rightarrow> iree_async_frontier_comparison_t" where
  "iree_async_frontier_compare a b =
     (if entry_count a = entry_count b \<and> axes_match_from a b 0
      then compare_epochs_from a b 0 False False
      else let (has_less, has_greater) = compare_scan a b 0 0 False False
           in comparison_of_flags has_less has_greater)"

section \<open>Merge\<close>

text \<open>Path 2: same axis set, epoch maximum in place.\<close>

function merge_epochs_from ::
    "iree_async_frontier_t \<Rightarrow> iree_async_frontier_t \<Rightarrow> nat \<Rightarrow> bool \<Rightarrow> iree_async_frontier_t \<times> bool" where
  "merge_epochs_from target source k source_dominates_target =
     (if k < entry_count target then
        if epoch (entries source ! k) > epoch (entries target ! k) then
          merge_epochs_from
            (target\<lparr>entries := (entries target)
                [k := (entries target ! k)\<lparr>epoch := epoch (entries source ! k)\<rparr>]\<rparr>)
            source (Suc k) source_dominates_target
        else if epoch (entries source ! k) < epoch (entries target ! k) then
          merge_epochs_from target source (Suc k) False
        else merge_epochs_from target source (Suc k) source_dominates_target
      else (target, source_dominates_target))"
  by pat_completeness auto
termination
  by (relation "measure (\<lambda>(t, s, k, d). entry_count t - k)") auto

text \<open>Path 3, first pass: the merged size and the dominance flag, without mutation.\<close>

function merge_count_from ::
    "iree_async_frontier_t \<Rightarrow> iree_async_frontier_t \<Rightarrow> nat \<Rightarrow> nat \<Rightarrow> nat \<Rightarrow> bool \<Rightarrow> nat \<times> bool" where
  "merge_count_from target source ti si merged_count source_dominates_target =
     (if ti < entry_count target \<and> si < entry_count source then
        if axis (entries target ! ti) = axis (entries source ! si) then
          merge_count_from target source (Suc ti) (Suc si) (Suc merged_count)
            (if epoch (entries target ! ti) > epoch (entries source ! si)
             then False else source_dominates_target)
        else if axis (entries target ! ti) < axis (entries source ! si) then
          merge_count_from target source (Suc ti) si (Suc merged_count) False
        else merge_count_from target source ti (Suc si) (Suc merged_count) source_dominates_target
      else (merged_count + (entry_count target - ti) + (entry_count source - si),
            if ti < entry_count target then False else source_dominates_target))"
  by pat_completeness auto
termination
  by (relation "measure (\<lambda>(t, s, ti, si, m, d). (entry_count t - ti) + (entry_count s - si))") auto

text \<open>
  Path 3, second pass: the in-place right-to-left merge. The C indices \<^verbatim>\<open>ti\<close>, \<^verbatim>\<open>si\<close>, \<^verbatim>\<open>wi\<close> run
  down to -1; the arguments here are those indices plus one, so that the pattern
  \<open>Suc ti\<close> is the test \<^verbatim>\<open>ti >= 0\<close> and \<open>wi - 1\<close> is the cell written.
\<close>

fun merge_down ::
    "iree_async_frontier_entry_t list \<Rightarrow> iree_async_frontier_entry_t list \<Rightarrow> nat \<Rightarrow> nat \<Rightarrow> nat \<Rightarrow>
     iree_async_frontier_entry_t list" where
  "merge_down es src (Suc ti) (Suc si) wi =
     (if axis (es ! ti) > axis (src ! si) then
        merge_down (es[wi - 1 := es ! ti]) src ti (Suc si) (wi - 1)
      else if axis (es ! ti) < axis (src ! si) then
        merge_down (es[wi - 1 := src ! si]) src (Suc ti) si (wi - 1)
      else
        merge_down (es[wi - 1 := \<lparr>axis = axis (es ! ti),
                                  epoch = max (epoch (es ! ti)) (epoch (src ! si))\<rparr>])
          src ti si (wi - 1))"
| "merge_down es src 0 (Suc si) wi = merge_down (es[wi - 1 := src ! si]) src 0 si (wi - 1)"
| "merge_down es src ti 0 wi = es"

text \<open>
  The result is the returned boolean, the target afterwards, and the value written through
  \<^verbatim>\<open>out_source_dominates_target\<close> when that pointer is not null.
\<close>

definition iree_async_frontier_merge_impl ::
    "iree_async_frontier_t \<Rightarrow> nat \<Rightarrow> iree_async_frontier_t \<Rightarrow> bool \<times> iree_async_frontier_t \<times> bool" where
  "iree_async_frontier_merge_impl target target_capacity source =
     (if entry_count source = 0 then (True, target, entry_count target = 0)
      else if entry_count target = entry_count source \<and> axes_match_from target source 0 then
        let (target', dominates) = merge_epochs_from target source 0 True
        in (True, target', dominates)
      else
        let (merged_count, dominates) = merge_count_from target source 0 0 0 True
        in if merged_count > target_capacity then (False, target, False)
           else (True,
                 target\<lparr>entries := merge_down (entries target) (entries source)
                           (entry_count target) (entry_count source) merged_count,
                        entry_count := merged_count\<rparr>,
                 dominates))"

definition iree_async_frontier_merge ::
    "iree_async_frontier_t \<Rightarrow> nat \<Rightarrow> iree_async_frontier_t \<Rightarrow> bool \<times> iree_async_frontier_t" where
  "iree_async_frontier_merge target target_capacity source =
     (let (ok, target', _) = iree_async_frontier_merge_impl target target_capacity source
      in (ok, target'))"

definition iree_async_frontier_merge_and_test_source_dominance ::
    "iree_async_frontier_t \<Rightarrow> nat \<Rightarrow> iree_async_frontier_t \<Rightarrow> bool \<times> iree_async_frontier_t \<times> bool" where
  "iree_async_frontier_merge_and_test_source_dominance target target_capacity source =
     iree_async_frontier_merge_impl target target_capacity source"

section \<open>Undominated entries\<close>

text \<open>
  The out array is the list of the cells written so far: each store goes to \<^verbatim>\<open>out_entries[count]\<close>
  while \<^verbatim>\<open>count < capacity\<close>, so the written cells are a prefix.
\<close>

definition emit_undominated ::
    "nat \<Rightarrow> iree_async_frontier_entry_t \<Rightarrow> nat \<times> iree_async_frontier_entry_t list \<Rightarrow>
     nat \<times> iree_async_frontier_entry_t list" where
  "emit_undominated capacity e acc =
     (let (count, out) = acc
      in (Suc count, if count < capacity then out @ [e] else out))"

function undominated_epochs_from ::
    "iree_async_frontier_t \<Rightarrow> iree_async_frontier_t \<Rightarrow> nat \<Rightarrow> nat \<Rightarrow>
     nat \<times> iree_async_frontier_entry_t list \<Rightarrow> nat \<times> iree_async_frontier_entry_t list" where
  "undominated_epochs_from reference target capacity k acc =
     (if k < entry_count target then
        undominated_epochs_from reference target capacity (Suc k)
          (if epoch (entries target ! k) > epoch (entries reference ! k)
           then emit_undominated capacity (entries target ! k) acc else acc)
      else acc)"
  by pat_completeness auto
termination
  by (relation "measure (\<lambda>(r, t, c, k, acc). entry_count t - k)") auto

function undominated_scan ::
    "iree_async_frontier_t \<Rightarrow> iree_async_frontier_t \<Rightarrow> nat \<Rightarrow> nat \<Rightarrow> nat \<Rightarrow>
     nat \<times> iree_async_frontier_entry_t list \<Rightarrow> nat \<times> iree_async_frontier_entry_t list" where
  "undominated_scan reference target capacity i j acc =
     (if i < entry_count reference \<and> j < entry_count target then
        if axis (entries reference ! i) = axis (entries target ! j) then
          undominated_scan reference target capacity (Suc i) (Suc j)
            (if epoch (entries target ! j) > epoch (entries reference ! i)
             then emit_undominated capacity (entries target ! j) acc else acc)
        else if axis (entries reference ! i) < axis (entries target ! j) then
          undominated_scan reference target capacity (Suc i) j acc
        else undominated_scan reference target capacity i (Suc j)
               (emit_undominated capacity (entries target ! j) acc)
      else if j < entry_count target then
        undominated_scan reference target capacity i (Suc j)
          (emit_undominated capacity (entries target ! j) acc)
      else acc)"
  by pat_completeness auto
termination
  by (relation "measure (\<lambda>(r, t, c, i, j, acc). (entry_count r - i) + (entry_count t - j))") auto

definition iree_async_frontier_find_undominated ::
    "iree_async_frontier_t \<Rightarrow> iree_async_frontier_t \<Rightarrow> nat \<Rightarrow>
     nat \<times> iree_async_frontier_entry_t list" where
  "iree_async_frontier_find_undominated reference target capacity =
     (if entry_count reference = entry_count target \<and> axes_match_from reference target 0
      then undominated_epochs_from reference target capacity 0 (0, [])
      else undominated_scan reference target capacity 0 0 (0, []))"

section \<open>Satisfaction\<close>

function skip_smaller_axes ::
    "iree_async_frontier_entry_t list \<Rightarrow> iree_async_axis_t \<Rightarrow> nat \<Rightarrow> nat" where
  "skip_smaller_axes current_epochs ax j =
     (if j < length current_epochs \<and> axis (current_epochs ! j) < ax
      then skip_smaller_axes current_epochs ax (Suc j) else j)"
  by pat_completeness auto
termination
  by (relation "measure (\<lambda>(c, ax, j). length c - j)") auto

function is_satisfied_from ::
    "iree_async_frontier_t \<Rightarrow> iree_async_frontier_entry_t list \<Rightarrow> nat \<Rightarrow> nat \<Rightarrow> bool" where
  "is_satisfied_from frontier current_epochs i j =
     (if i < entry_count frontier then
        let j = skip_smaller_axes current_epochs (axis (entries frontier ! i)) j
        in if j \<ge> length current_epochs then False
           else if axis (current_epochs ! j) \<noteq> axis (entries frontier ! i) then False
           else if epoch (current_epochs ! j) < epoch (entries frontier ! i) then False
           else is_satisfied_from frontier current_epochs (Suc i) j
      else True)"
  by pat_completeness auto
termination
  by (relation "measure (\<lambda>(f, c, i, j). entry_count f - i)") auto

definition iree_async_frontier_is_satisfied ::
    "iree_async_frontier_t \<Rightarrow> iree_async_frontier_entry_t list \<Rightarrow> bool" where
  "iree_async_frontier_is_satisfied frontier current_epochs =
     (if entry_count frontier = 0 then True
      else is_satisfied_from frontier current_epochs 0 0)"

declare validate_order_from.simps [simp del] validate_epochs_from.simps [simp del]
  axes_match_from.simps [simp del] compare_epochs_from.simps [simp del]
  compare_scan.simps [simp del] merge_epochs_from.simps [simp del]
  merge_count_from.simps [simp del] undominated_epochs_from.simps [simp del]
  undominated_scan.simps [simp del] skip_smaller_axes.simps [simp del]
  is_satisfied_from.simps [simp del]

end
