(* ===== verification/Host_Allocator.thy ===== *)
theory Host_Allocator
  imports Machine_Math
begin

text \<open>
  The host allocator interface of \<^verbatim>\<open>runtime/src/iree/base/allocator.{h,c}\<close> as far as the memory
  components use it: the control routine is a parameter (a function of the command and the byte
  length that answers with a status; OK means that storage of that size was provided), and struct
  layout is computed with overflow-checked arithmetic.
\<close>

datatype iree_allocator_command_t =
    IREE_ALLOCATOR_COMMAND_MALLOC
  | IREE_ALLOCATOR_COMMAND_CALLOC
  | IREE_ALLOCATOR_COMMAND_REALLOC
  | IREE_ALLOCATOR_COMMAND_FREE
  | IREE_ALLOCATOR_COMMAND_TRIM

record iree_allocator_t =
  ctl :: "(iree_allocator_command_t \<Rightarrow> iree_host_size_t \<Rightarrow> iree_status_code_t) option"

definition iree_allocator_issue_alloc ::
    "iree_allocator_t \<Rightarrow> iree_allocator_command_t \<Rightarrow> iree_host_size_t \<Rightarrow> iree_status_code_t" where
  "iree_allocator_issue_alloc allocator command byte_length =
     (case ctl allocator of
        None \<Rightarrow> IREE_STATUS_INVALID_ARGUMENT
      | Some f \<Rightarrow> f command byte_length)"

definition iree_allocator_malloc ::
    "iree_allocator_t \<Rightarrow> iree_host_size_t \<Rightarrow> iree_status_code_t" where
  "iree_allocator_malloc allocator byte_length =
     iree_allocator_issue_alloc allocator IREE_ALLOCATOR_COMMAND_CALLOC byte_length"

definition iree_allocator_malloc_array ::
    "iree_allocator_t \<Rightarrow> iree_host_size_t \<Rightarrow> iree_host_size_t \<Rightarrow> iree_status_code_t" where
  "iree_allocator_malloc_array allocator count element_size =
     (case iree_checked_mul_u64 count element_size of
        None \<Rightarrow> IREE_STATUS_OUT_OF_RANGE
      | Some byte_length \<Rightarrow> iree_allocator_malloc allocator byte_length)"

text \<open>Aligned storage; the pointer adjustment inside the storage is not modelled.\<close>

definition iree_allocator_malloc_aligned ::
    "iree_allocator_t \<Rightarrow> iree_host_size_t \<Rightarrow> iree_host_size_t \<Rightarrow> iree_status_code_t" where
  "iree_allocator_malloc_aligned allocator byte_length min_alignment =
     (if byte_length = 0 then IREE_STATUS_INVALID_ARGUMENT
      else if \<not> iree_host_size_is_valid_alignment min_alignment then IREE_STATUS_INVALID_ARGUMENT
      else case iree_checked_add_u64 8 byte_length of
             None \<Rightarrow> IREE_STATUS_OUT_OF_RANGE
           | Some total_length \<Rightarrow>
               (case iree_checked_add_u64 total_length (max min_alignment 16) of
                  None \<Rightarrow> IREE_STATUS_OUT_OF_RANGE
                | Some total_length \<Rightarrow> iree_allocator_malloc allocator total_length))"

section \<open>Struct layout\<close>

record iree_struct_field_t =
  count0 :: iree_host_size_t
  count1 :: iree_host_size_t
  element_size :: iree_host_size_t
  field_alignment :: iree_host_size_t

text \<open>
  The result carries the total and the offset of every field; a field that passes no
  \<^verbatim>\<open>out_offset\<close> pointer ignores its offset.
\<close>

fun iree_struct_layout_calculate ::
    "iree_host_size_t \<Rightarrow> iree_struct_field_t list \<Rightarrow>
     (iree_host_size_t \<times> iree_host_size_t list) iree_result" where
  "iree_struct_layout_calculate total_size [] = Inr (total_size, [])"
| "iree_struct_layout_calculate total_size (field # rest) =
     (case (if field_alignment field > 0 then iree_checked_align_u64 total_size (field_alignment field)
            else Some total_size) of
        None \<Rightarrow> Inl IREE_STATUS_OUT_OF_RANGE
      | Some offset \<Rightarrow>
          (case iree_checked_mul_u64 (count0 field) (count1 field) of
             None \<Rightarrow> Inl IREE_STATUS_OUT_OF_RANGE
           | Some element_count \<Rightarrow>
               (case iree_checked_mul_u64 element_count (element_size field) of
                  None \<Rightarrow> Inl IREE_STATUS_OUT_OF_RANGE
                | Some field_size \<Rightarrow>
                    (case iree_checked_add_u64 offset field_size of
                       None \<Rightarrow> Inl IREE_STATUS_OUT_OF_RANGE
                     | Some total' \<Rightarrow>
                         (case iree_struct_layout_calculate total' rest of
                            Inl e \<Rightarrow> Inl e
                          | Inr (t, offs) \<Rightarrow> Inr (t, offset # offs))))))"

end
