(* ===== verification/TLSF.thy ===== *)
theory TLSF
  imports Frontier Host_Allocator
begin

text \<open>
  The two-level segregated fit offset allocator, \<^verbatim>\<open>runtime/src/iree/hal/memory/tlsf.{h,c}\<close>.
  Block nodes live in segments that never move; a 32-bit handle is resolved to a segment and a
  position by a bit scan, and every field write of the C code is a write through that resolution.
  Handles, segment counts and shifts are naturals (they never exceed \<^verbatim>\<open>UINT32_MAX\<close>, the null
  handle); sizes, bitmaps, flags and counters are machine words and wrap as in C.
\<close>

section \<open>Types\<close>

definition IREE_HAL_MEMORY_TLSF_SL_LOG2 :: nat where
  "IREE_HAL_MEMORY_TLSF_SL_LOG2 = 5"

definition IREE_HAL_MEMORY_TLSF_SL_COUNT :: u64 where
  "IREE_HAL_MEMORY_TLSF_SL_COUNT = 32"

definition IREE_HAL_MEMORY_TLSF_MIN_ALIGNMENT :: u64 where
  "IREE_HAL_MEMORY_TLSF_MIN_ALIGNMENT = 16"

definition IREE_HAL_MEMORY_TLSF_DEFAULT_FRONTIER_CAPACITY :: nat where
  "IREE_HAL_MEMORY_TLSF_DEFAULT_FRONTIER_CAPACITY = 8"

definition IREE_HAL_MEMORY_TLSF_DEFAULT_INITIAL_BLOCK_CAPACITY :: u64 where
  "IREE_HAL_MEMORY_TLSF_DEFAULT_INITIAL_BLOCK_CAPACITY = 64"

definition UINT32_MAX :: nat where
  "UINT32_MAX = 4294967295"

type_synonym block_index = nat

abbreviation BLOCK_INDEX_NONE :: block_index where
  "BLOCK_INDEX_NONE \<equiv> UINT32_MAX"

definition FLAG_FREE :: u32 where "FLAG_FREE = 1"
definition FLAG_LAST :: u32 where "FLAG_LAST = 2"
definition FLAG_TAINTED :: u32 where "FLAG_TAINTED = 4"

definition has_flag :: "u32 \<Rightarrow> u32 \<Rightarrow> bool" where
  "has_flag flag w \<longleftrightarrow> w AND flag \<noteq> 0"

text \<open>A block node with its inline frontier, which the C layout places right after the fields.\<close>

record iree_hal_memory_tlsf_block_t =
  offset :: iree_device_size_t
  block_length :: iree_device_size_t
  prev_physical :: block_index
  next_physical :: block_index
  prev_free :: block_index
  next_free :: block_index
  flags :: u32
  frontier :: iree_async_frontier_t

record iree_hal_memory_tlsf_options_t =
  opt_range_length :: iree_device_size_t
  opt_alignment :: iree_device_size_t
  opt_initial_block_capacity :: iree_host_size_t
  opt_frontier_capacity :: nat
  opt_initial_frontier :: "iree_async_frontier_t option"

record iree_hal_memory_tlsf_allocation_t =
  alloc_offset :: iree_device_size_t
  alloc_length :: iree_device_size_t
  alloc_block_index :: block_index
  alloc_death_frontier :: "iree_async_frontier_t option"
  alloc_block_flags :: u32

record iree_hal_memory_tlsf_candidate_t =
  cand_block_index :: block_index
  cand_block_flags :: u32
  cand_death_frontier :: "iree_async_frontier_t option"

record iree_hal_memory_tlsf_growth_t =
  growth_storage :: "iree_hal_memory_tlsf_block_t list"
  growth_block_stride :: iree_host_size_t
  growth_first_block :: nat
  growth_block_count :: nat

record iree_hal_memory_tlsf_stats_t =
  stat_bytes_allocated :: iree_device_size_t
  stat_bytes_free :: iree_device_size_t
  stat_allocation_count :: u32
  stat_free_block_count :: u32
  stat_tainted_coalesce_count :: u64

datatype iree_hal_memory_tlsf_allocate_result_t =
    IREE_HAL_MEMORY_TLSF_ALLOCATE_OK
  | IREE_HAL_MEMORY_TLSF_ALLOCATE_EXHAUSTED

text \<open>
  The instance. \<open>frontier_overflow\<close> is the owner's capture callback: it may change its own user
  data and the target frontier. The arrays indexed by first and second level are functions; every
  index the code forms is below 64 and 32 respectively.
\<close>

record 'u iree_hal_memory_tlsf_t =
  range_length :: iree_device_size_t
  alignment :: iree_device_size_t
  fl_min :: nat
  frontier_capacity :: nat
  frontier_overflow ::
    "('u \<Rightarrow> iree_async_frontier_t \<Rightarrow> iree_async_frontier_t \<Rightarrow> 'u \<times> iree_async_frontier_t) option"
  frontier_overflow_user_data :: 'u
  block_segment_count :: nat
  initial_block_shift :: nat
  fl_bitmap :: u64
  sl_bitmaps :: "nat \<Rightarrow> u32"
  free_lists :: "nat \<Rightarrow> nat \<Rightarrow> block_index"
  block_segments :: "iree_hal_memory_tlsf_block_t list list"
  block_stride :: iree_host_size_t
  initial_block_capacity :: nat
  block_capacity :: nat
  unused_node_head :: block_index
  bytes_allocated :: iree_device_size_t
  bytes_free :: iree_device_size_t
  allocation_count :: u32
  free_block_count :: u32
  tainted_coalesce_count :: u64
  host_allocator :: iree_allocator_t

section \<open>Block addressing\<close>

definition block_locate :: "nat \<Rightarrow> nat \<Rightarrow> block_index \<Rightarrow> nat \<times> nat" where
  "block_locate initial_capacity initial_shift index =
     (if index \<ge> initial_capacity
      then let shift = 31 - iree_math_count_leading_zeros_u32 (of_nat index)
           in (shift - initial_shift + 1, index - 2 ^ shift)
      else (0, index))"

definition iree_hal_memory_tlsf_block_at ::
    "'u iree_hal_memory_tlsf_t \<Rightarrow> block_index \<Rightarrow> iree_hal_memory_tlsf_block_t" where
  "iree_hal_memory_tlsf_block_at tlsf index =
     (let (segment, i) = block_locate (initial_block_capacity tlsf) (initial_block_shift tlsf) index
      in block_segments tlsf ! segment ! i)"

abbreviation block_at ::
    "'u iree_hal_memory_tlsf_t \<Rightarrow> block_index \<Rightarrow> iree_hal_memory_tlsf_block_t" where
  "block_at \<equiv> iree_hal_memory_tlsf_block_at"

text \<open>A write through the pointer that \<^verbatim>\<open>block_at\<close> returns.\<close>

definition block_write ::
    "block_index \<Rightarrow> (iree_hal_memory_tlsf_block_t \<Rightarrow> iree_hal_memory_tlsf_block_t) \<Rightarrow>
     'u iree_hal_memory_tlsf_t \<Rightarrow> 'u iree_hal_memory_tlsf_t" where
  "block_write index f tlsf =
     (let (segment, i) = block_locate (initial_block_capacity tlsf) (initial_block_shift tlsf) index
      in tlsf\<lparr>block_segments := (block_segments tlsf)
           [segment := (block_segments tlsf ! segment)[i := f (block_segments tlsf ! segment ! i)]]\<rparr>)"

text \<open>A node after \<^verbatim>\<open>memset(block, 0, block_stride)\<close>, with room for \<open>n\<close> frontier entries.\<close>

definition zero_block :: "nat \<Rightarrow> iree_hal_memory_tlsf_block_t" where
  "zero_block n =
     \<lparr>offset = 0, block_length = 0, prev_physical = 0, next_physical = 0, prev_free = 0, next_free = 0,
      flags = 0, frontier = \<lparr>entry_count = 0, entries = replicate n \<lparr>axis = 0, epoch = 0\<rparr>\<rparr>\<rparr>"

definition iree_hal_memory_tlsf_alloc_node ::
    "'u iree_hal_memory_tlsf_t \<Rightarrow> block_index \<times> 'u iree_hal_memory_tlsf_t" where
  "iree_hal_memory_tlsf_alloc_node tlsf =
     (let index = unused_node_head tlsf;
          tlsf = tlsf\<lparr>unused_node_head := next_free (block_at tlsf index)\<rparr>;
          tlsf = block_write index (\<lambda>_. zero_block (frontier_capacity tlsf)) tlsf
      in (index, tlsf))"

definition iree_hal_memory_tlsf_free_node ::
    "block_index \<Rightarrow> 'u iree_hal_memory_tlsf_t \<Rightarrow> 'u iree_hal_memory_tlsf_t" where
  "iree_hal_memory_tlsf_free_node index tlsf =
     (let tlsf = block_write index (\<lambda>_. zero_block (frontier_capacity tlsf)) tlsf;
          tlsf = block_write index (\<lambda>b. b\<lparr>next_free := unused_node_head tlsf\<rparr>) tlsf
      in tlsf\<lparr>unused_node_head := index\<rparr>)"

section \<open>Size classes\<close>

definition iree_hal_memory_tlsf_mapping_insert :: "iree_device_size_t \<Rightarrow> nat \<times> nat" where
  "iree_hal_memory_tlsf_mapping_insert len =
     (let fl = 63 - iree_math_count_leading_zeros_u64 len;
          sl_shift = (if fl > IREE_HAL_MEMORY_TLSF_SL_LOG2 then fl - IREE_HAL_MEMORY_TLSF_SL_LOG2 else 0)
      in (fl, unat (drop_bit sl_shift len AND (IREE_HAL_MEMORY_TLSF_SL_COUNT - 1))))"

text \<open>\<^term>\<open>None\<close> is the result \<^verbatim>\<open>false\<close>: rounding up would overflow.\<close>

definition iree_hal_memory_tlsf_mapping_search :: "iree_device_size_t \<Rightarrow> (nat \<times> nat) option" where
  "iree_hal_memory_tlsf_mapping_search len =
     (let fl = 63 - iree_math_count_leading_zeros_u64 len
      in if fl > IREE_HAL_MEMORY_TLSF_SL_LOG2 then
           let sl_shift = fl - IREE_HAL_MEMORY_TLSF_SL_LOG2;
               rounding = push_bit sl_shift 1 - 1
           in if len > NOT 0 - rounding then None
              else let rounded = len + rounding;
                       new_fl = 63 - iree_math_count_leading_zeros_u64 rounded
                   in if new_fl \<noteq> fl then Some (new_fl, 0)
                      else Some (fl, unat (drop_bit sl_shift rounded AND (IREE_HAL_MEMORY_TLSF_SL_COUNT - 1)))
         else Some (fl, unat (len AND (IREE_HAL_MEMORY_TLSF_SL_COUNT - 1))))"

section \<open>Free lists\<close>

definition set_free_list ::
    "nat \<Rightarrow> nat \<Rightarrow> block_index \<Rightarrow> 'u iree_hal_memory_tlsf_t \<Rightarrow> 'u iree_hal_memory_tlsf_t" where
  "set_free_list fl sl index tlsf =
     tlsf\<lparr>free_lists := (free_lists tlsf)(fl := (free_lists tlsf fl)(sl := index))\<rparr>"

definition iree_hal_memory_tlsf_insert_free_block ::
    "block_index \<Rightarrow> 'u iree_hal_memory_tlsf_t \<Rightarrow> 'u iree_hal_memory_tlsf_t" where
  "iree_hal_memory_tlsf_insert_free_block index tlsf =
     (let (fl, sl) = iree_hal_memory_tlsf_mapping_insert (block_length (block_at tlsf index));
          old_head = free_lists tlsf fl sl;
          tlsf = block_write index (\<lambda>b. b\<lparr>prev_free := BLOCK_INDEX_NONE\<rparr>) tlsf;
          tlsf = block_write index (\<lambda>b. b\<lparr>next_free := old_head\<rparr>) tlsf;
          tlsf = (if old_head \<noteq> BLOCK_INDEX_NONE
                  then block_write old_head (\<lambda>b. b\<lparr>prev_free := index\<rparr>) tlsf else tlsf);
          tlsf = set_free_list fl sl index tlsf;
          tlsf = tlsf\<lparr>fl_bitmap := fl_bitmap tlsf OR push_bit fl 1\<rparr>;
          tlsf = tlsf\<lparr>sl_bitmaps := (sl_bitmaps tlsf)(fl := sl_bitmaps tlsf fl OR push_bit sl 1)\<rparr>
      in tlsf\<lparr>free_block_count := free_block_count tlsf + 1\<rparr>)"

definition iree_hal_memory_tlsf_remove_free_block ::
    "block_index \<Rightarrow> 'u iree_hal_memory_tlsf_t \<Rightarrow> 'u iree_hal_memory_tlsf_t" where
  "iree_hal_memory_tlsf_remove_free_block index tlsf =
     (let block = block_at tlsf index;
          (fl, sl) = iree_hal_memory_tlsf_mapping_insert (block_length block);
          tlsf = (if prev_free block \<noteq> BLOCK_INDEX_NONE
                  then block_write (prev_free block) (\<lambda>b. b\<lparr>next_free := next_free block\<rparr>) tlsf
                  else set_free_list fl sl (next_free block) tlsf);
          tlsf = (if next_free block \<noteq> BLOCK_INDEX_NONE
                  then block_write (next_free block) (\<lambda>b. b\<lparr>prev_free := prev_free block\<rparr>) tlsf
                  else tlsf);
          tlsf = block_write index (\<lambda>b. b\<lparr>prev_free := BLOCK_INDEX_NONE\<rparr>) tlsf;
          tlsf = block_write index (\<lambda>b. b\<lparr>next_free := BLOCK_INDEX_NONE\<rparr>) tlsf;
          tlsf = (if free_lists tlsf fl sl = BLOCK_INDEX_NONE then
                    let tlsf = tlsf\<lparr>sl_bitmaps := (sl_bitmaps tlsf)
                                      (fl := sl_bitmaps tlsf fl AND NOT (push_bit sl 1))\<rparr>
                    in if sl_bitmaps tlsf fl = 0
                       then tlsf\<lparr>fl_bitmap := fl_bitmap tlsf AND NOT (push_bit fl 1)\<rparr> else tlsf
                  else tlsf)
      in tlsf\<lparr>free_block_count := free_block_count tlsf - 1\<rparr>)"

definition iree_hal_memory_tlsf_find_suitable_block ::
    "'u iree_hal_memory_tlsf_t \<Rightarrow> iree_device_size_t \<Rightarrow> block_index" where
  "iree_hal_memory_tlsf_find_suitable_block tlsf len =
     (let (fl, sl) = iree_hal_memory_tlsf_mapping_insert len;
          containing_head = free_lists tlsf fl sl
      in if containing_head \<noteq> BLOCK_INDEX_NONE \<and> block_length (block_at tlsf containing_head) \<ge> len
         then containing_head
         else case iree_hal_memory_tlsf_mapping_search len of
           None \<Rightarrow> BLOCK_INDEX_NONE
         | Some (fl, sl) \<Rightarrow>
             let sl_map = sl_bitmaps tlsf fl AND push_bit sl (NOT 0)
             in if sl_map \<noteq> 0
                then free_lists tlsf fl (iree_math_count_trailing_zeros_u32 sl_map)
                else let fl_map = fl_bitmap tlsf AND NOT (iree_shr_u64 (NOT 0) (63 - fl))
                     in if fl_map = 0 then BLOCK_INDEX_NONE
                        else let found_fl = iree_math_count_trailing_zeros_u64 fl_map;
                                 found_sl = iree_math_count_trailing_zeros_u32 (sl_bitmaps tlsf found_fl)
                             in free_lists tlsf found_fl found_sl)"

section \<open>Frontier merging\<close>

text \<open>The source frontier is \<^term>\<open>None\<close> for a null pointer.\<close>

definition iree_hal_memory_tlsf_merge_frontiers ::
    "block_index \<Rightarrow> iree_async_frontier_t option \<Rightarrow> 'u iree_hal_memory_tlsf_t \<Rightarrow>
     'u iree_hal_memory_tlsf_t" where
  "iree_hal_memory_tlsf_merge_frontiers target source_frontier tlsf =
     (case source_frontier of
        None \<Rightarrow> tlsf
      | Some source \<Rightarrow>
          if entry_count source = 0 then tlsf
          else if has_flag FLAG_TAINTED (flags (block_at tlsf target)) then tlsf
          else case iree_async_frontier_merge (frontier (block_at tlsf target))
                      (frontier_capacity tlsf) source of
            (True, merged) \<Rightarrow> block_write target (\<lambda>b. b\<lparr>frontier := merged\<rparr>) tlsf
          | (False, unmerged) \<Rightarrow>
              (case frontier_overflow tlsf of
                 Some capture \<Rightarrow>
                   let (user_data, captured) = capture (frontier_overflow_user_data tlsf) unmerged source
                   in block_write target (\<lambda>b. b\<lparr>frontier := captured\<rparr>)
                        (tlsf\<lparr>frontier_overflow_user_data := user_data\<rparr>)
               | None \<Rightarrow>
                   let tlsf = block_write target (\<lambda>b. b\<lparr>flags := flags b OR FLAG_TAINTED\<rparr>) tlsf;
                       tlsf = block_write target
                                (\<lambda>b. b\<lparr>frontier := (frontier b)\<lparr>entry_count := 0\<rparr>\<rparr>) tlsf
                   in tlsf\<lparr>tainted_coalesce_count := tainted_coalesce_count tlsf + 1\<rparr>))"

section \<open>Initialization\<close>

definition rounded_initial_capacity :: "iree_host_size_t \<Rightarrow> nat" where
  "rounded_initial_capacity capacity =
     (if capacity > push_bit 31 1 then UINT32_MAX
      else if capacity > 1
           then 2 ^ (32 - iree_math_count_leading_zeros_u32 (ucast capacity - 1))
           else unat capacity)"

text \<open>The loop that chains the nodes from \<open>i\<close> up to the capacity onto the unused list.\<close>

function link_unused_from :: "nat \<Rightarrow> nat \<Rightarrow> 'u iree_hal_memory_tlsf_t \<Rightarrow> 'u iree_hal_memory_tlsf_t" where
  "link_unused_from i capacity tlsf =
     (if i < capacity then
        let tlsf = block_write i (\<lambda>b. b\<lparr>next_free := unused_node_head tlsf\<rparr>) tlsf;
            tlsf = tlsf\<lparr>unused_node_head := i\<rparr>
        in link_unused_from (Suc i) capacity tlsf
      else tlsf)"
  by pat_completeness auto
termination
  by (relation "measure (\<lambda>(i, capacity, tlsf). capacity - i)") auto

declare link_unused_from.simps [simp del]

text \<open>
  The argument \<open>user_data\<close> stands for the borrowed owner pointer, which the C code leaves null; the
  overflow callback is unset until the owner installs one.
\<close>

definition iree_hal_memory_tlsf_initialize ::
    "'u \<Rightarrow> iree_hal_memory_tlsf_options_t \<Rightarrow> iree_allocator_t \<Rightarrow> 'u iree_hal_memory_tlsf_t iree_result" where
  "iree_hal_memory_tlsf_initialize user_data options allocator =
     (if opt_range_length options = 0 then Inl IREE_STATUS_INVALID_ARGUMENT
      else
        let align = (if opt_alignment options = 0 then IREE_HAL_MEMORY_TLSF_MIN_ALIGNMENT
                     else opt_alignment options)
        in if align < IREE_HAL_MEMORY_TLSF_MIN_ALIGNMENT then Inl IREE_STATUS_INVALID_ARGUMENT
        else if \<not> iree_device_size_is_power_of_two align then Inl IREE_STATUS_INVALID_ARGUMENT
        else if opt_range_length options < align then Inl IREE_STATUS_INVALID_ARGUMENT
        else
        let range = opt_range_length options AND NOT (align - 1);
            frontier_cap = (if opt_frontier_capacity options = 0
                            then IREE_HAL_MEMORY_TLSF_DEFAULT_FRONTIER_CAPACITY
                            else opt_frontier_capacity options)
        in if (case opt_initial_frontier options of None \<Rightarrow> False
               | Some f \<Rightarrow> entry_count f > frontier_cap) then Inl IREE_STATUS_OUT_OF_RANGE
        else case iree_struct_layout_calculate 40
                    [\<lparr>count0 = 1, count1 = 1, element_size = 8, field_alignment = 8\<rparr>,
                     \<lparr>count0 = of_nat frontier_cap, count1 = 1, element_size = 16, field_alignment = 0\<rparr>] of
          Inl e \<Rightarrow> Inl e
        | Inr (stride, _) \<Rightarrow>
        let requested = (if opt_initial_block_capacity options = 0
                         then IREE_HAL_MEMORY_TLSF_DEFAULT_INITIAL_BLOCK_CAPACITY
                         else opt_initial_block_capacity options)
        in if unat requested > UINT32_MAX then Inl IREE_STATUS_INVALID_ARGUMENT
        else
        let capacity = rounded_initial_capacity requested
        in case iree_allocator_malloc_array allocator (of_nat capacity) stride of
          IREE_STATUS_OK \<Rightarrow>
            let tlsf = \<lparr>range_length = range, alignment = align,
                  fl_min = iree_math_count_trailing_zeros_u64 align,
                  frontier_capacity = frontier_cap,
                  frontier_overflow = None, frontier_overflow_user_data = user_data,
                  block_segment_count = 1,
                  initial_block_shift = 31 - iree_math_count_leading_zeros_u32 (of_nat capacity),
                  fl_bitmap = 0, sl_bitmaps = (\<lambda>_. 0), free_lists = (\<lambda>_ _. BLOCK_INDEX_NONE),
                  block_segments = [replicate capacity (zero_block frontier_cap)],
                  block_stride = stride,
                  initial_block_capacity = capacity, block_capacity = capacity,
                  unused_node_head = BLOCK_INDEX_NONE,
                  bytes_allocated = 0, bytes_free = range, allocation_count = 0,
                  free_block_count = 0, tainted_coalesce_count = 0, host_allocator = allocator\<rparr>;
                tlsf = link_unused_from 1 capacity tlsf;
                tlsf = block_write 0 (\<lambda>b. b\<lparr>offset := 0, block_length := range,
                  prev_physical := BLOCK_INDEX_NONE, next_physical := BLOCK_INDEX_NONE,
                  prev_free := BLOCK_INDEX_NONE, next_free := BLOCK_INDEX_NONE,
                  flags := FLAG_FREE OR FLAG_LAST\<rparr>) tlsf;
                tlsf = block_write 0 (\<lambda>b. b\<lparr>frontier :=
                  (case opt_initial_frontier options of
                     Some f \<Rightarrow> frontier_copy (frontier b) f
                   | None \<Rightarrow> iree_async_frontier_initialize (frontier b) 0)\<rparr>) tlsf
            in Inr (iree_hal_memory_tlsf_insert_free_block 0 tlsf)
        | e \<Rightarrow> Inl e)"

text \<open>
  \<^verbatim>\<open>deinitialize\<close> releases every segment and clears the struct; \<open>null_user\<close> is the null owner.
\<close>

definition iree_hal_memory_tlsf_deinitialize ::
    "'u \<Rightarrow> 'u iree_hal_memory_tlsf_t \<Rightarrow> 'u iree_hal_memory_tlsf_t" where
  "iree_hal_memory_tlsf_deinitialize null_user tlsf =
     \<lparr>range_length = 0, alignment = 0, fl_min = 0, frontier_capacity = 0, frontier_overflow = None,
      frontier_overflow_user_data = null_user, block_segment_count = 0, initial_block_shift = 0,
      fl_bitmap = 0, sl_bitmaps = (\<lambda>_. 0), free_lists = (\<lambda>_ _. 0), block_segments = [],
      block_stride = 0, initial_block_capacity = 0, block_capacity = 0, unused_node_head = 0,
      bytes_allocated = 0, bytes_free = 0, allocation_count = 0, free_block_count = 0,
      tainted_coalesce_count = 0, host_allocator = \<lparr>ctl = None\<rparr>\<rparr>"

section \<open>Candidate search\<close>

definition candidate_of :: "'u iree_hal_memory_tlsf_t \<Rightarrow> block_index \<Rightarrow> iree_hal_memory_tlsf_candidate_t" where
  "candidate_of tlsf index =
     (let block = block_at tlsf index
      in \<lparr>cand_block_index = index, cand_block_flags = flags block,
          cand_death_frontier =
            (if entry_count (frontier block) \<noteq> 0 then Some (frontier block) else None)\<rparr>)"

definition no_candidate :: iree_hal_memory_tlsf_candidate_t where
  "no_candidate = \<lparr>cand_block_index = BLOCK_INDEX_NONE, cand_block_flags = 0, cand_death_frontier = None\<rparr>"

text \<open>
  The inner loop walks one free list; the outer loop advances to the next populated bin. Both are
  given fuel: \<^term>\<open>None\<close> means that the fuel ran out.
\<close>

fun scan_bin ::
    "nat \<Rightarrow> 'u iree_hal_memory_tlsf_t \<Rightarrow> iree_device_size_t \<Rightarrow> block_index \<Rightarrow> block_index option" where
  "scan_bin 0 tlsf minimum_length index = None"
| "scan_bin (Suc fuel) tlsf minimum_length index =
     (if index = BLOCK_INDEX_NONE then Some BLOCK_INDEX_NONE
      else if block_length (block_at tlsf index) \<ge> minimum_length then Some index
      else scan_bin fuel tlsf minimum_length (next_free (block_at tlsf index)))"

definition next_bin :: "'u iree_hal_memory_tlsf_t \<Rightarrow> nat \<Rightarrow> nat \<Rightarrow> (nat \<times> nat) option" where
  "next_bin tlsf fl sl =
     (let sl_map = sl_bitmaps tlsf fl AND NOT (iree_shr_u32 (NOT 0) (31 - sl))
      in if sl_map = 0 then
           let fl_map = fl_bitmap tlsf AND NOT (iree_shr_u64 (NOT 0) (63 - fl))
           in if fl_map = 0 then None
              else let fl = iree_math_count_trailing_zeros_u64 fl_map
                   in Some (fl, iree_math_count_trailing_zeros_u32 (sl_bitmaps tlsf fl))
         else Some (fl, iree_math_count_trailing_zeros_u32 sl_map))"

fun scan_bins ::
    "nat \<Rightarrow> 'u iree_hal_memory_tlsf_t \<Rightarrow> iree_device_size_t \<Rightarrow> nat \<Rightarrow> nat \<Rightarrow> block_index \<Rightarrow>
     iree_hal_memory_tlsf_candidate_t option" where
  "scan_bins 0 tlsf minimum_length fl sl index = None"
| "scan_bins (Suc fuel) tlsf minimum_length fl sl index =
     (case scan_bin (Suc (block_capacity tlsf)) tlsf minimum_length index of
        None \<Rightarrow> None
      | Some found \<Rightarrow>
          if found \<noteq> BLOCK_INDEX_NONE then Some (candidate_of tlsf found)
          else case next_bin tlsf fl sl of
            None \<Rightarrow> Some no_candidate
          | Some (fl', sl') \<Rightarrow> scan_bins fuel tlsf minimum_length fl' sl' (free_lists tlsf fl' sl'))"

definition iree_hal_memory_tlsf_query_free_block ::
    "'u iree_hal_memory_tlsf_t \<Rightarrow> iree_device_size_t \<Rightarrow> block_index \<Rightarrow>
     iree_hal_memory_tlsf_candidate_t option" where
  "iree_hal_memory_tlsf_query_free_block tlsf minimum_length after_block =
     (if after_block = BLOCK_INDEX_NONE then
        let (fl, sl) = iree_hal_memory_tlsf_mapping_insert minimum_length
        in scan_bins 2049 tlsf minimum_length fl sl (free_lists tlsf fl sl)
      else
        let after = block_at tlsf after_block;
            (fl, sl) = iree_hal_memory_tlsf_mapping_insert (block_length after)
        in scan_bins 2049 tlsf minimum_length fl sl (next_free after))"

section \<open>Growth\<close>

definition iree_hal_memory_tlsf_query_growth ::
    "'u iree_hal_memory_tlsf_t \<Rightarrow> block_index \<Rightarrow> iree_device_size_t \<Rightarrow> iree_hal_memory_tlsf_growth_t" where
  "iree_hal_memory_tlsf_query_growth tlsf index aligned_length =
     (if unused_node_head tlsf \<noteq> BLOCK_INDEX_NONE \<or>
         block_length (block_at tlsf index) - aligned_length < alignment tlsf
      then \<lparr>growth_storage = [], growth_block_stride = 0, growth_first_block = 0, growth_block_count = 0\<rparr>
      else \<lparr>growth_storage = [], growth_block_stride = block_stride tlsf,
            growth_first_block = block_capacity tlsf,
            growth_block_count = min (block_capacity tlsf) (UINT32_MAX - block_capacity tlsf)\<rparr>)"

text \<open>
  The prepared storage is a list of nodes; the frontier capacity that determines the node size is
  an argument, since the C descriptor only carries the byte stride.
\<close>

definition iree_hal_memory_tlsf_prepare_growth ::
    "nat \<Rightarrow> iree_hal_memory_tlsf_growth_t \<Rightarrow> iree_allocator_t \<Rightarrow>
     iree_hal_memory_tlsf_growth_t iree_result" where
  "iree_hal_memory_tlsf_prepare_growth frontier_cap growth allocator =
     (if growth_block_count growth = 0 then Inl IREE_STATUS_RESOURCE_EXHAUSTED
      else case iree_allocator_malloc_array allocator (of_nat (growth_block_count growth))
                  (growth_block_stride growth) of
        IREE_STATUS_OK \<Rightarrow>
          Inr (growth\<lparr>growth_storage :=
            map (\<lambda>i. (zero_block frontier_cap)\<lparr>next_free :=
                   (if i \<noteq> 0 then growth_first_block growth + i - 1 else BLOCK_INDEX_NONE)\<rparr>)
              [0..<growth_block_count growth]\<rparr>)
      | e \<Rightarrow> Inl e)"

definition iree_hal_memory_tlsf_apply_growth ::
    "'u iree_hal_memory_tlsf_t \<Rightarrow> iree_hal_memory_tlsf_growth_t \<Rightarrow>
     bool \<times> 'u iree_hal_memory_tlsf_t \<times> iree_hal_memory_tlsf_growth_t" where
  "iree_hal_memory_tlsf_apply_growth tlsf growth =
     (if growth_first_block growth \<noteq> block_capacity tlsf \<or>
         growth_block_stride growth \<noteq> block_stride tlsf then (False, tlsf, growth)
      else
        let storage = (growth_storage growth)
              [0 := (growth_storage growth ! 0)\<lparr>next_free := unused_node_head tlsf\<rparr>];
            tlsf = tlsf\<lparr>block_segments := block_segments tlsf @ [storage],
                        block_segment_count := block_segment_count tlsf + 1\<rparr>;
            tlsf = tlsf\<lparr>block_capacity := block_capacity tlsf + growth_block_count growth\<rparr>;
            tlsf = tlsf\<lparr>unused_node_head := block_capacity tlsf - 1\<rparr>
        in (True, tlsf, growth\<lparr>growth_storage := []\<rparr>))"

section \<open>Allocation\<close>

definition optional_frontier :: "iree_async_frontier_t \<Rightarrow> iree_async_frontier_t option" where
  "optional_frontier f = (if entry_count f > 0 then Some f else None)"

text \<open>
  The split of \<open>index\<close>: the new node \<open>rest\<close> takes the tail of the block. \<open>split_links\<close> is the code
  up to the insertion of the remainder into the free lists.
\<close>

definition split_links ::
    "block_index \<Rightarrow> block_index \<Rightarrow> iree_device_size_t \<Rightarrow> iree_device_size_t \<Rightarrow>
     'u iree_hal_memory_tlsf_t \<Rightarrow> 'u iree_hal_memory_tlsf_t" where
  "split_links index rest aligned_length remainder tlsf =
     (let block = block_at tlsf index;
          tlsf = block_write rest (\<lambda>b. b\<lparr>offset := offset block + aligned_length,
            block_length := remainder, prev_physical := index,
            next_physical := next_physical block,
            flags := FLAG_FREE OR (flags block AND FLAG_TAINTED)\<rparr>) tlsf;
          tlsf = (if has_flag FLAG_LAST (flags block)
                  then block_write index (\<lambda>b. b\<lparr>flags := flags b AND NOT FLAG_LAST\<rparr>)
                         (block_write rest (\<lambda>b. b\<lparr>flags := flags b OR FLAG_LAST\<rparr>) tlsf)
                  else tlsf);
          right = next_physical (block_at tlsf rest);
          tlsf = (if right \<noteq> BLOCK_INDEX_NONE
                  then block_write right (\<lambda>b. b\<lparr>prev_physical := rest\<rparr>) tlsf else tlsf);
          tlsf = block_write index (\<lambda>b. b\<lparr>next_physical := rest, block_length := aligned_length\<rparr>) tlsf
      in block_write rest
           (\<lambda>b. b\<lparr>frontier := frontier_copy (frontier b) (frontier (block_at tlsf index))\<rparr>) tlsf)"

definition split_block ::
    "block_index \<Rightarrow> block_index \<Rightarrow> iree_device_size_t \<Rightarrow> iree_device_size_t \<Rightarrow>
     'u iree_hal_memory_tlsf_t \<Rightarrow> 'u iree_hal_memory_tlsf_t" where
  "split_block index rest aligned_length remainder tlsf =
     (let tlsf = split_links index rest aligned_length remainder tlsf;
          tlsf = iree_hal_memory_tlsf_insert_free_block rest tlsf
      in tlsf\<lparr>bytes_free := bytes_free tlsf - aligned_length\<rparr>)"

definition iree_hal_memory_tlsf_allocate_block ::
    "block_index \<Rightarrow> iree_device_size_t \<Rightarrow> 'u iree_hal_memory_tlsf_t \<Rightarrow>
     iree_hal_memory_tlsf_allocation_t \<times> 'u iree_hal_memory_tlsf_t" where
  "iree_hal_memory_tlsf_allocate_block index aligned_length tlsf =
     (let remainder = block_length (block_at tlsf index) - aligned_length;
          (rest, tlsf) = (if remainder \<ge> alignment tlsf then iree_hal_memory_tlsf_alloc_node tlsf
                          else (BLOCK_INDEX_NONE, tlsf));
          tlsf = iree_hal_memory_tlsf_remove_free_block index tlsf;
          tlsf = (if rest \<noteq> BLOCK_INDEX_NONE then split_block index rest aligned_length remainder tlsf
                  else tlsf\<lparr>bytes_free := bytes_free tlsf - block_length (block_at tlsf index)\<rparr>);
          tlsf = block_write index (\<lambda>b. b\<lparr>flags := flags b AND NOT FLAG_FREE\<rparr>) tlsf;
          block = block_at tlsf index;
          tlsf = tlsf\<lparr>bytes_allocated := bytes_allocated tlsf + block_length block\<rparr>;
          tlsf = tlsf\<lparr>allocation_count := allocation_count tlsf + 1\<rparr>
      in (\<lparr>alloc_offset = offset block, alloc_length = block_length block, alloc_block_index = index,
           alloc_death_frontier = optional_frontier (frontier block), alloc_block_flags = flags block\<rparr>,
          tlsf))"

text \<open>
  The result is \<^term>\<open>Inl\<close> for an error status, \<^term>\<open>Inr None\<close> for EXHAUSTED and
  \<^term>\<open>Inr (Some a)\<close> for OK; the state is returned in all cases.
\<close>

definition iree_hal_memory_tlsf_try_allocate ::
    "iree_device_size_t \<Rightarrow> 'u iree_hal_memory_tlsf_t \<Rightarrow>
     iree_hal_memory_tlsf_allocation_t option iree_result \<times> 'u iree_hal_memory_tlsf_t" where
  "iree_hal_memory_tlsf_try_allocate len tlsf =
     (if len = 0 then (Inl IREE_STATUS_INVALID_ARGUMENT, tlsf)
      else if len > NOT 0 - (alignment tlsf - 1) then (Inl IREE_STATUS_OUT_OF_RANGE, tlsf)
      else
        let aligned_length = iree_device_align len (alignment tlsf);
            aligned_length = (if aligned_length < alignment tlsf then alignment tlsf else aligned_length);
            index = iree_hal_memory_tlsf_find_suitable_block tlsf aligned_length
        in if index = BLOCK_INDEX_NONE then (Inr None, tlsf)
           else
             let growth = iree_hal_memory_tlsf_query_growth tlsf index aligned_length
             in case (if growth_first_block growth \<noteq> 0 then
                        (case iree_hal_memory_tlsf_prepare_growth (frontier_capacity tlsf) growth
                                (host_allocator tlsf) of
                           Inl e \<Rightarrow> Inl e
                         | Inr prepared \<Rightarrow>
                             Inr (fst (snd (iree_hal_memory_tlsf_apply_growth tlsf prepared))))
                      else Inr tlsf) of
               Inl e \<Rightarrow> (Inl e, tlsf)
             | Inr tlsf \<Rightarrow>
                 let (allocation, tlsf) = iree_hal_memory_tlsf_allocate_block index aligned_length tlsf
                 in (Inr (Some allocation), tlsf))"

definition iree_hal_memory_tlsf_allocate ::
    "iree_device_size_t \<Rightarrow> 'u iree_hal_memory_tlsf_t \<Rightarrow>
     iree_hal_memory_tlsf_allocation_t iree_result \<times> 'u iree_hal_memory_tlsf_t" where
  "iree_hal_memory_tlsf_allocate len tlsf =
     (case iree_hal_memory_tlsf_try_allocate len tlsf of
        (Inl e, tlsf) \<Rightarrow> (Inl e, tlsf)
      | (Inr None, tlsf) \<Rightarrow> (Inl IREE_STATUS_RESOURCE_EXHAUSTED, tlsf)
      | (Inr (Some allocation), tlsf) \<Rightarrow> (Inr allocation, tlsf))"

section \<open>Release\<close>

text \<open>The dependency metadata of a released block.\<close>

definition attach_death_frontier ::
    "block_index \<Rightarrow> iree_async_frontier_t option \<Rightarrow> 'u iree_hal_memory_tlsf_t \<Rightarrow>
     'u iree_hal_memory_tlsf_t" where
  "attach_death_frontier index death_frontier tlsf =
     (let tlsf = block_write index (\<lambda>b. b\<lparr>flags := flags b AND NOT FLAG_TAINTED\<rparr>) tlsf;
          empty = block_write index
            (\<lambda>b. b\<lparr>frontier := iree_async_frontier_initialize (frontier b) 0\<rparr>) tlsf
      in case death_frontier of
           None \<Rightarrow> empty
         | Some death \<Rightarrow>
             if entry_count death > 0 then
               if entry_count death \<le> frontier_capacity tlsf
               then block_write index (\<lambda>b. b\<lparr>frontier := frontier_copy (frontier b) death\<rparr>) tlsf
               else iree_hal_memory_tlsf_merge_frontiers index (Some death) empty
             else empty)"

text \<open>
  Both coalescing steps absorb \<open>gone\<close>, the right block, into \<open>kept\<close>, the left one; the one of the
  two that was in a free list has been taken out of it. \<open>absorb_links\<close> is the code after the
  frontier merge.
\<close>

definition absorb_links ::
    "block_index \<Rightarrow> block_index \<Rightarrow> 'u iree_hal_memory_tlsf_t \<Rightarrow> 'u iree_hal_memory_tlsf_t" where
  "absorb_links kept gone tlsf =
     (let gone_block = block_at tlsf gone;
          tlsf = block_write kept (\<lambda>b. b\<lparr>block_length := block_length b + block_length gone_block\<rparr>) tlsf;
          tlsf = (if has_flag FLAG_LAST (flags gone_block)
                  then block_write kept (\<lambda>b. b\<lparr>flags := flags b OR FLAG_LAST\<rparr>) tlsf else tlsf);
          tlsf = (if has_flag FLAG_TAINTED (flags gone_block)
                  then block_write kept (\<lambda>b. b\<lparr>flags := flags b OR FLAG_TAINTED,
                         frontier := (frontier b)\<lparr>entry_count := 0\<rparr>\<rparr>) tlsf
                  else tlsf);
          tlsf = block_write kept (\<lambda>b. b\<lparr>next_physical := next_physical gone_block\<rparr>) tlsf;
          tlsf = (if next_physical gone_block \<noteq> BLOCK_INDEX_NONE
                  then block_write (next_physical gone_block) (\<lambda>b. b\<lparr>prev_physical := kept\<rparr>) tlsf
                  else tlsf)
      in iree_hal_memory_tlsf_free_node gone tlsf)"

definition absorb_block ::
    "block_index \<Rightarrow> block_index \<Rightarrow> 'u iree_hal_memory_tlsf_t \<Rightarrow> 'u iree_hal_memory_tlsf_t" where
  "absorb_block kept gone tlsf =
     absorb_links kept gone
       (iree_hal_memory_tlsf_merge_frontiers kept (Some (frontier (block_at tlsf gone))) tlsf)"

definition coalesce_right :: "block_index \<Rightarrow> 'u iree_hal_memory_tlsf_t \<Rightarrow> 'u iree_hal_memory_tlsf_t" where
  "coalesce_right index tlsf =
     (if \<not> has_flag FLAG_LAST (flags (block_at tlsf index)) then
        let right_index = next_physical (block_at tlsf index)
        in if right_index \<noteq> BLOCK_INDEX_NONE then
             if has_flag FLAG_FREE (flags (block_at tlsf right_index))
             then absorb_block index right_index (iree_hal_memory_tlsf_remove_free_block right_index tlsf)
             else tlsf
           else tlsf
      else tlsf)"

text \<open>Also returns the index of the block that survives.\<close>

definition coalesce_left ::
    "block_index \<Rightarrow> 'u iree_hal_memory_tlsf_t \<Rightarrow> block_index \<times> 'u iree_hal_memory_tlsf_t" where
  "coalesce_left index tlsf =
     (let left_index = prev_physical (block_at tlsf index)
      in if left_index \<noteq> BLOCK_INDEX_NONE then
           if has_flag FLAG_FREE (flags (block_at tlsf left_index))
           then (left_index,
                 absorb_block left_index index (iree_hal_memory_tlsf_remove_free_block left_index tlsf))
           else (index, tlsf)
         else (index, tlsf))"

definition iree_hal_memory_tlsf_free_impl ::
    "block_index \<Rightarrow> iree_async_frontier_t option \<Rightarrow> bool \<Rightarrow> 'u iree_hal_memory_tlsf_t \<Rightarrow>
     'u iree_hal_memory_tlsf_t" where
  "iree_hal_memory_tlsf_free_impl index death_frontier preserve_block_metadata tlsf =
     (let len = block_length (block_at tlsf index);
          tlsf = tlsf\<lparr>bytes_allocated := bytes_allocated tlsf - len\<rparr>;
          tlsf = tlsf\<lparr>bytes_free := bytes_free tlsf + len\<rparr>;
          tlsf = tlsf\<lparr>allocation_count := allocation_count tlsf - 1\<rparr>;
          tlsf = block_write index (\<lambda>b. b\<lparr>flags := flags b OR FLAG_FREE\<rparr>) tlsf;
          tlsf = (if preserve_block_metadata then tlsf
                  else attach_death_frontier index death_frontier tlsf);
          tlsf = coalesce_right index tlsf;
          (survivor, tlsf) = coalesce_left index tlsf
      in iree_hal_memory_tlsf_insert_free_block survivor tlsf)"

definition iree_hal_memory_tlsf_free ::
    "block_index \<Rightarrow> iree_async_frontier_t option \<Rightarrow> 'u iree_hal_memory_tlsf_t \<Rightarrow>
     'u iree_hal_memory_tlsf_t" where
  "iree_hal_memory_tlsf_free index death_frontier tlsf =
     iree_hal_memory_tlsf_free_impl index death_frontier False tlsf"

definition iree_hal_memory_tlsf_restore ::
    "block_index \<Rightarrow> 'u iree_hal_memory_tlsf_t \<Rightarrow> 'u iree_hal_memory_tlsf_t" where
  "iree_hal_memory_tlsf_restore index tlsf = iree_hal_memory_tlsf_free_impl index None True tlsf"

section \<open>Queries and whole-range operations\<close>

definition iree_hal_memory_tlsf_query_stats ::
    "'u iree_hal_memory_tlsf_t \<Rightarrow> iree_hal_memory_tlsf_stats_t" where
  "iree_hal_memory_tlsf_query_stats tlsf =
     \<lparr>stat_bytes_allocated = bytes_allocated tlsf, stat_bytes_free = bytes_free tlsf,
      stat_allocation_count = allocation_count tlsf, stat_free_block_count = free_block_count tlsf,
      stat_tainted_coalesce_count = tainted_coalesce_count tlsf\<rparr>"

definition iree_hal_memory_tlsf_block_death_frontier ::
    "'u iree_hal_memory_tlsf_t \<Rightarrow> block_index \<Rightarrow> iree_async_frontier_t option" where
  "iree_hal_memory_tlsf_block_death_frontier tlsf index = optional_frontier (frontier (block_at tlsf index))"

definition iree_hal_memory_tlsf_block_flags :: "'u iree_hal_memory_tlsf_t \<Rightarrow> block_index \<Rightarrow> u32" where
  "iree_hal_memory_tlsf_block_flags tlsf index = flags (block_at tlsf index)"

text \<open>\<^term>\<open>None\<close> is the result \<^verbatim>\<open>false\<close>.\<close>

definition iree_hal_memory_tlsf_query_full_free_block ::
    "'u iree_hal_memory_tlsf_t \<Rightarrow> (iree_async_frontier_t option \<times> u32) option" where
  "iree_hal_memory_tlsf_query_full_free_block tlsf =
     (if allocation_count tlsf \<noteq> 0 \<or> free_block_count tlsf \<noteq> 1 \<or> bytes_free tlsf \<noteq> range_length tlsf
      then None
      else Some (iree_hal_memory_tlsf_block_death_frontier tlsf 0, flags (block_at tlsf 0)))"

definition iree_hal_memory_tlsf_merge_full_free_frontier ::
    "iree_async_frontier_t option \<Rightarrow> 'u iree_hal_memory_tlsf_t \<Rightarrow> 'u iree_hal_memory_tlsf_t" where
  "iree_hal_memory_tlsf_merge_full_free_frontier f tlsf = iree_hal_memory_tlsf_merge_frontiers 0 f tlsf"

definition iree_hal_memory_tlsf_reset ::
    "iree_async_frontier_t option \<Rightarrow> 'u iree_hal_memory_tlsf_t \<Rightarrow> 'u iree_hal_memory_tlsf_t" where
  "iree_hal_memory_tlsf_reset initial_frontier tlsf =
     (let tlsf = block_write 0 (\<lambda>b. b\<lparr>flags := FLAG_FREE OR FLAG_LAST\<rparr>) tlsf;
          tlsf = block_write 0 (\<lambda>b. b\<lparr>frontier :=
            (case initial_frontier of
               Some f \<Rightarrow> frontier_copy (frontier b) f
             | None \<Rightarrow> iree_async_frontier_initialize (frontier b) 0)\<rparr>) tlsf
      in tlsf\<lparr>tainted_coalesce_count := 0\<rparr>)"

definition iree_hal_memory_tlsf_largest_free_block ::
    "'u iree_hal_memory_tlsf_t \<Rightarrow> iree_device_size_t" where
  "iree_hal_memory_tlsf_largest_free_block tlsf =
     (if fl_bitmap tlsf = 0 then 0
      else let fl = 63 - iree_math_count_leading_zeros_u64 (fl_bitmap tlsf);
               sl = 31 - iree_math_count_leading_zeros_u32 (sl_bitmaps tlsf fl);
               head = free_lists tlsf fl sl
           in block_length (block_at tlsf head))"

end
