(* ===== verification/Linked_Lists.thy ===== *)
theory Linked_Lists
  imports HRX_Prelude
begin

text \<open>
  Doubly-linked and singly-linked lists threaded through an indexed store, described by the list of
  nodes they visit. The link fields are functions from indices to indices, so the same lemmas serve
  the physical neighbour lists, the free lists and the unused-node list of the allocators.
\<close>

section \<open>Singly-linked chains\<close>

fun chain :: "(nat \<Rightarrow> nat) \<Rightarrow> nat \<Rightarrow> nat list \<Rightarrow> nat \<Rightarrow> bool" where
  "chain nxt h [] n \<longleftrightarrow> h = n"
| "chain nxt h (i # is) n \<longleftrightarrow> h = i \<and> chain nxt (nxt i) is n"

lemma chain_cong:
  "(\<And>i. i \<in> set is \<Longrightarrow> nxt' i = nxt i) \<Longrightarrow> chain nxt' h is n \<longleftrightarrow> chain nxt h is n"
  by (induction "is" arbitrary: h) auto

lemma chain_append:
  "chain nxt h (xs @ ys) n \<longleftrightarrow> (\<exists>m. chain nxt h xs m \<and> chain nxt m ys n)"
  by (induction xs arbitrary: h) auto

section \<open>Doubly-linked segments\<close>

text \<open>\<open>p\<close> is what the first node's back link holds, \<open>n\<close> what the last node's forward link holds.\<close>

fun dseg :: "(nat \<Rightarrow> nat) \<Rightarrow> (nat \<Rightarrow> nat) \<Rightarrow> nat \<Rightarrow> nat \<Rightarrow> nat list \<Rightarrow> nat \<Rightarrow> bool" where
  "dseg prv nxt p h [] n \<longleftrightarrow> h = n"
| "dseg prv nxt p h (i # is) n \<longleftrightarrow> h = i \<and> prv i = p \<and> dseg prv nxt i (nxt i) is n"

lemma dseg_cong:
  "(\<And>i. i \<in> set is \<Longrightarrow> prv' i = prv i \<and> nxt' i = nxt i) \<Longrightarrow>
   dseg prv' nxt' p h is n \<longleftrightarrow> dseg prv nxt p h is n"
  by (induction "is" arbitrary: p h) auto

lemma dseg_append:
  "dseg prv nxt p h (xs @ ys) n \<longleftrightarrow>
   (\<exists>m. dseg prv nxt p h xs m \<and> dseg prv nxt (last (p # xs)) m ys n)"
  by (induction xs arbitrary: p h) auto

lemma dseg_head: "dseg prv nxt p h xs n \<Longrightarrow> h = hd (xs @ [n])"
  by (cases xs) auto

text \<open>The links of a node in the middle.\<close>

lemma dseg_links:
  assumes "dseg prv nxt p h (xs @ i # ys) n"
  shows "prv i = last (p # xs)" and "nxt i = hd (ys @ [n])"
proof -
  obtain m where m: "dseg prv nxt (last (p # xs)) m (i # ys) n"
    using assms unfolding dseg_append by blast
  then show "prv i = last (p # xs)" by simp
  from m show "nxt i = hd (ys @ [n])"
    using dseg_head by auto
qed

lemma dseg_end:
  assumes "dseg prv nxt p h xs n" and "distinct xs"
  shows "dseg prv (if xs = [] then nxt else nxt(last xs := n')) p (if xs = [] then n' else h) xs n'"
  using assms
proof (induction xs arbitrary: p h)
  case (Cons i xs)
  show ?case
  proof (cases "xs = []")
    case True
    with Cons show ?thesis by simp
  next
    case False
    then have "dseg prv (nxt(last xs := n')) i (nxt i) xs n'"
      using Cons.IH [of i "nxt i"] Cons.prems by (simp add: fun_upd_def)
    moreover have "(nxt(last xs := n')) i = nxt i"
      using Cons.prems False by auto
    ultimately show ?thesis
      using Cons.prems False by (simp add: fun_upd_def)
  qed
qed simp

lemma dseg_start:
  assumes "dseg prv nxt p h xs n" and "distinct xs"
  shows "dseg (if xs = [] then prv else prv(hd xs := p')) nxt p' h xs n"
proof (cases xs)
  case (Cons i ys)
  have "dseg (prv(i := p')) nxt i (nxt i) ys n \<longleftrightarrow> dseg prv nxt i (nxt i) ys n"
    by (rule dseg_cong) (use assms(2) Cons in auto)
  with assms Cons show ?thesis by simp
qed (use assms in simp)

text \<open>Unlinking the node \<open>i\<close>: its neighbours, where they exist, are made to point at each other.\<close>

lemma dseg_remove:
  assumes seg: "dseg prv nxt p h (xs @ i # ys) n" and dist: "distinct (xs @ i # ys)"
  shows "dseg (if ys = [] then prv else prv(hd ys := last (p # xs)))
              (if xs = [] then nxt else nxt(last xs := hd (ys @ [n])))
              p (if xs = [] then hd (ys @ [n]) else h) (xs @ ys) n"
proof -
  let ?prv = "if ys = [] then prv else prv(hd ys := last (p # xs))"
  let ?nxt = "if xs = [] then nxt else nxt(last xs := hd (ys @ [n]))"
  have a: "dseg prv nxt p h xs i" and b: "dseg prv nxt i (nxt i) ys n"
    using seg by (auto simp: dseg_append)
  have "dseg prv ?nxt p (if xs = [] then hd (ys @ [n]) else h) xs (hd (ys @ [n]))"
    using dseg_end [OF a] dist by simp
  then have "dseg ?prv ?nxt p (if xs = [] then hd (ys @ [n]) else h) xs (hd (ys @ [n]))"
    by (subst dseg_cong) (use dist hd_in_set [of ys] in auto)
  moreover have "dseg ?prv nxt (last (p # xs)) (hd (ys @ [n])) ys n"
    using dseg_start [OF b, of "last (p # xs)"] dist dseg_head [OF b] by simp
  then have "dseg ?prv ?nxt (last (p # xs)) (hd (ys @ [n])) ys n"
    by (subst dseg_cong) (use dist last_in_set [of xs] in \<open>auto simp del: last_in_set\<close>)
  ultimately show ?thesis
    unfolding dseg_append by blast
qed

text \<open>Inserting \<open>j\<close> after the node \<open>i\<close>.\<close>

lemma dseg_insert_after:
  assumes seg: "dseg prv nxt p h (xs @ i # ys) n" and dist: "distinct (xs @ i # j # ys)"
  shows "dseg (if ys = [] then prv(j := i) else prv(j := i, hd ys := j))
              (nxt(j := nxt i, i := j)) p h (xs @ i # j # ys) n"
proof -
  let ?prv = "if ys = [] then prv(j := i) else prv(j := i, hd ys := j)"
  let ?nxt = "nxt(j := nxt i, i := j)"
  have a: "dseg prv nxt p h xs i" "prv i = last (p # xs)" and b: "dseg prv nxt i (nxt i) ys n"
    using seg by (auto simp: dseg_append)
  have hd_ys: "ys \<noteq> [] \<Longrightarrow> hd ys \<in> set ys" by simp
  have "dseg ?prv ?nxt p h xs i"
    by (subst dseg_cong) (use a(1) dist hd_ys in auto)
  moreover have "dseg ?prv ?nxt j (nxt i) ys n"
    by (subst dseg_cong [where prv = "if ys = [] then prv else prv(hd ys := j)" and nxt = nxt])
      (use dseg_start [OF b, of j] dist in auto)
  moreover have "?prv i = last (p # xs)" and "?prv j = i"
    using a(2) dist hd_ys by auto
  ultimately show ?thesis
    unfolding dseg_append using dist by auto
qed

end
