(* ===== verification/TLSF_Store.thy ===== *)
theory TLSF_Store
  imports TLSF Linked_Lists
begin

text \<open>
  The segmented block storage of \<^verbatim>\<open>tlsf.c\<close>: the handle resolution of \<^verbatim>\<open>block_at\<close> is injective and
  in bounds, so reads and writes through it behave like an array indexed by handles. The locale
  \<open>block_store\<close> is that contract; the allocator proofs use only its facts.
\<close>

section \<open>The shape of the segments\<close>

definition segment_length :: "nat \<Rightarrow> nat \<Rightarrow> nat" where
  "segment_length shift k = min (2 ^ (shift + k - 1)) (UINT32_MAX - 2 ^ (shift + k - 1))"

text \<open>
  The first segment has \<open>2 ^ shift\<close> nodes and each further one doubles the capacity, clipped at the
  last usable handle; a first segment of \<open>UINT32_MAX\<close> nodes never grows.
\<close>

definition segments_ok :: "'u iree_hal_memory_tlsf_t \<Rightarrow> bool" where
  "segments_ok t \<longleftrightarrow>
     block_segment_count t = length (block_segments t) \<and> block_segments t \<noteq> [] \<and>
     length (block_segments t ! 0) = initial_block_capacity t \<and>
     initial_block_shift t \<le> 31 \<and>
     (if initial_block_capacity t = UINT32_MAX
      then initial_block_shift t = 31 \<and> length (block_segments t) = 1 \<and> block_capacity t = UINT32_MAX
      else initial_block_capacity t = 2 ^ initial_block_shift t \<and>
           initial_block_shift t + length (block_segments t) \<le> 33 \<and>
           block_capacity t = min (2 ^ (initial_block_shift t + length (block_segments t) - 1)) UINT32_MAX \<and>
           (\<forall>k. 0 < k \<and> k < length (block_segments t) \<longrightarrow>
              length (block_segments t ! k) = segment_length (initial_block_shift t) k))"

lemma segments_ok_capacity: "segments_ok t \<Longrightarrow> 0 < block_capacity t \<and> block_capacity t \<le> UINT32_MAX"
  by (auto simp: segments_ok_def UINT32_MAX_def split: if_splits)

lemma none_not_valid: "segments_ok t \<Longrightarrow> i < block_capacity t \<Longrightarrow> i \<noteq> BLOCK_INDEX_NONE"
  using segments_ok_capacity by fastforce

section \<open>Handle resolution\<close>

lemma index_shift:
  assumes "0 < i" and "i \<le> UINT32_MAX"
  shows "31 - iree_math_count_leading_zeros_u32 (of_nat i) = highest_bit i"
proof -
  have lt: "i < 2 ^ 32" using assms by (simp add: UINT32_MAX_def)
  then have un: "unat (of_nat i :: u32) = i" by (simp add: unat_of_nat)
  then have "(of_nat i :: u32) \<noteq> 0" using assms(1) by auto
  moreover have "highest_bit i \<le> 31"
    using highest_bit_less [OF assms(1) lt] by simp
  ultimately show ?thesis
    by (simp add: iree_math_count_leading_zeros_u32_def un)
qed

lemma block_locate_eq:
  assumes "0 < c" and "i \<le> UINT32_MAX"
  shows "block_locate c s i =
    (if i \<ge> c then (highest_bit i - s + 1, i - 2 ^ highest_bit i) else (0, i))"
  using assms index_shift [of i] by (simp add: block_locate_def Let_def)

lemma segments_ok_shift_le:
  assumes "segments_ok t" and "initial_block_capacity t \<le> i" and "i < block_capacity t"
  shows "initial_block_shift t \<le> highest_bit i" and "0 < i"
    and "highest_bit i < initial_block_shift t + length (block_segments t) - 1"
proof -
  have c: "initial_block_capacity t = 2 ^ initial_block_shift t"
    using assms by (auto simp: segments_ok_def split: if_splits)
  then show pos: "0 < i"
    using assms(2) by (metis gr0I le_zero_eq power_not_zero zero_neq_numeral)
  have "(2::nat) ^ initial_block_shift t < 2 ^ Suc (highest_bit i)"
    using highest_bit_bounds [OF pos] assms(2) c by linarith
  then have "initial_block_shift t < Suc (highest_bit i)"
    by (rule power_less_imp_less_exp [rotated]) simp
  then show "initial_block_shift t \<le> highest_bit i" by simp
  have "i < 2 ^ (initial_block_shift t + length (block_segments t) - 1)"
    using assms by (auto simp: segments_ok_def split: if_splits)
  then show "highest_bit i < initial_block_shift t + length (block_segments t) - 1"
    using highest_bit_less [OF pos] by blast
qed

lemma locate_in_bounds:
  assumes ok: "segments_ok t" and valid: "i < block_capacity t"
    and loc: "block_locate (initial_block_capacity t) (initial_block_shift t) i = (s, k)"
  shows "s < length (block_segments t) \<and> k < length (block_segments t ! s)"
proof -
  have cap: "i \<le> UINT32_MAX" "0 < initial_block_capacity t"
    using segments_ok_capacity [OF ok] valid ok
    by (auto simp: segments_ok_def UINT32_MAX_def split: if_splits)
  note eq = loc [unfolded block_locate_eq [OF cap(2,1)]]
  show ?thesis
  proof (cases "i < initial_block_capacity t")
    case True
    with eq ok show ?thesis by (auto simp: segments_ok_def)
  next
    case False
    note sh = segments_ok_shift_le [OF ok _ valid]
    let ?h = "highest_bit i"
    have s: "s = ?h - initial_block_shift t + 1" and k: "k = i - 2 ^ ?h"
      using eq False by auto
    have less: "s < length (block_segments t)"
      using sh False s by auto
    have notmax: "initial_block_capacity t \<noteq> UINT32_MAX"
      using False valid segments_ok_capacity [OF ok] by auto
    have len: "length (block_segments t ! s) = min (2 ^ ?h) (UINT32_MAX - 2 ^ ?h)"
      using ok notmax less s sh(1) False by (auto simp: segments_ok_def segment_length_def)
    have "2 ^ ?h \<le> i \<and> i < 2 * 2 ^ ?h"
      using highest_bit_bounds [OF sh(2)] False by simp
    moreover have "i < UINT32_MAX"
      using valid segments_ok_capacity [OF ok] by linarith
    ultimately have "i - 2 ^ ?h < 2 ^ ?h" and "i - 2 ^ ?h < UINT32_MAX - 2 ^ ?h"
      by linarith+
    then show ?thesis
      using less len k by simp
  qed
qed

lemma locate_inj:
  assumes ok: "segments_ok t" and "i < block_capacity t" and "j < block_capacity t"
    and eq: "block_locate (initial_block_capacity t) (initial_block_shift t) i =
       block_locate (initial_block_capacity t) (initial_block_shift t) j"
  shows "i = j"
proof -
  have c: "0 < initial_block_capacity t"
    using ok by (auto simp: segments_ok_def UINT32_MAX_def split: if_splits)
  have le: "i \<le> UINT32_MAX" "j \<le> UINT32_MAX"
    using assms segments_ok_capacity [OF ok] by auto
  note eq' = eq [unfolded block_locate_eq [OF c le(1)] block_locate_eq [OF c le(2)]]
  show ?thesis
  proof (cases "initial_block_capacity t \<le> i \<and> initial_block_capacity t \<le> j")
    case True
    note si = segments_ok_shift_le [OF ok conjunct1 [OF True] assms(2)]
      and sj = segments_ok_shift_le [OF ok conjunct2 [OF True] assms(3)]
    have "highest_bit i = highest_bit j"
      using eq' True si(1) sj(1) by auto
    moreover have "2 ^ highest_bit i \<le> i" and "2 ^ highest_bit j \<le> j"
      using highest_bit_bounds si(2) sj(2) by auto
    ultimately show ?thesis
      using eq' True by simp
  qed (use eq' in \<open>auto split: if_splits\<close>)
qed

section \<open>The store interface\<close>

text \<open>The contents of a store as one total function: a write is then a function update.\<close>

definition store_contents :: "('s \<Rightarrow> nat \<Rightarrow> bool) \<Rightarrow> ('s \<Rightarrow> nat \<Rightarrow> 'b) \<Rightarrow> 'b \<Rightarrow> 's \<Rightarrow> nat \<Rightarrow> 'b" where
  "store_contents valid get d s i = (if valid s i then get s i else d)"

locale block_store =
  fixes ok :: "'s \<Rightarrow> bool"
    and valid :: "'s \<Rightarrow> nat \<Rightarrow> bool"
    and get :: "'s \<Rightarrow> nat \<Rightarrow> 'b"
    and put :: "nat \<Rightarrow> ('b \<Rightarrow> 'b) \<Rightarrow> 's \<Rightarrow> 's"
  assumes ok_put: "ok s \<Longrightarrow> valid s i \<Longrightarrow> ok (put i f s)"
    and valid_put: "valid (put i f s) j \<longleftrightarrow> valid s j"
    and get_put_same: "ok s \<Longrightarrow> valid s i \<Longrightarrow> get (put i f s) i = f (get s i)"
    and get_put_other: "ok s \<Longrightarrow> valid s i \<Longrightarrow> valid s j \<Longrightarrow> i \<noteq> j \<Longrightarrow> get (put i f s) j = get s j"
begin

lemma contents_put:
  "ok s \<Longrightarrow> valid s i \<Longrightarrow>
   store_contents valid get d (put i f s) =
     (store_contents valid get d s)(i := f (store_contents valid get d s i))"
  by (rule ext) (auto simp: store_contents_def valid_put get_put_same get_put_other)

lemma contents_get: "valid s i \<Longrightarrow> get s i = store_contents valid get d s i"
  by (simp add: store_contents_def)

end

definition valid_index :: "'u iree_hal_memory_tlsf_t \<Rightarrow> nat \<Rightarrow> bool" where
  "valid_index t i \<longleftrightarrow> i < block_capacity t"

lemma block_write_fields [simp]:
  "range_length (block_write i f t) = range_length t"
  "alignment (block_write i f t) = alignment t"
  "fl_min (block_write i f t) = fl_min t"
  "frontier_capacity (block_write i f t) = frontier_capacity t"
  "frontier_overflow (block_write i f t) = frontier_overflow t"
  "frontier_overflow_user_data (block_write i f t) = frontier_overflow_user_data t"
  "block_segment_count (block_write i f t) = block_segment_count t"
  "initial_block_shift (block_write i f t) = initial_block_shift t"
  "fl_bitmap (block_write i f t) = fl_bitmap t"
  "sl_bitmaps (block_write i f t) = sl_bitmaps t"
  "free_lists (block_write i f t) = free_lists t"
  "block_stride (block_write i f t) = block_stride t"
  "initial_block_capacity (block_write i f t) = initial_block_capacity t"
  "block_capacity (block_write i f t) = block_capacity t"
  "unused_node_head (block_write i f t) = unused_node_head t"
  "bytes_allocated (block_write i f t) = bytes_allocated t"
  "bytes_free (block_write i f t) = bytes_free t"
  "allocation_count (block_write i f t) = allocation_count t"
  "free_block_count (block_write i f t) = free_block_count t"
  "tainted_coalesce_count (block_write i f t) = tainted_coalesce_count t"
  "host_allocator (block_write i f t) = host_allocator t"
  by (simp_all add: block_write_def split: prod.split)

lemma segments_ok_write: "segments_ok (block_write i f t) \<longleftrightarrow> segments_ok t"
proof -
  have "map length (block_segments (block_write i f t)) = map length (block_segments t)"
    by (simp add: block_write_def map_update split: prod.split)
      (metis length_list_update list_update_beyond list_update_id map_update not_le_imp_less nth_map length_map)
  then have "length (block_segments (block_write i f t)) = length (block_segments t)"
    and "\<And>k. k < length (block_segments t) \<Longrightarrow>
       length (block_segments (block_write i f t) ! k) = length (block_segments t ! k)"
    using map_eq_imp_length_eq by (auto simp: list_eq_iff_nth_eq)
  moreover have "block_segments (block_write i f t) = [] \<longleftrightarrow> block_segments t = []"
    using calculation(1) by (metis length_0_conv)
  ultimately show ?thesis
    unfolding segments_ok_def by (cases "block_segments t = []") auto
qed

lemma block_at_write:
  assumes "segments_ok t" and "i < block_capacity t" and "j < block_capacity t"
  shows "block_at (block_write i f t) j = (if i = j then f (block_at t i) else block_at t j)"
proof -
  let ?loc = "block_locate (initial_block_capacity t) (initial_block_shift t)"
  obtain s k s' k' where loc: "?loc i = (s, k)" "?loc j = (s', k')" by fastforce
  note bi = locate_in_bounds [OF assms(1,2) loc(1)] and bj = locate_in_bounds [OF assms(1,3) loc(2)]
  show ?thesis
  proof (cases "i = j")
    case True
    with loc bi show ?thesis
      by (auto simp: iree_hal_memory_tlsf_block_at_def block_write_def)
  next
    case False
    then have "(s, k) \<noteq> (s', k')"
      using locate_inj [OF assms(1-3)] loc by auto
    with False loc bi bj show ?thesis
      by (auto simp: iree_hal_memory_tlsf_block_at_def block_write_def nth_list_update)
  qed
qed

interpretation store: block_store segments_ok valid_index iree_hal_memory_tlsf_block_at block_write
  by unfold_locales (auto simp: segments_ok_write valid_index_def block_at_write)

end
