(* ===== verification/Machine_Laws.thy ===== *)
theory Machine_Laws
  imports Machine_Math
begin

text \<open>
  Laws of the bit-level helpers: masks, trailing-zero and leading-zero counts read as statements
  about set bits; the power-of-two test; alignment as rounding up on naturals; checked arithmetic as
  exact arithmetic with an overflow test.
\<close>

section \<open>Bit scans on words\<close>

lemma lowest_bit_bit:
  assumes "0 < n"
  shows "bit n (lowest_bit n)" and "k < lowest_bit n \<Longrightarrow> \<not> bit n k"
proof -
  show "bit n (lowest_bit n)"
    using lowest_bit_dvd [OF assms] by (simp add: bit_iff_odd)
  assume k: "k < lowest_bit n"
  then have "2 ^ Suc k dvd n"
    using lowest_bit_dvd [OF assms] by (meson Suc_leI dvd_trans le_imp_power_dvd)
  then show "\<not> bit n k"
    by (auto simp: bit_iff_odd elim!: dvdE)
qed

lemma unat_pos: "0 < unat w \<longleftrightarrow> (w :: 'a::len word) \<noteq> 0"
  by (metis neq0_conv unsigned_eq_0_iff)

lemma ctz_u32_bit:
  assumes "w \<noteq> 0"
  shows "bit w (iree_math_count_trailing_zeros_u32 w)"
    and "k < iree_math_count_trailing_zeros_u32 w \<Longrightarrow> \<not> bit w k"
  using lowest_bit_bit [of "unat w"] assms
  by (auto simp: iree_math_count_trailing_zeros_u32_def unat_pos bit_unsigned_iff
      dest: bit_imp_le_length)

lemma ctz_u64_bit:
  assumes "w \<noteq> 0"
  shows "bit w (iree_math_count_trailing_zeros_u64 w)"
    and "k < iree_math_count_trailing_zeros_u64 w \<Longrightarrow> \<not> bit w k"
  using lowest_bit_bit [of "unat w"] assms
  by (auto simp: iree_math_count_trailing_zeros_u64_def unat_pos bit_unsigned_iff
      dest: bit_imp_le_length)

lemma highest_bit_bit:
  assumes "0 < n"
  shows "bit n (highest_bit n)" and "highest_bit n < k \<Longrightarrow> \<not> bit n k"
proof -
  note b = highest_bit_bounds [OF assms]
  have "n div 2 ^ highest_bit n = 1"
    using b by (intro div_nat_eqI) auto
  then show "bit n (highest_bit n)" by (simp add: bit_iff_odd)
  assume k: "highest_bit n < k"
  then have "(2::nat) ^ Suc (highest_bit n) \<le> 2 ^ k" by (intro power_increasing) auto
  then have "n div 2 ^ k = 0" using b by simp
  then show "\<not> bit n k" by (simp add: bit_iff_odd)
qed

lemma clz_u64: "w \<noteq> 0 \<Longrightarrow> 63 - iree_math_count_leading_zeros_u64 w = highest_bit (unat w)"
  using highest_bit_less [of "unat w" 64] unat_u64_lt [of w]
  by (simp add: iree_math_count_leading_zeros_u64_def unat_pos)

lemma clz_u32: "w \<noteq> 0 \<Longrightarrow> 31 - iree_math_count_leading_zeros_u32 w = highest_bit (unat w)"
  using highest_bit_less [of "unat w" 32] unat_u32_lt [of w]
  by (simp add: iree_math_count_leading_zeros_u32_def unat_pos)

lemma bit_unat: "bit (unat (w :: 'a::len word)) n = bit w n"
  by (auto simp: bit_unsigned_iff dest: bit_imp_le_length)

lemma clz_u64_bit:
  assumes "w \<noteq> 0"
  shows "bit w (63 - iree_math_count_leading_zeros_u64 w)"
    and "bit w k \<Longrightarrow> k \<le> 63 - iree_math_count_leading_zeros_u64 w"
  using highest_bit_bit [of "unat w"] assms unfolding clz_u64 [OF assms] bit_unat
  by (auto simp: unat_pos not_less [symmetric])

lemma clz_u32_bit:
  assumes "w \<noteq> 0"
  shows "bit w (31 - iree_math_count_leading_zeros_u32 w)"
    and "bit w k \<Longrightarrow> k \<le> 31 - iree_math_count_leading_zeros_u32 w"
  using highest_bit_bit [of "unat w"] assms unfolding clz_u32 [OF assms] bit_unat
  by (auto simp: unat_pos not_less [symmetric])

lemma highest_bit_u64_less: "w \<noteq> 0 \<Longrightarrow> highest_bit (unat (w :: u64)) < 64"
  using highest_bit_less [of "unat w" 64] unat_u64_lt [of w] by (simp add: unat_pos)

lemma mask_from_bit: "bit (push_bit n (NOT 0) :: u32) k \<longleftrightarrow> n \<le> k \<and> k < 32"
  by (auto simp: bit_simps)

lemma mask_above_u64:
  assumes "fl < 64"
  shows "bit (NOT (iree_shr_u64 (NOT 0) (63 - fl))) k \<longleftrightarrow> fl < k \<and> k < 64"
  using assms by (auto simp: iree_shr_u64_def bit_simps)

lemma mask_above_u32:
  assumes "sl < 32"
  shows "bit (NOT (iree_shr_u32 (NOT 0) (31 - sl))) k \<longleftrightarrow> sl < k \<and> k < 32"
  using assms by (auto simp: iree_shr_u32_def bit_simps)

section \<open>Powers of two\<close>

lemma u64_bit_odd: "bit (w :: u64) n \<longleftrightarrow> odd (unat w div 2 ^ n)"
proof -
  have "bit (unat w) n \<longleftrightarrow> bit w n" by (auto simp: bit_unsigned_iff dest: bit_imp_le_length)
  then show ?thesis by (simp add: bit_iff_odd)
qed

lemma unat_power_of_two: "k < 64 \<Longrightarrow> unat (2 ^ k :: u64) = 2 ^ k"
  using unsigned_of_nat [of "2 ^ k", where 'b = 64] by (simp add: take_bit_nat_eq_self)

lemma power_of_two_value:
  assumes "iree_device_size_is_power_of_two v"
  obtains k where "k < 64" and "v = 2 ^ k" and "unat v = 2 ^ k"
proof -
  have v: "v \<noteq> 0" "v AND (v - 1) = 0" using assms by (auto simp: iree_device_size_is_power_of_two_def)
  define h where "h = highest_bit (unat v)"
  have b: "2 ^ h \<le> unat v" "unat v < 2 ^ Suc h"
    using highest_bit_bounds [of "unat v"] v(1) by (auto simp: h_def unat_pos)
  have h64: "h < 64" using highest_bit_u64_less [OF v(1)] by (simp add: h_def)
  have "unat v = 2 ^ h"
  proof (rule ccontr)
    assume "unat v \<noteq> 2 ^ h"
    with b have r: "2 ^ h \<le> unat v - 1" "unat v - 1 < 2 ^ Suc h" by linarith+
    have "unat (v - 1) = unat v - 1" using v(1) by (simp add: unat_minus_one)
    with r b have "bit v h" "bit (v - 1) h"
      using highest_bit_bit(1) [of "unat v"] highest_bit_unique [of h "unat v"]
        highest_bit_bit(1) [of "unat v - 1"] highest_bit_unique [of h "unat v - 1"]
      by (auto simp: u64_bit_odd bit_iff_odd intro: ccontr)
    then have "bit (v AND (v - 1)) h" by (simp add: bit_and_iff)
    with v(2) show False by simp
  qed
  moreover from this have "v = 2 ^ h" using h64 unat_power_of_two [of h] by (metis unsigned_word_eqI)
  ultimately show ?thesis using that h64 by blast
qed

lemma power_of_two_exp: "k < 64 \<Longrightarrow> iree_device_size_is_power_of_two (2 ^ k)"
proof -
  assume k: "k < 64"
  have "(2 ^ k :: u64) AND (2 ^ k - 1) = 0"
    by (rule bit_word_eqI) (auto simp: bit_simps mask_eq_exp_minus_1 [symmetric])
  moreover have "(2 ^ k :: u64) \<noteq> 0" using k unat_power_of_two [OF k] by (metis power_not_zero unsigned_0 zero_neq_numeral)
  ultimately show ?thesis by (simp add: iree_device_size_is_power_of_two_def)
qed

section \<open>Alignment\<close>

lemma unat_drop_bit: "unat (drop_bit k (w :: u64)) = unat w div 2 ^ k"
  using unat_u64_lt [of w] by (simp only: unsigned_drop_bit_eq) (simp add: drop_bit_eq_div take_bit_nat_eq_self)

lemma unat_clear_low: "k < 64 \<Longrightarrow> unat ((w :: u64) AND NOT (2 ^ k - 1)) = unat w div 2 ^ k * 2 ^ k"
proof -
  assume k: "k < 64"
  have "w AND NOT (2 ^ k - 1) = push_bit k (drop_bit k w)"
    by (rule bit_word_eqI) (auto simp: bit_simps mask_eq_exp_minus_1 [symmetric])
  moreover have "unat w div 2 ^ k * 2 ^ k < 2 ^ 64"
    using unat_u64_lt [of w] le_less_trans [OF div_times_less_eq_dividend, of "unat w" "2 ^ 64" "2 ^ k"] by simp
  moreover have "unat (push_bit k (drop_bit k w)) = take_bit 64 (unat w div 2 ^ k * 2 ^ k)"
    by (simp only: unsigned_push_bit_eq unat_drop_bit) (simp add: push_bit_eq_mult)
  ultimately show ?thesis by (simp add: take_bit_nat_eq_self)
qed

text \<open>Rounding up to a multiple.\<close>

definition round_up :: "nat \<Rightarrow> nat \<Rightarrow> nat" where
  "round_up n m = (n + (m - 1)) div m * m"

lemma round_up:
  assumes "0 < m"
  shows "m dvd round_up n m" and "n \<le> round_up n m" and "round_up n m < n + m"
    and "m dvd k \<Longrightarrow> n \<le> k \<Longrightarrow> round_up n m \<le> k"
proof -
  show "m dvd round_up n m" by (simp add: round_up_def)
  have e: "(n + (m - 1)) div m * m + (n + (m - 1)) mod m = n + (m - 1)" by simp
  have l: "(n + (m - 1)) mod m \<le> m - 1" using mod_less_divisor [OF assms, of "n + (m - 1)"] by linarith
  show "n \<le> round_up n m" "round_up n m < n + m" using e l assms unfolding round_up_def by linarith+
  show "round_up n m \<le> k" if k: "m dvd k" "n \<le> k"
  proof -
    obtain q where q: "k = m * q" using k(1) by blast
    have "(n + (m - 1)) div m < Suc q" using k(2) q assms by (simp add: less_mult_imp_div_less algebra_simps)
    then have "(n + (m - 1)) div m * m \<le> q * m" by (intro mult_le_mono1) simp
    then show ?thesis using q by (simp add: round_up_def mult.commute)
  qed
qed

lemma device_align_round_up:
  assumes p: "iree_device_size_is_power_of_two a" and fits: "v \<le> NOT 0 - (a - 1)"
  shows "unat (iree_device_align v a) = round_up (unat v) (unat a)"
proof -
  obtain k where k: "k < 64" "a = 2 ^ k" "unat a = 2 ^ k" using power_of_two_value [OF p] .
  have "unat (a - 1) = unat a - 1" using p by (simp add: unat_minus_one iree_device_size_is_power_of_two_def)
  moreover have "unat v \<le> 2 ^ 64 - 1 - unat (a - 1)"
    using fits unat_sub_no_wrap [of "a - 1" "- 1"] unat_u64_lt [of "a - 1"] by (simp add: word_le_nat_alt unat_u64_max)
  ultimately have s: "unat (v + (a - 1)) = unat v + (unat a - 1)"
    using k unat_u64_lt [of "a - 1"] by (subst unat_add_no_wrap) auto
  show ?thesis
    unfolding iree_device_align_def round_up_def using unat_clear_low [OF k(1), of "v + (a - 1)"] s k by simp
qed

section \<open>Checked arithmetic\<close>

lemma checked_add_iff:
  "iree_checked_add_u64 a b = (if unat a + unat b < 2 ^ 64 then Some (a + b) else None)"
proof -
  have "a > NOT 0 - b \<longleftrightarrow> 2 ^ 64 \<le> unat a + unat b"
    using unat_sub_no_wrap [of b "- 1"] unat_u64_lt [of b] by (auto simp: word_less_nat_alt unat_u64_max)
  then show ?thesis by (auto simp: iree_checked_add_u64_def)
qed

lemma checked_mul_iff:
  "iree_checked_mul_u64 a b = (if unat a * unat b < 2 ^ 64 then Some (a * b) else None)"
proof (cases "b = 0")
  case False
  then have pos: "0 < unat b" by (simp add: unat_pos)
  have "a > NOT 0 div b \<longleftrightarrow> (2 ^ 64 - 1) div unat b < unat a"
    by (simp add: word_less_nat_alt unat_div unat_u64_max)
  also have "\<dots> \<longleftrightarrow> 2 ^ 64 - 1 < unat a * unat b"
    using div_less_iff_less_mult [OF pos] by blast
  finally show ?thesis using False by (auto simp: iree_checked_mul_u64_def)
qed (simp add: iree_checked_mul_u64_def)

end
