(* ===== verification/TLSF_Classes.thy ===== *)
theory TLSF_Classes
  imports TLSF Machine_Laws
begin

text \<open>
  The size classes of the TLSF allocator: what the two mappings compute in terms of the block size,
  the lower bound of each class, and the guarantee of the rounded-up search class.
\<close>

section \<open>Classes\<close>

lemma unat_second_level: "unat (drop_bit k (w :: u64) AND 31) = unat w div 2 ^ k mod 32"
proof -
  have m31: "(31 :: u64) = mask 5" by (simp add: mask_eq_exp_minus_1)
  have "unat (drop_bit k w AND 31) = take_bit 5 (unat (drop_bit k w))"
    unfolding m31 take_bit_eq_mask [symmetric] unsigned_take_bit_eq ..
  also have "unat (drop_bit k w) = unat w div 2 ^ k" by (rule unat_drop_bit)
  finally show ?thesis by (simp add: take_bit_eq_mod)
qed

text \<open>The smallest size in the class \<open>(fl, sl)\<close>.\<close>

definition class_min :: "nat \<Rightarrow> nat \<Rightarrow> nat" where
  "class_min fl sl = (if 5 \<le> fl then (32 + sl) * 2 ^ (fl - 5) else sl)"

text \<open>The class of a size, on naturals.\<close>

definition size_class :: "nat \<Rightarrow> nat \<times> nat" where
  "size_class n = (let fl = highest_bit n in (fl, n div 2 ^ (fl - 5) mod 32))"

lemma mapping_insert_eq:
  assumes "len \<noteq> 0"
  shows "iree_hal_memory_tlsf_mapping_insert len = size_class (unat len)"
proof -
  show ?thesis
    by (simp add: unat_second_level iree_hal_memory_tlsf_mapping_insert_def size_class_def Let_def clz_u64 [OF assms]
        IREE_HAL_MEMORY_TLSF_SL_LOG2_def IREE_HAL_MEMORY_TLSF_SL_COUNT_def)
qed

lemma mod_32_high: "32 \<le> x \<Longrightarrow> x < 64 \<Longrightarrow> x mod 32 = x - (32::nat)"
  by (simp add: le_mod_geq)

lemma unat_two_power_u64: "k < 64 \<Longrightarrow> unat (2 ^ k :: u64) = 2 ^ k"
proof -
  assume "k < 64"
  then have "(2::nat) ^ k < 2 ^ 64" by (intro power_strict_increasing) auto
  moreover have "(2 ^ k :: u64) = of_nat (2 ^ k)" by simp
  ultimately show ?thesis by (simp only: unat_of_nat) simp
qed

lemma high_part:
  assumes "0 < n" and "5 \<le> highest_bit n"
  shows "32 \<le> n div 2 ^ (highest_bit n - 5)" and "n div 2 ^ (highest_bit n - 5) < 64"
proof -
  let ?h = "highest_bit n"
  have p: "(2::nat) ^ ?h = 32 * 2 ^ (?h - 5)"
    using assms(2) power_add [of "2::nat" 5 "?h - 5"] by simp
  note b = highest_bit_bounds [OF assms(1)]
  show "32 \<le> n div 2 ^ (?h - 5)"
    using b p by (simp add: less_eq_div_iff_mult_less_eq)
  show "n div 2 ^ (?h - 5) < 64"
    using b p by (simp add: div_less_iff_less_mult)
qed

lemma size_class_bounds:
  assumes "0 < n" and "size_class n = (fl, sl)"
  shows "fl = highest_bit n" and "sl < 32" and "class_min fl sl \<le> n"
    and "5 \<le> fl \<Longrightarrow> n < class_min fl sl + 2 ^ (fl - 5)"
    and "fl < 5 \<Longrightarrow> sl < 2 ^ Suc fl" and "fl < 5 \<Longrightarrow> n = sl"
proof -
  show fl: "fl = highest_bit n" and "sl < 32"
    using assms(2) by (auto simp: size_class_def Let_def)
  have sl: "sl = n div 2 ^ (fl - 5) mod 32"
    using assms(2) by (auto simp: size_class_def Let_def)
  note b = highest_bit_bounds [OF assms(1), folded fl]
  have low: "n = sl \<and> n < 2 ^ Suc fl" if "fl < 5"
  proof -
    have "(2::nat) ^ Suc fl \<le> 2 ^ 5" using that by (intro power_increasing) auto
    then have "n < 32" using b by simp
    with b that sl show ?thesis by simp
  qed
  have high: "class_min fl sl = n div 2 ^ (fl - 5) * 2 ^ (fl - 5)" if "5 \<le> fl"
  proof -
    have "n div 2 ^ (fl - 5) = 32 + sl"
      using high_part [OF assms(1)] that sl mod_32_high unfolding fl by simp
    with that show ?thesis by (simp add: class_min_def)
  qed
  show "class_min fl sl \<le> n"
    using high low by (cases "5 \<le> fl") (auto simp: class_min_def)
  show "5 \<le> fl \<Longrightarrow> n < class_min fl sl + 2 ^ (fl - 5)"
    using high by (simp add: dividend_less_div_times add.commute)
  show "fl < 5 \<Longrightarrow> sl < 2 ^ Suc fl" and "fl < 5 \<Longrightarrow> n = sl"
    using low by auto
qed

text \<open>The order in which the bins are visited: by first level, then by second level.\<close>

definition class_le :: "nat \<times> nat \<Rightarrow> nat \<times> nat \<Rightarrow> bool" where
  "class_le c d \<longleftrightarrow> fst c < fst d \<or> fst c = fst d \<and> snd c \<le> snd d"

definition proper_class :: "nat \<Rightarrow> nat \<Rightarrow> bool" where
  "proper_class fl sl \<longleftrightarrow> sl < 32 \<and> (fl < 5 \<longrightarrow> sl < 2 ^ Suc fl)"

lemma proper_size_class: "0 < n \<Longrightarrow> size_class n = (fl, sl) \<Longrightarrow> proper_class fl sl"
  using size_class_bounds [of n fl sl] by (auto simp: proper_class_def)

lemma class_min_upper:
  assumes "proper_class fl sl"
  shows "class_min fl sl < 2 ^ Suc fl"
proof (cases "5 \<le> fl")
  case True
  then have p: "(2::nat) ^ Suc fl = 64 * 2 ^ (fl - 5)"
    using power_add [of "2::nat" 6 "fl - 5"] by simp
  have "(32 + sl) * 2 ^ (fl - 5) < 64 * (2::nat) ^ (fl - 5)"
    using assms by (simp add: proper_class_def)
  with True p show ?thesis unfolding class_min_def by simp
qed (use assms in \<open>simp add: class_min_def proper_class_def\<close>)

lemma class_min_le:
  assumes "0 < n" and "size_class n = c'" and "proper_class fl sl" and "class_le (fl, sl) c'"
  shows "class_min fl sl \<le> n"
proof -
  obtain fl' sl' where c': "c' = (fl', sl')" by fastforce
  note b = size_class_bounds [OF assms(1) assms(2) [unfolded c']]
  show ?thesis
  proof (cases "fl < fl'")
    case True
    have "class_min fl sl < 2 ^ Suc fl" by (rule class_min_upper [OF assms(3)])
    also have "(2::nat) ^ Suc fl \<le> 2 ^ fl'" using True by (intro power_increasing) auto
    also have "2 ^ fl' \<le> n" using highest_bit_bounds [OF assms(1)] b(1) by simp
    finally show ?thesis by simp
  next
    case False
    with assms(4) c' have "fl = fl'" "sl \<le> sl'" by (auto simp: class_le_def)
    then have "class_min fl sl \<le> class_min fl' sl'" by (simp add: class_min_def)
    with b(3) show ?thesis by simp
  qed
qed

section \<open>The search class\<close>

lemma search_round:
  assumes "0 < n" and "5 < highest_bit n"
  defines "k \<equiv> highest_bit n - 5"
  defines "r \<equiv> n + 2 ^ k - 1"
  shows "highest_bit r \<noteq> highest_bit n \<Longrightarrow> highest_bit r = Suc (highest_bit n) \<and> n \<le> 2 ^ Suc (highest_bit n)"
    and "highest_bit r = highest_bit n \<Longrightarrow> n \<le> r div 2 ^ k * 2 ^ k"
proof -
  let ?h = "highest_bit n"
  note b = highest_bit_bounds [OF assms(1)]
  have k: "(2::nat) ^ k \<le> 2 ^ ?h" by (simp add: k_def)
  have r: "2 ^ ?h \<le> r" "r < 2 ^ Suc (Suc ?h)"
    using b k one_le_power [of "2::nat" k] unfolding r_def power_Suc by linarith+
  show "highest_bit r \<noteq> ?h \<Longrightarrow> highest_bit r = Suc ?h \<and> n \<le> 2 ^ Suc ?h"
    using highest_bit_unique [of ?h r] highest_bit_unique [of "Suc ?h" r] r b by fastforce
  have "n \<le> (n + 2 ^ k - 1) div 2 ^ k * 2 ^ k"
  proof -
    have "n + 2 ^ k - 1 < (n + 2 ^ k - 1) div 2 ^ k * 2 ^ k + 2 ^ k"
      using dividend_less_div_times [of "2 ^ k" "n + 2 ^ k - 1"] by (simp add: add.commute)
    then show ?thesis using assms(1) by linarith
  qed
  then show "n \<le> r div 2 ^ k * 2 ^ k" by (simp add: r_def)
qed

lemma mapping_search_eq:
  assumes "len \<noteq> 0"
  defines "n \<equiv> unat len"
  defines "r \<equiv> n + 2 ^ (highest_bit n - 5) - 1"
  shows "iree_hal_memory_tlsf_mapping_search len =
    (if highest_bit n \<le> 5 then Some (size_class n)
     else if r \<ge> 2 ^ 64 then None
     else if highest_bit r \<noteq> highest_bit n then Some (highest_bit r, 0)
     else Some (highest_bit n, r div 2 ^ (highest_bit n - 5) mod 32))"
proof -
  let ?h = "highest_bit n" and ?k = "highest_bit n - 5"
  define rounding :: u64 where "rounding = push_bit ?k 1 - 1"
  have npos: "0 < n" using assms(1) by (simp add: n_def unat_pos)
  have h64: "?h < 64" using highest_bit_u64_less [OF assms(1)] by (simp add: n_def)
  have up: "unat (push_bit ?k 1 :: u64) = 2 ^ ?k"
    using h64 by (simp add: push_bit_eq_mult unat_two_power_u64)
  have ur: "unat rounding = 2 ^ ?k - 1"
    unfolding rounding_def by (subst unat_sub) (use h64 in \<open>simp_all add: word_le_nat_alt unat_two_power_u64\<close>)
  have guard: "len > NOT 0 - rounding \<longleftrightarrow> r \<ge> 2 ^ 64"
  proof -
    have "unat (NOT 0 - rounding) = 2 ^ 64 - 1 - (2 ^ ?k - 1)"
      by (subst unat_sub) (simp_all add: ur unat_u64_max)
    moreover have "(2::nat) ^ ?k < 2 ^ 64" using h64 by (intro power_strict_increasing) auto
    ultimately show ?thesis
      using npos unfolding word_less_nat_alt r_def n_def by auto
  qed
  show ?thesis
  proof (cases "?h \<le> 5")
    case True
    then have "unat (len AND 31) = n div 2 ^ (?h - 5) mod 32"
      using unat_second_level [of 0 len] by (simp add: n_def)
    with True show ?thesis
      by (simp add: iree_hal_memory_tlsf_mapping_search_def Let_def clz_u64 [OF assms(1)] size_class_def
          IREE_HAL_MEMORY_TLSF_SL_LOG2_def IREE_HAL_MEMORY_TLSF_SL_COUNT_def n_def [symmetric])
  next
    case False
    have rr: "unat (len + rounding) = r" if "r < 2 ^ 64"
      using that ur npos by (subst unat_add_no_wrap) (simp_all add: r_def n_def)
    have "0 < r"
      unfolding r_def using npos one_le_power [of "2::nat" ?k] by linarith
    then have "len + rounding \<noteq> 0" if "r < 2 ^ 64"
      using rr [OF that] by auto
    then have "63 - iree_math_count_leading_zeros_u64 (len + rounding) = highest_bit r" if "r < 2 ^ 64"
      using that rr clz_u64 by simp
    moreover have "iree_hal_memory_tlsf_mapping_search len =
      (if len > NOT 0 - rounding then None
       else let new_fl = 63 - iree_math_count_leading_zeros_u64 (len + rounding)
            in if new_fl \<noteq> ?h then Some (new_fl, 0)
               else Some (?h, unat (drop_bit ?k (len + rounding) AND 31)))"
      using False by (simp add: iree_hal_memory_tlsf_mapping_search_def Let_def clz_u64 [OF assms(1)]
          IREE_HAL_MEMORY_TLSF_SL_LOG2_def IREE_HAL_MEMORY_TLSF_SL_COUNT_def n_def rounding_def)
    ultimately show ?thesis
      using False guard rr by (simp add: Let_def unat_second_level)
  qed
qed

text \<open>
  Every block of the search class, or of a later one, is large enough; and the class starts less
  than one second-level width above the request.
\<close>

lemma mapping_search_bounds:
  assumes "len \<noteq> 0" and "iree_hal_memory_tlsf_mapping_search len = Some (fl, sl)"
  shows "fl < 64" and "proper_class fl sl" and "unat len \<le> class_min fl sl"
    and "class_min fl sl < unat len + 2 ^ (highest_bit (unat len) - 5)"
    and "2 ^ fl \<le> class_min fl sl"
proof -
  let ?n = "unat len"
  let ?h = "highest_bit ?n" and ?r = "?n + 2 ^ (highest_bit ?n - 5) - 1"
  have npos: "0 < ?n" using assms(1) by (simp add: unat_pos)
  note eq = assms(2) [unfolded mapping_search_eq [OF assms(1)]]
  have h64: "?h < 64" using highest_bit_u64_less [OF assms(1)] .
  consider (low) "?h \<le> 5" "size_class ?n = (fl, sl)"
    | (over) "5 < ?h" "?r < 2 ^ 64" "highest_bit ?r \<noteq> ?h" "fl = highest_bit ?r" "sl = 0"
    | (same) "5 < ?h" "?r < 2 ^ 64" "highest_bit ?r = ?h" "fl = ?h" "sl = ?r div 2 ^ (?h - 5) mod 32"
    using eq by (auto split: if_splits)
  then have "fl < 64 \<and> proper_class fl sl \<and> ?n \<le> class_min fl sl \<and>
      class_min fl sl < ?n + 2 ^ (?h - 5) \<and> 2 ^ fl \<le> class_min fl sl"
  proof cases
    case low
    note b = size_class_bounds [OF npos low(2)]
    have "?n = class_min fl sl"
      using b low(1) by (cases "fl = 5") (auto simp: class_min_def)
    with b h64 proper_size_class [OF npos low(2)] highest_bit_bounds [OF npos] show ?thesis by simp
  next
    case over
    note s = search_round(1) [OF npos over(1,3)]
    have cm: "class_min fl sl = 2 ^ Suc ?h"
      using over s power_add [of "2::nat" 5 "fl - 5"] by (simp add: class_min_def)
    have rpos: "0 < ?r" using npos one_le_power [of "2::nat" "?h - 5"] by linarith
    have "2 ^ Suc ?h \<le> ?r"
      using highest_bit_bounds [OF rpos] s by simp
    moreover have "fl < 64" using highest_bit_less [OF rpos over(2)] over(4) by simp
    ultimately show ?thesis
      using cm s over npos by (auto simp: proper_class_def)
  next
    case same
    have rpos: "0 < ?r" using npos one_le_power [of "2::nat" "?h - 5"] by linarith
    have "size_class ?r = (fl, sl)"
      using same by (simp add: size_class_def Let_def)
    note b = size_class_bounds [OF rpos this]
    have "class_min fl sl = ?r div 2 ^ (?h - 5) * 2 ^ (?h - 5)"
    proof -
      have "32 \<le> ?r div 2 ^ (?h - 5)" "?r div 2 ^ (?h - 5) < 64"
        using high_part [OF rpos] same by auto
      then have "?r div 2 ^ (?h - 5) = 32 + sl"
        using same(5) mod_32_high by simp
      with same show ?thesis by (simp add: class_min_def)
    qed
    moreover have "?n \<le> ?r div 2 ^ (?h - 5) * 2 ^ (?h - 5)"
      by (rule search_round(2) [OF npos same(1,3)])
    moreover have "class_min fl sl < ?n + 2 ^ (?h - 5)"
      using b(3) rpos by linarith
    moreover have "proper_class fl sl"
      by (rule proper_size_class [OF rpos \<open>size_class ?r = (fl, sl)\<close>])
    moreover have "2 ^ fl \<le> class_min fl sl"
      using same power_add [of "2::nat" 5 "fl - 5"] by (simp add: class_min_def)
    ultimately show ?thesis
      using same(4) h64 by simp
  qed
  then show "fl < 64" "proper_class fl sl" "?n \<le> class_min fl sl"
    "class_min fl sl < ?n + 2 ^ (?h - 5)" "2 ^ fl \<le> class_min fl sl" by auto
qed

text \<open>Conversely, a block of an earlier class is below the minimum of the class.\<close>

lemma below_class_min:
  assumes "0 < n" and "\<not> class_le (fl, sl) (size_class n)" and "2 ^ fl \<le> class_min fl sl"
  shows "n < class_min fl sl"
proof -
  obtain fl' sl' where c: "size_class n = (fl', sl')" by fastforce
  note b = size_class_bounds [OF assms(1) c]
  show ?thesis
  proof (cases "fl' = fl")
    case True
    with assms(2) c have sl: "Suc sl' \<le> sl" by (auto simp: class_le_def)
    have "(32 + Suc sl') * 2 ^ (fl - 5) \<le> (32 + sl) * 2 ^ (fl - 5)"
      using sl by (intro mult_le_mono1) simp
    with True sl b(4,6) show ?thesis
      by (cases "5 \<le> fl") (auto simp: class_min_def algebra_simps)
  next
    case False
    with assms(2) c have "Suc fl' \<le> fl" by (auto simp: class_le_def)
    then have "(2::nat) ^ Suc fl' \<le> 2 ^ fl" by (intro power_increasing) auto
    with highest_bit_bounds [OF assms(1)] b(1) assms(3) show ?thesis by simp
  qed
qed

text \<open>Larger sizes have later classes.\<close>

lemma size_class_mono:
  assumes "0 < n" and "n \<le> m"
  shows "class_le (size_class n) (size_class m)"
proof -
  have pos: "0 < m" using assms by simp
  have le: "highest_bit n \<le> highest_bit m"
  proof (rule ccontr)
    assume "\<not> highest_bit n \<le> highest_bit m"
    then have "(2::nat) ^ Suc (highest_bit m) \<le> 2 ^ highest_bit n" by (intro power_increasing) auto
    then show False using highest_bit_bounds [OF assms(1)] highest_bit_bounds [OF pos] assms(2) by linarith
  qed
  show ?thesis
  proof (cases "highest_bit n = highest_bit m")
    case True
    obtain a b where a: "size_class n = (highest_bit n, a)" and b: "size_class m = (highest_bit m, b)"
      by (simp add: size_class_def Let_def)
    note A = size_class_bounds [OF assms(1) a] and B = size_class_bounds [OF pos b]
    have "\<not> b < a"
    proof
      assume "b < a"
      then have "class_min (highest_bit m) b + 2 ^ (highest_bit m - 5) \<le> class_min (highest_bit m) a" if "5 \<le> highest_bit m"
        using that mult_le_mono1 [of "32 + Suc b" "32 + a" "2 ^ (highest_bit m - 5)"]
        by (simp add: class_min_def algebra_simps)
      with A B assms(2) True \<open>b < a\<close> show False by (cases "5 \<le> highest_bit m") auto
    qed
    with True a b show ?thesis by (simp add: class_le_def)
  qed (use le in \<open>simp add: class_le_def size_class_def Let_def\<close>)
qed

text \<open>A block of an earlier or equal class exceeds another by less than a class step.\<close>

lemma class_le_size:
  assumes "a \<noteq> 0" and "b \<noteq> 0"
    and le: "class_le (iree_hal_memory_tlsf_mapping_insert a) (iree_hal_memory_tlsf_mapping_insert b)"
  shows "unat a \<le> unat b + unat b div 32"
proof (rule ccontr)
  assume neg: "\<not> unat a \<le> unat b + unat b div 32"
  have pos: "0 < unat a" "0 < unat b" using assms by (simp_all add: unat_pos)
  obtain f s where a: "size_class (unat a) = (f, s)" by fastforce
  obtain f' s' where b: "size_class (unat b) = (f', s')" by fastforce
  note A = size_class_bounds [OF pos(1) a] and B = size_class_bounds [OF pos(2) b]
  have "class_le (f, s) (f', s')" using le a b mapping_insert_eq assms(1,2) by simp
  moreover have "class_le (f', s') (f, s)" using size_class_mono [OF pos(2), of "unat a"] neg a b by simp
  ultimately have eq: "f = f'" "s = s'" by (auto simp: class_le_def)
  show False
  proof (cases "5 \<le> f")
    case True
    have "(2::nat) ^ (f - 5) * 32 = 2 ^ f" using True power_add [of "2::nat" "f - 5" 5] by simp
    then have "2 ^ (f - 5) * 32 \<le> unat b" using highest_bit_bounds [OF pos(2)] B(1) eq by simp
    then have "2 ^ (f - 5) \<le> unat b div 32" by (simp add: less_eq_div_iff_mult_less_eq)
    then show False using A(4) [OF True] B(3) eq neg by simp
  qed (use A(6) B(6) eq neg in simp)
qed

end
