(* ===== verification/TLSF_Bins.thy ===== *)
theory TLSF_Bins
  imports TLSF_Store TLSF_Classes
begin

text \<open>
  The free-list matrix of the TLSF allocator: every bin is a doubly-linked list of exactly the free
  blocks of its size class, and the two bitmaps say which bins are populated. Insertion and removal
  keep this, touching only the link fields of listed blocks; the search returns a large enough block.
\<close>

section \<open>Contents of the store\<close>

definition blocks :: "'u iree_hal_memory_tlsf_t \<Rightarrow> nat \<Rightarrow> iree_hal_memory_tlsf_block_t" where
  "blocks = store_contents valid_index iree_hal_memory_tlsf_block_at (zero_block 0)"

lemma block_at_blocks: "i < block_capacity t \<Longrightarrow> block_at t i = blocks t i"
  using store.contents_get [of t i] by (simp add: blocks_def valid_index_def)

lemma blocks_write:
  "segments_ok t \<Longrightarrow> i < block_capacity t \<Longrightarrow>
   blocks (block_write i f t) = (blocks t)(i := f (blocks t i))"
  using store.contents_put [of t i] by (simp add: blocks_def valid_index_def)

lemma blocks_cong:
  assumes "block_segments t' = block_segments t" and "block_capacity t' = block_capacity t"
    and "initial_block_capacity t' = initial_block_capacity t"
    and "initial_block_shift t' = initial_block_shift t"
  shows "blocks t' = blocks t"
  using assms
  by (simp add: blocks_def store_contents_def valid_index_def iree_hal_memory_tlsf_block_at_def fun_eq_iff)

lemma segments_ok_cong:
  assumes "block_segments t' = block_segments t" and "block_capacity t' = block_capacity t"
    and "initial_block_capacity t' = initial_block_capacity t"
    and "initial_block_shift t' = initial_block_shift t"
    and "block_segment_count t' = block_segment_count t"
  shows "segments_ok t' = segments_ok t"
  using assms by (simp add: segments_ok_def)

text \<open>Updates of the other fields leave the store alone.\<close>

lemma blocks_update [simp]:
  "blocks (t\<lparr>fl_bitmap := a\<rparr>) = blocks t" "blocks (t\<lparr>sl_bitmaps := b\<rparr>) = blocks t"
  "blocks (t\<lparr>free_lists := c\<rparr>) = blocks t" "blocks (t\<lparr>free_block_count := d\<rparr>) = blocks t"
  "blocks (t\<lparr>unused_node_head := e\<rparr>) = blocks t" "blocks (t\<lparr>bytes_free := f\<rparr>) = blocks t"
  "blocks (t\<lparr>bytes_allocated := f\<rparr>) = blocks t" "blocks (t\<lparr>allocation_count := d\<rparr>) = blocks t"
  "blocks (t\<lparr>tainted_coalesce_count := a\<rparr>) = blocks t"
  "blocks (t\<lparr>frontier_overflow_user_data := u\<rparr>) = blocks t"
  by (rule blocks_cong; simp)+

lemma segments_ok_update [simp]:
  "segments_ok (t\<lparr>fl_bitmap := a\<rparr>) = segments_ok t" "segments_ok (t\<lparr>sl_bitmaps := b\<rparr>) = segments_ok t"
  "segments_ok (t\<lparr>free_lists := c\<rparr>) = segments_ok t" "segments_ok (t\<lparr>free_block_count := d\<rparr>) = segments_ok t"
  "segments_ok (t\<lparr>unused_node_head := e\<rparr>) = segments_ok t" "segments_ok (t\<lparr>bytes_free := f\<rparr>) = segments_ok t"
  "segments_ok (t\<lparr>bytes_allocated := f\<rparr>) = segments_ok t"
  "segments_ok (t\<lparr>allocation_count := d\<rparr>) = segments_ok t"
  "segments_ok (t\<lparr>tainted_coalesce_count := a\<rparr>) = segments_ok t"
  "segments_ok (t\<lparr>frontier_overflow_user_data := u\<rparr>) = segments_ok t"
  by (rule segments_ok_cong; simp)+

declare segments_ok_write [simp]

lemma set_free_list_simps [simp]:
  "blocks (set_free_list fl sl i t) = blocks t"
  "segments_ok (set_free_list fl sl i t) = segments_ok t"
  "free_lists (set_free_list fl sl i t) = (free_lists t)(fl := (free_lists t fl)(sl := i))"
  "fl_bitmap (set_free_list fl sl i t) = fl_bitmap t"
  "sl_bitmaps (set_free_list fl sl i t) = sl_bitmaps t"
  "free_block_count (set_free_list fl sl i t) = free_block_count t"
  "block_capacity (set_free_list fl sl i t) = block_capacity t"
  by (simp_all add: set_free_list_def)

section \<open>The matrix invariant\<close>

definition class_of :: "iree_hal_memory_tlsf_block_t \<Rightarrow> nat \<times> nat" where
  "class_of b = iree_hal_memory_tlsf_mapping_insert (block_length b)"

text \<open>
  \<open>bins\<close> lists the blocks of every bin, \<open>S\<close> is the set of all listed blocks.
\<close>

definition bins_ok ::
    "'u iree_hal_memory_tlsf_t \<Rightarrow> (nat \<Rightarrow> nat \<Rightarrow> nat list) \<Rightarrow> nat set \<Rightarrow> bool" where
  "bins_ok t bins S \<longleftrightarrow>
     (\<forall>fl sl. dseg (\<lambda>i. prev_free (blocks t i)) (\<lambda>i. next_free (blocks t i)) BLOCK_INDEX_NONE
                (free_lists t fl sl) (bins fl sl) BLOCK_INDEX_NONE \<and>
              distinct (bins fl sl) \<and> set (bins fl sl) = {i \<in> S. class_of (blocks t i) = (fl, sl)}) \<and>
     (\<forall>fl sl. bit (sl_bitmaps t fl) sl \<longleftrightarrow> bins fl sl \<noteq> []) \<and>
     (\<forall>fl. bit (fl_bitmap t) fl \<longleftrightarrow> sl_bitmaps t fl \<noteq> 0) \<and>
     free_block_count t = of_nat (card S) \<and>
     S \<subseteq> {..<block_capacity t} \<and> (\<forall>i\<in>S. block_length (blocks t i) \<noteq> 0)"

lemma bins_okD:
  assumes "bins_ok t bins S"
  shows "dseg (\<lambda>i. prev_free (blocks t i)) (\<lambda>i. next_free (blocks t i)) BLOCK_INDEX_NONE
                (free_lists t fl sl) (bins fl sl) BLOCK_INDEX_NONE"
    and "distinct (bins fl sl)"
    and "set (bins fl sl) = {i \<in> S. class_of (blocks t i) = (fl, sl)}"
    and "bit (sl_bitmaps t fl) sl \<longleftrightarrow> bins fl sl \<noteq> []"
    and "bit (fl_bitmap t) fl \<longleftrightarrow> sl_bitmaps t fl \<noteq> 0"
    and "free_block_count t = of_nat (card S)"
    and "S \<subseteq> {..<block_capacity t}" and "finite S"
    and "i \<in> S \<Longrightarrow> block_length (blocks t i) \<noteq> 0"
  using assms finite_subset [of S "{..<block_capacity t}"] by (auto simp: bins_ok_def)

text \<open>The matrix only depends on the links and lengths of listed blocks.\<close>

lemma bins_ok_frame:
  assumes "bins_ok t bins S" and "block_capacity t' = block_capacity t"
    and "free_lists t' = free_lists t" "sl_bitmaps t' = sl_bitmaps t" "fl_bitmap t' = fl_bitmap t"
      "free_block_count t' = free_block_count t"
    and same: "\<And>i. i \<in> S \<Longrightarrow> prev_free (blocks t' i) = prev_free (blocks t i) \<and>
      next_free (blocks t' i) = next_free (blocks t i) \<and> block_length (blocks t' i) = block_length (blocks t i)"
  shows "bins_ok t' bins S"
proof -
  note D = bins_okD [OF assms(1)]
  have "dseg (\<lambda>i. prev_free (blocks t' i)) (\<lambda>i. next_free (blocks t' i)) BLOCK_INDEX_NONE
      (free_lists t' fl sl) (bins fl sl) BLOCK_INDEX_NONE" for fl sl
    unfolding assms(3) by (subst dseg_cong) (use D(1,3) same in auto)
  then show ?thesis
    unfolding bins_ok_def assms(2-6) using D same by (auto simp: class_of_def)
qed

lemma bins_head:
  assumes "bins_ok t bins S" and "segments_ok t"
  shows "free_lists t fl sl = hd (bins fl sl @ [BLOCK_INDEX_NONE])"
    and "free_lists t fl sl \<noteq> BLOCK_INDEX_NONE \<longleftrightarrow> bins fl sl \<noteq> []"
    and "i \<in> set (bins fl sl) \<Longrightarrow> i \<in> S \<and> i < block_capacity t \<and> i \<noteq> BLOCK_INDEX_NONE"
proof -
  note D = bins_okD [OF assms(1)]
  show h: "free_lists t fl sl = hd (bins fl sl @ [BLOCK_INDEX_NONE])"
    by (rule dseg_head [OF D(1)])
  show mem: "i \<in> S \<and> i < block_capacity t \<and> i \<noteq> BLOCK_INDEX_NONE" if "i \<in> set (bins fl sl)" for i
    using that D(3) [of fl sl] D(7) none_not_valid [OF assms(2), of i] by auto
  show "free_lists t fl sl \<noteq> BLOCK_INDEX_NONE \<longleftrightarrow> bins fl sl \<noteq> []"
    using h mem [OF hd_in_set] by (cases "bins fl sl") auto
qed

section \<open>Insertion\<close>

text \<open>The fields an operation on the matrix leaves alone.\<close>

definition core_view where
  "core_view t = (range_length t, alignment t, frontier_capacity t, frontier_overflow t,
     frontier_overflow_user_data t, block_capacity t, unused_node_head t, bytes_allocated t,
     bytes_free t, allocation_count t, host_allocator t, block_stride t, tainted_coalesce_count t,
     initial_block_capacity t, initial_block_shift t, block_segment_count t)"

lemma core_view_insert [simp]:
  "core_view (iree_hal_memory_tlsf_insert_free_block i t) = core_view t"
  by (simp add: iree_hal_memory_tlsf_insert_free_block_def core_view_def set_free_list_def Let_def
      split: prod.split)

lemma core_view_remove [simp]:
  "core_view (iree_hal_memory_tlsf_remove_free_block i t) = core_view t"
  by (simp add: iree_hal_memory_tlsf_remove_free_block_def core_view_def set_free_list_def Let_def
      split: prod.split)

text \<open>What one insertion does to the state, field by field.\<close>

lemma insert_free_block_effect:
  assumes ok: "segments_ok t" and i: "i < block_capacity t"
    and cl: "class_of (blocks t i) = (fl, sl)"
    and head: "free_lists t fl sl \<noteq> BLOCK_INDEX_NONE \<longrightarrow> free_lists t fl sl < block_capacity t"
  defines "h \<equiv> free_lists t fl sl" and "t' \<equiv> iree_hal_memory_tlsf_insert_free_block i t"
  shows "blocks t' =
      (let g = (blocks t)(i := (blocks t i)\<lparr>prev_free := BLOCK_INDEX_NONE, next_free := h\<rparr>)
       in if h \<noteq> BLOCK_INDEX_NONE then g(h := (g h)\<lparr>prev_free := i\<rparr>) else g)"
    and "segments_ok t'"
    and "free_lists t' = (free_lists t)(fl := (free_lists t fl)(sl := i))"
    and "fl_bitmap t' = fl_bitmap t OR push_bit fl 1"
    and "sl_bitmaps t' = (sl_bitmaps t)(fl := sl_bitmaps t fl OR push_bit sl 1)"
    and "free_block_count t' = free_block_count t + 1"
  using assms
  by (simp_all add: iree_hal_memory_tlsf_insert_free_block_def class_of_def block_at_blocks Let_def
      blocks_write)

lemma class_bounds:
  assumes "block_length b \<noteq> 0" and "class_of b = (fl, sl)"
  shows "fl < 64" and "sl < 32" and "proper_class fl sl"
    and "size_class (unat (block_length b)) = (fl, sl)"
proof -
  have pos: "0 < unat (block_length b)" using assms(1) by (simp add: unat_pos)
  show sc: "size_class (unat (block_length b)) = (fl, sl)"
    using assms by (simp add: class_of_def mapping_insert_eq)
  show "fl < 64" using size_class_bounds(1) [OF pos sc] highest_bit_u64_less [OF assms(1)] by simp
  show "sl < 32" by (rule size_class_bounds(2) [OF pos sc])
  show "proper_class fl sl" by (rule proper_size_class [OF pos sc])
qed

lemma bit_or_single: "bit (w OR 2 ^ n :: 'a::len word) k \<longleftrightarrow> bit w k \<or> k = n \<and> n < LENGTH('a)"
  by (auto simp: bit_simps dest: bit_imp_le_length)

lemma bit_clear_single: "bit (w AND NOT (2 ^ n) :: 'a::len word) k \<longleftrightarrow> bit w k \<and> k \<noteq> n"
  by (auto simp: bit_simps dest: bit_imp_le_length)

lemma or_single_nonzero: "n < LENGTH('a) \<Longrightarrow> (w OR 2 ^ n :: 'a::len word) \<noteq> 0"
  by (metis bit_or_single bit_0_eq bot_apply bot_bool_def)

text \<open>Two nodes that differ at most in their free-list links.\<close>

definition relinked :: "iree_hal_memory_tlsf_block_t \<Rightarrow> iree_hal_memory_tlsf_block_t \<Rightarrow> bool" where
  "relinked b b' \<longleftrightarrow> offset b' = offset b \<and> block_length b' = block_length b \<and>
     prev_physical b' = prev_physical b \<and> next_physical b' = next_physical b \<and>
     flags b' = flags b \<and> frontier b' = frontier b"

lemma insert_free_block_ok:
  assumes ok: "segments_ok t" and bins: "bins_ok t bins S"
    and i: "i < block_capacity t" "i \<notin> S" and len: "block_length (blocks t i) \<noteq> 0"
    and cl: "class_of (blocks t i) = (fl, sl)"
  defines "t' \<equiv> iree_hal_memory_tlsf_insert_free_block i t"
  shows "bins_ok t' (bins(fl := (bins fl)(sl := i # bins fl sl))) (insert i S)"
    and "segments_ok t'"
    and "relinked (blocks t j) (blocks t' j)"
    and "j \<notin> insert i S \<Longrightarrow> blocks t' j = blocks t j"
proof -
  note D = bins_okD [OF bins] and H = bins_head [OF bins ok]
  note cb = class_bounds [OF len cl]
  let ?h = "free_lists t fl sl"
  have h: "?h \<noteq> BLOCK_INDEX_NONE \<Longrightarrow> ?h \<in> set (bins fl sl)"
    using H(1,2) by (cases "bins fl sl") (metis append_Cons list.sel(1) list.set_intros(1))+
  then have hcap: "?h \<noteq> BLOCK_INDEX_NONE \<longrightarrow> ?h < block_capacity t" and hS: "?h \<noteq> BLOCK_INDEX_NONE \<Longrightarrow> ?h \<in> S"
    using H(3) by blast+
  note E = insert_free_block_effect [OF ok i(1) cl hcap, folded t'_def]
  show "segments_ok t'" by (rule E(2))
  show keep: "relinked (blocks t j) (blocks t' j)" for j
    unfolding E(1) Let_def by (auto simp: relinked_def)
  show other: "j \<notin> insert i S \<Longrightarrow> blocks t' j = blocks t j" for j
    unfolding E(1) Let_def using hS by auto
  have len_same: "block_length (blocks t' j) = block_length (blocks t j)" for j
    using keep [of j] by (simp add: relinked_def)
  then have cls: "class_of (blocks t' j) = class_of (blocks t j)" for j
    by (simp add: class_of_def)
  let ?bins = "bins(fl := (bins fl)(sl := i # bins fl sl))"
  let ?P = "\<lambda>j. prev_free (blocks t j)" and ?N = "\<lambda>j. next_free (blocks t j)"
  have P: "(\<lambda>j. prev_free (blocks t' j)) =
      (if ?h = BLOCK_INDEX_NONE then ?P(i := BLOCK_INDEX_NONE) else ?P(i := BLOCK_INDEX_NONE, ?h := i))"
    and N: "(\<lambda>j. next_free (blocks t' j)) = ?N(i := ?h)"
    unfolding E(1) Let_def by (auto simp: fun_eq_iff)
  have seg: "dseg (\<lambda>j. prev_free (blocks t' j)) (\<lambda>j. next_free (blocks t' j)) BLOCK_INDEX_NONE
      (free_lists t' f s) (?bins f s) BLOCK_INDEX_NONE" for f s
  proof (cases "f = fl \<and> s = sl")
    case False
    have "j \<noteq> i \<and> (?h \<noteq> BLOCK_INDEX_NONE \<longrightarrow> j \<noteq> ?h)" if "j \<in> set (bins f s)" for j
      using that False D(3) [of f s] D(3) [of fl sl] i(2) h by auto
    then have "dseg (\<lambda>j. prev_free (blocks t' j)) (\<lambda>j. next_free (blocks t' j)) BLOCK_INDEX_NONE
        (free_lists t f s) (bins f s) BLOCK_INDEX_NONE"
      unfolding P N using D(1) [of f s] by (subst dseg_cong) auto
    moreover have "free_lists t' f s = free_lists t f s" and "?bins f s = bins f s"
      using False by (auto simp: E(3))
    ultimately show ?thesis by simp
  next
    case True
    have "dseg (if bins fl sl = [] then ?P else ?P(hd (bins fl sl) := i)) ?N i ?h (bins fl sl) BLOCK_INDEX_NONE"
      by (rule dseg_start [OF D(1) D(2)])
    moreover have "i \<notin> set (bins fl sl)" using D(3) [of fl sl] i(2) by auto
    ultimately have "dseg (\<lambda>j. prev_free (blocks t' j)) (\<lambda>j. next_free (blocks t' j)) i ?h (bins fl sl) BLOCK_INDEX_NONE"
      unfolding P N using H(1,2) [of fl sl] by (subst dseg_cong) (auto simp: hd_append)
    moreover have "prev_free (blocks t' i) = BLOCK_INDEX_NONE" "next_free (blocks t' i) = ?h"
      using P N i(2) hS by (auto simp: fun_eq_iff)
    ultimately show ?thesis using True E(3) by simp
  qed
  have sets: "distinct (?bins f s) \<and> set (?bins f s) = {j \<in> insert i S. class_of (blocks t' j) = (f, s)}" for f s
  proof (cases "f = fl \<and> s = sl")
    case True
    then have "?bins f s = i # bins fl sl" by simp
    with True D(2) [of fl sl] D(3) [of fl sl] i(2) cl show ?thesis unfolding cls by auto
  next
    case False
    then have "?bins f s = bins f s" by auto
    with False D(2) [of f s] D(3) [of f s] cl show ?thesis unfolding cls by auto
  qed
  show "bins_ok t' ?bins (insert i S)"
    unfolding bins_ok_def
  proof (intro conjI allI)
    show "free_block_count t' = of_nat (card (insert i S))"
      using E(6) D(6,8) i(2) by simp
    show "insert i S \<subseteq> {..<block_capacity t'}"
      using D(7) i(1) core_view_insert [of i t] by (simp add: core_view_def t'_def)
    show "\<forall>j\<in>insert i S. block_length (blocks t' j) \<noteq> 0"
      using D(9) len by (simp add: len_same)
    show "bit (sl_bitmaps t' f) s \<longleftrightarrow> ?bins f s \<noteq> []" for f s
      using D(4) [of f s] cb(2) unfolding E(5) by (auto simp: bit_or_single)
    show "bit (fl_bitmap t') f \<longleftrightarrow> sl_bitmaps t' f \<noteq> 0" for f
      using D(5) [of f] cb(1,2) unfolding E(4,5) by (auto simp: bit_or_single or_single_nonzero)
  qed (use seg sets in auto)
qed

section \<open>Removal\<close>

lemma remove_free_block_effect:
  assumes ok: "segments_ok t" and i: "i < block_capacity t"
    and cl: "class_of (blocks t i) = (fl, sl)"
    and pn: "prev_free (blocks t i) = p" "next_free (blocks t i) = n"
    and p: "p \<noteq> BLOCK_INDEX_NONE \<longrightarrow> p < block_capacity t"
    and n: "n \<noteq> BLOCK_INDEX_NONE \<longrightarrow> n < block_capacity t"
  defines "t' \<equiv> iree_hal_memory_tlsf_remove_free_block i t"
  shows "blocks t' =
      (let g = (if p \<noteq> BLOCK_INDEX_NONE then (blocks t)(p := (blocks t p)\<lparr>next_free := n\<rparr>) else blocks t);
           g = (if n \<noteq> BLOCK_INDEX_NONE then g(n := (g n)\<lparr>prev_free := p\<rparr>) else g)
       in g(i := (g i)\<lparr>prev_free := BLOCK_INDEX_NONE, next_free := BLOCK_INDEX_NONE\<rparr>))"
    and "segments_ok t'"
    and "free_lists t' = (if p \<noteq> BLOCK_INDEX_NONE then free_lists t
                          else (free_lists t)(fl := (free_lists t fl)(sl := n)))"
    and "sl_bitmaps t' = (if free_lists t' fl sl = BLOCK_INDEX_NONE
                          then (sl_bitmaps t)(fl := sl_bitmaps t fl AND NOT (2 ^ sl)) else sl_bitmaps t)"
    and "fl_bitmap t' = (if free_lists t' fl sl = BLOCK_INDEX_NONE \<and> sl_bitmaps t' fl = 0
                         then fl_bitmap t AND NOT (2 ^ fl) else fl_bitmap t)"
    and "free_block_count t' = free_block_count t - 1"
  using assms
  by (simp_all add: iree_hal_memory_tlsf_remove_free_block_def class_of_def block_at_blocks Let_def
      blocks_write)

text \<open>The neighbours of a listed block in its bin.\<close>

lemma bin_split:
  assumes ok: "segments_ok t" and bins: "bins_ok t bins S" and i: "i \<in> S"
    and cl: "class_of (blocks t i) = (fl, sl)"
  obtains xs ys where "bins fl sl = xs @ i # ys" and "i \<notin> set xs" and "i \<notin> set ys"
    and "prev_free (blocks t i) = last (BLOCK_INDEX_NONE # xs)"
    and "next_free (blocks t i) = hd (ys @ [BLOCK_INDEX_NONE])"
proof -
  note D = bins_okD [OF bins]
  have "i \<in> set (bins fl sl)" using D(3) i cl by auto
  then obtain xs ys where split: "bins fl sl = xs @ i # ys" by (meson split_list)
  show ?thesis
    using that [OF split] D(2) [of fl sl] dseg_links [OF D(1) [of fl sl, unfolded split]]
    by (simp add: split)
qed

lemma remove_free_block_ok:
  assumes ok: "segments_ok t" and bins: "bins_ok t bins S" and i: "i \<in> S"
    and cl: "class_of (blocks t i) = (fl, sl)"
  defines "t' \<equiv> iree_hal_memory_tlsf_remove_free_block i t"
  shows "bins_ok t' (bins(fl := (bins fl)(sl := remove1 i (bins fl sl)))) (S - {i})"
    and "segments_ok t'"
    and "relinked (blocks t j) (blocks t' j)"
    and "j \<notin> S \<Longrightarrow> blocks t' j = blocks t j"
proof -
  note D = bins_okD [OF bins] and H = bins_head [OF bins ok]
  obtain xs ys where b: "bins fl sl = xs @ i # ys" "i \<notin> set xs" "i \<notin> set ys"
    and pv: "prev_free (blocks t i) = last (BLOCK_INDEX_NONE # xs)"
    and nx: "next_free (blocks t i) = hd (ys @ [BLOCK_INDEX_NONE])"
    using bin_split [OF ok bins i cl] by blast
  have icap: "i < block_capacity t" and len: "block_length (blocks t i) \<noteq> 0" using D(7,9) i by auto
  note cb = class_bounds [OF len cl]
  let ?p = "last (BLOCK_INDEX_NONE # xs)" and ?n = "hd (ys @ [BLOCK_INDEX_NONE])"
  have mem: "j \<in> S \<and> j < block_capacity t \<and> j \<noteq> BLOCK_INDEX_NONE" if "j \<in> set xs \<union> set ys" for j
    using H(3) [of j fl sl] that b(1) by auto
  have p: "?p \<noteq> BLOCK_INDEX_NONE \<longleftrightarrow> xs \<noteq> []" "?p \<noteq> BLOCK_INDEX_NONE \<longrightarrow> ?p < block_capacity t"
    and n: "?n \<noteq> BLOCK_INDEX_NONE \<longleftrightarrow> ys \<noteq> []" "?n \<noteq> BLOCK_INDEX_NONE \<longrightarrow> ?n < block_capacity t"
    using mem [of ?p] mem [of ?n] by (cases "xs = []"; cases ys; simp)+
  note E = remove_free_block_effect [OF ok icap cl pv nx p(2) n(2), folded t'_def, unfolded p(1) n(1)]
  show "segments_ok t'" by (rule E(2))
  show keep: "relinked (blocks t j) (blocks t' j)" for j
    unfolding E(1) Let_def by (auto simp: relinked_def)
  show other: "j \<notin> S \<Longrightarrow> blocks t' j = blocks t j" for j
    unfolding E(1) Let_def using i mem [of ?p] mem [of ?n] by (cases ys) auto
  have len_same: "block_length (blocks t' j) = block_length (blocks t j)" for j
    using keep [of j] by (simp add: relinked_def)
  then have cls: "class_of (blocks t' j) = class_of (blocks t j)" for j
    by (simp add: class_of_def)
  have rem: "remove1 i (bins fl sl) = xs @ ys" using b by (simp add: remove1_append)
  let ?bins = "bins(fl := (bins fl)(sl := xs @ ys))"
  let ?P = "\<lambda>j. prev_free (blocks t j)" and ?N = "\<lambda>j. next_free (blocks t j)"
  let ?P' = "if ys = [] then ?P else ?P(hd ys := ?p)" and ?N' = "if xs = [] then ?N else ?N(last xs := ?n)"
  have P: "prev_free (blocks t' j) = ?P' j" and N: "next_free (blocks t' j) = ?N' j" if "j \<noteq> i" for j
    unfolding E(1) Let_def using that by auto
  have dist: "distinct (xs @ i # ys)" using D(2) [of fl sl] b(1) by simp
  have head: "free_lists t' fl sl = (if xs = [] then ?n else free_lists t fl sl)"
    unfolding E(3) by simp
  have seg: "dseg (\<lambda>j. prev_free (blocks t' j)) (\<lambda>j. next_free (blocks t' j)) BLOCK_INDEX_NONE
      (free_lists t' f s) (?bins f s) BLOCK_INDEX_NONE" for f s
  proof (cases "f = fl \<and> s = sl")
    case False
    have "j \<notin> set (bins fl sl)" if "j \<in> set (bins f s)" for j
      using that False D(3) [of f s] D(3) [of fl sl] by auto
    then have "j \<noteq> i \<and> (ys \<noteq> [] \<longrightarrow> j \<noteq> hd ys) \<and> (xs \<noteq> [] \<longrightarrow> j \<noteq> last xs)" if "j \<in> set (bins f s)" for j
      using that b(1) by fastforce
    then have "dseg (\<lambda>j. prev_free (blocks t' j)) (\<lambda>j. next_free (blocks t' j)) BLOCK_INDEX_NONE
        (free_lists t f s) (bins f s) BLOCK_INDEX_NONE"
      using D(1) [of f s] P N by (subst dseg_cong) auto
    moreover have "free_lists t' f s = free_lists t f s" and "?bins f s = bins f s"
      using False by (auto simp: E(3))
    ultimately show ?thesis by simp
  next
    case True
    have "dseg ?P' ?N' BLOCK_INDEX_NONE (free_lists t' fl sl) (xs @ ys) BLOCK_INDEX_NONE"
      using dseg_remove [OF D(1) [of fl sl, unfolded b(1)] dist] head by simp
    also have "dseg ?P' ?N' BLOCK_INDEX_NONE (free_lists t' fl sl) (xs @ ys) BLOCK_INDEX_NONE \<longleftrightarrow>
        dseg (\<lambda>j. prev_free (blocks t' j)) (\<lambda>j. next_free (blocks t' j)) BLOCK_INDEX_NONE
          (free_lists t' fl sl) (xs @ ys) BLOCK_INDEX_NONE"
    proof (rule dseg_cong)
      fix j assume "j \<in> set (xs @ ys)"
      then have "j \<noteq> i" using b(2,3) by auto
      then show "?P' j = prev_free (blocks t' j) \<and> ?N' j = next_free (blocks t' j)" using P N by simp
    qed
    finally show ?thesis using True by simp
  qed
  have sets: "distinct (?bins f s) \<and> set (?bins f s) = {j \<in> S - {i}. class_of (blocks t' j) = (f, s)}" for f s
  proof (cases "f = fl \<and> s = sl")
    case True
    then have "?bins f s = xs @ ys" by simp
    with True D(3) [of fl sl] dist show ?thesis unfolding cls b(1) by auto
  next
    case False
    then have "?bins f s = bins f s" by auto
    with False D(2) [of f s] D(3) [of f s] cl show ?thesis unfolding cls by auto
  qed
  have empty: "free_lists t' fl sl = BLOCK_INDEX_NONE \<longleftrightarrow> xs @ ys = []"
    using head n(1) H(2) [of fl sl] b(1) by auto
  have slb: "bit (sl_bitmaps t' f) s \<longleftrightarrow> ?bins f s \<noteq> []" for f s
    using D(4) [of f s] b(1) unfolding E(4) empty by (auto simp: bit_clear_single)
  have "bins_ok t' ?bins (S - {i})"
    unfolding bins_ok_def
  proof (intro conjI allI)
    have "0 < card S" using D(8) i card_gt_0_iff by blast
    then show "free_block_count t' = of_nat (card (S - {i}))"
      using E(6) D(6,8) i by (simp add: of_nat_diff)
    show "S - {i} \<subseteq> {..<block_capacity t'}"
      using D(7) core_view_remove [of i t] by (auto simp: core_view_def t'_def)
    show "\<forall>j\<in>S - {i}. block_length (blocks t' j) \<noteq> 0"
      using D(9) by (simp add: len_same)
    show "bit (fl_bitmap t') f \<longleftrightarrow> sl_bitmaps t' f \<noteq> 0" for f
    proof (cases "f = fl")
      case True
      have "bit (fl_bitmap t) fl" using D(4,5) [of fl] b(1) by (metis append_is_Nil_conv bit_0_eq bot_apply bot_bool_def list.distinct(1))
      then show ?thesis
        unfolding E(5) using True D(5) [of fl] E(4) by (auto simp: bit_clear_single)
    qed (use D(5) [of f] E(4,5) in \<open>auto simp: bit_clear_single\<close>)
  qed (use seg sets slb in auto)
  then show "bins_ok t' (bins(fl := (bins fl)(sl := remove1 i (bins fl sl)))) (S - {i})"
    unfolding rem .
qed

section \<open>Search\<close>

lemma bin_member_class:
  assumes "bins_ok t bins S" and "i \<in> set (bins fl sl)"
  shows "i \<in> S" and "size_class (unat (block_length (blocks t i))) = (fl, sl)"
    and "0 < unat (block_length (blocks t i))" and "i < block_capacity t"
proof -
  note D = bins_okD [OF assms(1)]
  show "i \<in> S" using assms(2) D(3) by auto
  then have len: "block_length (blocks t i) \<noteq> 0" by (rule D(9))
  then show "0 < unat (block_length (blocks t i))" by (simp add: unat_pos)
  have "class_of (blocks t i) = (fl, sl)" using assms(2) D(3) by auto
  then show "size_class (unat (block_length (blocks t i))) = (fl, sl)"
    using class_bounds(4) [OF len] by simp
  show "i < block_capacity t" using \<open>i \<in> S\<close> D(7) by auto
qed

text \<open>The first populated bin at or after a class within its first level, and after it above.\<close>

lemma sl_scan:
  assumes bins: "bins_ok t bins S" and nz: "sl_bitmaps t fl AND push_bit sl (NOT 0) \<noteq> 0"
  defines "s \<equiv> iree_math_count_trailing_zeros_u32 (sl_bitmaps t fl AND push_bit sl (NOT 0))"
  shows "sl \<le> s" and "bins fl s \<noteq> []"
proof -
  have "bit (sl_bitmaps t fl AND push_bit sl (NOT 0)) s"
    unfolding s_def by (rule ctz_u32_bit(1) [OF nz])
  then have "bit (sl_bitmaps t fl) s \<and> sl \<le> s"
    unfolding bit_and_iff mask_from_bit by blast
  then show "sl \<le> s" and "bins fl s \<noteq> []"
    using bins_okD(4) [OF bins] by auto
qed

lemma sl_scan_empty:
  assumes bins: "bins_ok t bins S" and z: "sl_bitmaps t fl AND push_bit sl (NOT 0) = 0"
    and "sl \<le> s"
  shows "bins fl s = []"
proof (rule ccontr)
  assume "bins fl s \<noteq> []"
  then have b: "bit (sl_bitmaps t fl) s" using bins_okD(4) [OF bins] by simp
  then have "s < 32" by (rule bit_imp_le_length [where 'a = 32, simplified])
  with b assms(3) have "bit (sl_bitmaps t fl AND push_bit sl (NOT 0)) s"
    unfolding bit_and_iff mask_from_bit by simp
  with z show False by simp
qed

lemma fl_scan:
  assumes bins: "bins_ok t bins S" and fl: "fl < 64"
    and nz: "fl_bitmap t AND NOT (iree_shr_u64 (NOT 0) (63 - fl)) \<noteq> 0"
  defines "f \<equiv> iree_math_count_trailing_zeros_u64 (fl_bitmap t AND NOT (iree_shr_u64 (NOT 0) (63 - fl)))"
  defines "s \<equiv> iree_math_count_trailing_zeros_u32 (sl_bitmaps t f)"
  shows "fl < f" and "f < 64" and "bins f s \<noteq> []"
    and "fl < f' \<Longrightarrow> f' < f \<Longrightarrow> bins f' s' = []" and "s' < s \<Longrightarrow> bins f s' = []"
proof -
  note D = bins_okD [OF bins]
  have hit: "bit (fl_bitmap t) f \<and> fl < f \<and> f < 64"
    using ctz_u64_bit(1) [OF nz] unfolding f_def [symmetric] bit_and_iff mask_above_u64 [OF fl] by blast
  then show "fl < f" and "f < 64" by auto
  have snz: "sl_bitmaps t f \<noteq> 0" using hit D(5) by blast
  show "bins f s \<noteq> []"
    using ctz_u32_bit(1) [OF snz] D(4) unfolding s_def by blast
  show "bins f s' = []" if "s' < s"
    using ctz_u32_bit(2) [OF snz] that D(4) unfolding s_def by blast
  show "bins f' s' = []" if "fl < f'" "f' < f"
  proof -
    have "f' < 64" using that hit by simp
    then have "\<not> bit (fl_bitmap t) f'"
      using ctz_u64_bit(2) [OF nz, folded f_def, OF that(2)] that(1)
      unfolding bit_and_iff mask_above_u64 [OF fl] by blast
    then have "sl_bitmaps t f' = 0" using D(5) by blast
    then show ?thesis using D(4) [of f' s'] by simp
  qed
qed

lemma fl_scan_empty:
  assumes bins: "bins_ok t bins S" and fl: "fl < 64"
    and z: "fl_bitmap t AND NOT (iree_shr_u64 (NOT 0) (63 - fl)) = 0" and "fl < f"
  shows "bins f s = []"
proof (rule ccontr)
  note D = bins_okD [OF bins]
  assume "bins f s \<noteq> []"
  then have "bit (sl_bitmaps t f) s" using D(4) by simp
  then have "sl_bitmaps t f \<noteq> 0" by auto
  then have b: "bit (fl_bitmap t) f" using D(5) by blast
  then have "f < 64" by (rule bit_imp_le_length [where 'a = 64, simplified])
  with b assms(4) have "bit (fl_bitmap t AND NOT (iree_shr_u64 (NOT 0) (63 - fl))) f"
    unfolding bit_and_iff mask_above_u64 [OF fl] by simp
  with z show False by simp
qed

lemma bin_head_member:
  assumes "bins_ok t bins S" and "segments_ok t" and "bins fl sl \<noteq> []"
  shows "free_lists t fl sl \<in> set (bins fl sl)"
  using bins_head(1) [OF assms(1,2), of fl sl] assms(3) by (cases "bins fl sl") auto

lemma find_suitable_block_fits:
  assumes ok: "segments_ok t" and bins: "bins_ok t bins S" and len: "len \<noteq> 0"
    and found: "iree_hal_memory_tlsf_find_suitable_block t len = i" "i \<noteq> BLOCK_INDEX_NONE"
  shows "i \<in> S" and "len \<le> block_length (blocks t i)"
proof -
  note H = bins_head [OF bins ok]
  obtain fl0 sl0 where c0: "iree_hal_memory_tlsf_mapping_insert len = (fl0, sl0)" by fastforce
  have "i \<in> S \<and> len \<le> block_length (blocks t i)"
  proof (cases "free_lists t fl0 sl0 \<noteq> BLOCK_INDEX_NONE \<and>
      block_length (block_at t (free_lists t fl0 sl0)) \<ge> len")
    case True
    then have "i = free_lists t fl0 sl0"
      using found(1) c0 by (simp add: iree_hal_memory_tlsf_find_suitable_block_def)
    moreover have "free_lists t fl0 sl0 \<in> set (bins fl0 sl0)"
      using bin_head_member [OF bins ok] True H(2) by blast
    ultimately show ?thesis
      using True bin_member_class [OF bins] by (auto simp: block_at_blocks)
  next
    case False
    then obtain fl sl where ms: "iree_hal_memory_tlsf_mapping_search len = Some (fl, sl)"
      using found c0 by (cases "iree_hal_memory_tlsf_mapping_search len")
        (auto simp: iree_hal_memory_tlsf_find_suitable_block_def)
    note sb = mapping_search_bounds [OF len ms]
    obtain f s where fs: "i = free_lists t f s" "bins f s \<noteq> []" "class_le (fl, sl) (f, s)"
    proof (cases "sl_bitmaps t fl AND push_bit sl (NOT 0) = 0")
      case nz: False
      show ?thesis
        using found c0 ms False nz sl_scan [OF bins nz]
        by (intro that [of fl]) (auto simp: iree_hal_memory_tlsf_find_suitable_block_def Let_def class_le_def)
    next
      case z: True
      have nz: "fl_bitmap t AND NOT (iree_shr_u64 (NOT 0) (63 - fl)) \<noteq> 0"
        using found c0 ms False z by (auto simp: iree_hal_memory_tlsf_find_suitable_block_def Let_def)
      show ?thesis
        using found c0 ms False nz z fl_scan [OF bins sb(1) nz]
        by (intro that) (auto simp: iree_hal_memory_tlsf_find_suitable_block_def Let_def class_le_def)
    qed
    have "i \<in> set (bins f s)" using bin_head_member [OF bins ok fs(2)] fs(1) by simp
    note m = bin_member_class [OF bins this]
    have "class_min fl sl \<le> unat (block_length (blocks t i))"
      by (rule class_min_le [OF m(3) m(2) sb(2) fs(3)])
    with sb(3) m(1) show ?thesis by (simp add: word_le_nat_alt)
  qed
  then show "i \<in> S" and "len \<le> block_length (blocks t i)" by auto
qed

lemma find_suitable_block_none:
  assumes ok: "segments_ok t" and bins: "bins_ok t bins S" and len: "len \<noteq> 0"
    and none: "iree_hal_memory_tlsf_find_suitable_block t len = BLOCK_INDEX_NONE" and i: "i \<in> S"
  shows "unat (block_length (blocks t i)) < unat len + 2 ^ (highest_bit (unat len) - 5)"
proof -
  note D = bins_okD [OF bins] and H = bins_head [OF bins ok]
  let ?n = "unat (block_length (blocks t i))"
  obtain fl0 sl0 where c0: "iree_hal_memory_tlsf_mapping_insert len = (fl0, sl0)" by fastforce
  obtain f s where c: "class_of (blocks t i) = (f, s)" by fastforce
  have mem: "i \<in> set (bins f s)" using D(3) i c by auto
  note m = bin_member_class [OF bins mem]
  have fl_none: "free_lists t f' s' \<noteq> BLOCK_INDEX_NONE" if "bins f' s' \<noteq> []" for f' s'
    using that H(2) by blast
  note unf = none [unfolded iree_hal_memory_tlsf_find_suitable_block_def c0 Let_def prod.case]
  show ?thesis
  proof (cases "iree_hal_memory_tlsf_mapping_search len")
    case None
    then have "2 ^ 64 \<le> unat len + 2 ^ (highest_bit (unat len) - 5) - 1"
      using mapping_search_eq [OF len] by (simp split: if_splits)
    with unat_u64_lt [of "block_length (blocks t i)"] show ?thesis by simp
  next
    case (Some c')
    then obtain fl sl where ms: "iree_hal_memory_tlsf_mapping_search len = Some (fl, sl)" by (cases c') auto
    note sb = mapping_search_bounds [OF len ms]
    have z: "sl_bitmaps t fl AND push_bit sl (NOT 0) = 0"
      using unf ms fl_none sl_scan(2) [OF bins, of fl sl] by (auto split: if_splits)
    have z': "fl_bitmap t AND NOT (iree_shr_u64 (NOT 0) (63 - fl)) = 0"
      using unf ms z fl_none fl_scan(3) [OF bins sb(1)] by (auto split: if_splits)
    have "\<not> class_le (fl, sl) (f, s)"
      using mem sl_scan_empty [OF bins z, of s] fl_scan_empty [OF bins sb(1) z', of f s]
      by (auto simp: class_le_def)
    then have "?n < class_min fl sl"
      using m(2,3) sb(5) by (intro below_class_min) auto
    with sb(4) show ?thesis by simp
  qed
qed

end
