(* ===== verification/Frontier_Laws.thy ===== *)
theory Frontier_Laws
  imports Frontier
begin

text \<open>
  What the frontier operations compute. A frontier denotes the total function
  \<open>epoch_at\<close> from axes to epochs, zero where the axis is absent; the operations are shown to
  realise the pointwise order, the pointwise maximum and the pointwise comparison on it. The
  locale \<open>causal_join\<close> is the interface the allocators rely on.
\<close>

section \<open>Specification\<close>

type_synonym clock = "iree_async_frontier_entry_t list"

fun epoch_at :: "clock \<Rightarrow> iree_async_axis_t \<Rightarrow> u64" where
  "epoch_at [] a = 0"
| "epoch_at (e # es) a = (if axis e = a then epoch e else epoch_at es a)"

definition axes_sorted :: "clock \<Rightarrow> bool" where
  "axes_sorted es \<longleftrightarrow> sorted_wrt (\<lambda>x y. axis x < axis y) es"

definition clock_ok :: "clock \<Rightarrow> bool" where
  "clock_ok es \<longleftrightarrow> axes_sorted es \<and> (\<forall>e\<in>set es. epoch e \<noteq> 0)"

definition frontier_ok :: "iree_async_frontier_t \<Rightarrow> bool" where
  "frontier_ok f \<longleftrightarrow>
     entry_count f \<le> length (entries f) \<and> entry_count f \<le> 255 \<and> clock_ok (live f)"

definition clock_le :: "clock \<Rightarrow> clock \<Rightarrow> bool" where
  "clock_le x y \<longleftrightarrow> (\<forall>a. epoch_at x a \<le> epoch_at y a)"

definition compare_spec :: "clock \<Rightarrow> clock \<Rightarrow> iree_async_frontier_comparison_t" where
  "compare_spec x y =
     comparison_of_flags (\<not> clock_le y x) (\<not> clock_le x y)"

text \<open>The reference merge, left to right into fresh storage.\<close>

fun clock_join :: "clock \<Rightarrow> clock \<Rightarrow> clock" where
  "clock_join [] ys = ys"
| "clock_join xs [] = xs"
| "clock_join (x # xs) (y # ys) =
     (if axis x = axis y then \<lparr>axis = axis x, epoch = max (epoch x) (epoch y)\<rparr> # clock_join xs ys
      else if axis x < axis y then x # clock_join xs (y # ys)
      else y # clock_join (x # xs) ys)"

section \<open>Clocks\<close>

lemma axes_sorted_simps [simp]:
  "axes_sorted []"
  "axes_sorted (x # xs) \<longleftrightarrow> (\<forall>y\<in>set xs. axis x < axis y) \<and> axes_sorted xs"
  by (auto simp: axes_sorted_def)

lemma clock_ok_simps [simp]:
  "clock_ok []"
  "clock_ok (x # xs) \<longleftrightarrow> epoch x \<noteq> 0 \<and> (\<forall>y\<in>set xs. axis x < axis y) \<and> clock_ok xs"
  by (auto simp: clock_ok_def)

lemma axes_sorted_append [simp]:
  "axes_sorted (xs @ ys) \<longleftrightarrow>
     axes_sorted xs \<and> axes_sorted ys \<and> (\<forall>x\<in>set xs. \<forall>y\<in>set ys. axis x < axis y)"
  by (auto simp: axes_sorted_def sorted_wrt_append)

lemma clock_ok_sorted: "clock_ok es \<Longrightarrow> axes_sorted es"
  by (simp add: clock_ok_def)

lemma clock_ok_drop: "clock_ok es \<Longrightarrow> clock_ok (drop n es)"
  using sorted_wrt_drop [of _ es n] in_set_dropD [of _ n es]
  by (auto simp: clock_ok_def axes_sorted_def)

lemma clock_ok_take: "clock_ok es \<Longrightarrow> clock_ok (take n es)"
  using sorted_wrt_take [of _ es n] in_set_takeD [of _ n es]
  by (auto simp: clock_ok_def axes_sorted_def)

lemma epoch_at_notin: "a \<notin> axis ` set es \<Longrightarrow> epoch_at es a = 0"
  by (induction es) auto

lemma epoch_at_below: "\<forall>y\<in>set es. a < axis y \<Longrightarrow> epoch_at es a = 0"
  by (rule epoch_at_notin) auto

lemma epoch_at_mem: "axes_sorted es \<Longrightarrow> e \<in> set es \<Longrightarrow> epoch_at es (axis e) = epoch e"
  by (induction es) auto

lemma epoch_at_nonzero: "clock_ok es \<Longrightarrow> epoch_at es a \<noteq> 0 \<longleftrightarrow> a \<in> axis ` set es"
proof
  assume "clock_ok es" and "a \<in> axis ` set es"
  then show "epoch_at es a \<noteq> 0"
    by (auto simp: clock_ok_def epoch_at_mem)
qed (use epoch_at_notin in blast)

text \<open>A well-formed clock is determined by the epochs it denotes.\<close>

lemma epoch_at_inject:
  assumes "clock_ok xs" and "clock_ok ys" and "\<And>a. epoch_at xs a = epoch_at ys a"
  shows "xs = ys"
  using assms
proof (induction xs arbitrary: ys)
  case Nil
  then show ?case
    using epoch_at_nonzero [of ys] by (cases ys) force+
next
  case (Cons x xs)
  obtain y ys' where ys: "ys = y # ys'"
    using Cons.prems(1) Cons.prems(3) [of "axis x"] by (cases ys) auto
  have keys: "axis ` set (x # xs) = axis ` set ys"
    using Cons.prems epoch_at_nonzero [of "x # xs"] epoch_at_nonzero [of ys] by auto
  have min_x: "\<forall>a\<in>axis ` set (x # xs). axis x \<le> a" and min_y: "\<forall>a\<in>axis ` set ys. axis y \<le> a"
    using Cons.prems ys by (auto intro: less_imp_le)
  have "axis x \<in> axis ` set ys" and "axis y \<in> axis ` set (x # xs)"
    using keys ys by auto
  then have same: "axis x = axis y"
    using min_x min_y by (metis order_antisym)
  then have "epoch x = epoch y"
    using Cons.prems(3) [of "axis x"] ys by simp
  with same have "x = y" by simp
  moreover have "epoch_at xs a = epoch_at ys' a" for a
  proof (cases "a = axis x")
    case True
    then show ?thesis
      using Cons.prems ys same by (simp add: epoch_at_below)
  next
    case False
    then show ?thesis
      using Cons.prems(3) [of a] ys same by simp
  qed
  then have "xs = ys'"
    using Cons ys by simp
  ultimately show ?case using ys by simp
qed

section \<open>The join\<close>

lemma axes_clock_join: "axis ` set (clock_join xs ys) = axis ` set xs \<union> axis ` set ys"
  by (induction xs ys rule: clock_join.induct) auto

lemma clock_join_above:
  assumes "\<forall>x\<in>set xs. b < axis x" and "\<forall>y\<in>set ys. b < axis y"
  shows "\<forall>z\<in>set (clock_join xs ys). b < axis z"
proof
  fix z assume "z \<in> set (clock_join xs ys)"
  then have "axis z \<in> axis ` set xs \<union> axis ` set ys"
    using axes_clock_join [of xs ys] by blast
  with assms show "b < axis z" by auto
qed

lemma clock_join_ok: "clock_ok xs \<Longrightarrow> clock_ok ys \<Longrightarrow> clock_ok (clock_join xs ys)"
proof (induction xs ys rule: clock_join.induct)
  case (3 x xs y ys)
  consider (eq) "axis x = axis y" | (lt) "axis x < axis y" | (gt) "axis y < axis x"
    by (meson linorder_neqE)
  then show ?case
  proof cases
    case eq
    then have "\<forall>z\<in>set (clock_join xs ys). axis x < axis z"
      using "3.prems" by (intro clock_join_above) auto
    with eq "3.IH"(1) "3.prems" show ?thesis by (auto simp: max_def)
  next
    case lt
    then have "\<forall>z\<in>set (clock_join xs (y # ys)). axis x < axis z"
      using "3.prems" by (intro clock_join_above) (auto intro: less_trans [OF lt])
    with lt "3.IH"(2) "3.prems" show ?thesis by auto
  next
    case gt
    then have "\<forall>z\<in>set (clock_join (x # xs) ys). axis y < axis z"
      using "3.prems" by (intro clock_join_above) (auto intro: less_trans [OF gt])
    with gt "3.IH"(3) "3.prems" show ?thesis by auto
  qed
qed auto

lemma epoch_at_join:
  "clock_ok xs \<Longrightarrow> clock_ok ys \<Longrightarrow>
   epoch_at (clock_join xs ys) a = max (epoch_at xs a) (epoch_at ys a)"
proof (induction xs ys rule: clock_join.induct)
  case (3 x xs y ys)
  consider (eq) "axis x = axis y" | (lt) "axis x < axis y" | (gt) "axis y < axis x"
    by (meson linorder_neqE)
  then show ?case
  proof cases
    case eq
    with "3.IH"(1) "3.prems" show ?thesis by simp
  next
    case lt
    then have "epoch_at (y # ys) (axis x) = 0"
      using "3.prems" by (intro epoch_at_below) (auto intro: less_trans [OF lt])
    with lt "3.IH"(2) "3.prems" show ?thesis by auto
  next
    case gt
    then have "epoch_at (x # xs) (axis y) = 0"
      using "3.prems" by (intro epoch_at_below) (auto intro: less_trans [OF gt])
    with gt "3.IH"(3) "3.prems" show ?thesis by auto
  qed
qed auto

lemma length_clock_join_ge:
  "length xs \<le> length (clock_join xs ys)" "length ys \<le> length (clock_join xs ys)"
  by (induction xs ys rule: clock_join.induct) auto

lemma length_clock_join_le: "length (clock_join xs ys) \<le> length xs + length ys"
  by (induction xs ys rule: clock_join.induct) auto

section \<open>The join interface\<close>

text \<open>
  What a user of frontiers relies on: well-formedness is kept, the join is the pointwise maximum
  of the denoted epochs, and denotation is injective.
\<close>

locale causal_join =
  fixes ok :: "'f \<Rightarrow> bool"
    and at :: "'f \<Rightarrow> 'axis \<Rightarrow> 'e::linorder"
    and join :: "'f \<Rightarrow> 'f \<Rightarrow> 'f"
  assumes ok_join: "ok f \<Longrightarrow> ok g \<Longrightarrow> ok (join f g)"
    and at_join: "ok f \<Longrightarrow> ok g \<Longrightarrow> at (join f g) a = max (at f a) (at g a)"
    and at_inject: "ok f \<Longrightarrow> ok g \<Longrightarrow> (\<And>a. at f a = at g a) \<Longrightarrow> f = g"
begin

lemma join_commute: "ok f \<Longrightarrow> ok g \<Longrightarrow> join f g = join g f"
  by (rule at_inject) (simp_all add: ok_join at_join max.commute)

lemma join_assoc: "ok f \<Longrightarrow> ok g \<Longrightarrow> ok h \<Longrightarrow> join (join f g) h = join f (join g h)"
  by (rule at_inject) (simp_all add: ok_join at_join max.assoc)

lemma join_idem: "ok f \<Longrightarrow> join f f = f"
  by (rule at_inject) (simp_all add: ok_join at_join)

lemma join_upper: "ok f \<Longrightarrow> ok g \<Longrightarrow> at f a \<le> at (join f g) a \<and> at g a \<le> at (join f g) a"
  by (simp add: at_join)

lemma join_least:
  "ok f \<Longrightarrow> ok g \<Longrightarrow> (\<And>a. at f a \<le> at h a) \<Longrightarrow> (\<And>a. at g a \<le> at h a) \<Longrightarrow>
   at (join f g) a \<le> at h a"
  by (simp add: at_join)

lemma join_absorb: "ok f \<Longrightarrow> ok g \<Longrightarrow> (\<And>a. at f a \<le> at g a) \<Longrightarrow> join f g = g"
  by (rule at_inject) (simp_all add: ok_join at_join max.absorb2)

end

interpretation clocks: causal_join clock_ok epoch_at clock_join
  by unfold_locales (auto simp: clock_join_ok epoch_at_join intro: epoch_at_inject)

section \<open>The pointwise order, one entry at a time\<close>

lemma clock_le_refl [simp]: "clock_le xs xs"
  by (simp add: clock_le_def)

lemma clock_le_Nil [simp]: "clock_le [] ys"
  by (simp add: clock_le_def)

lemma clock_le_Nil_right: "clock_ok xs \<Longrightarrow> clock_le xs [] \<longleftrightarrow> xs = []"
  using epoch_at_nonzero [of xs] by (cases xs) (force simp: clock_le_def)+

lemma clock_le_same_axis:
  assumes "clock_ok (x # xs)" and "clock_ok (y # ys)" and "axis x = axis y"
  shows "clock_le (x # xs) (y # ys) \<longleftrightarrow> epoch x \<le> epoch y \<and> clock_le xs ys"
proof -
  have "epoch_at xs (axis x) = 0" and "epoch_at ys (axis x) = 0"
    using assms by (auto intro: epoch_at_below)
  then show ?thesis
    using assms(3) unfolding clock_le_def by (metis epoch_at.simps(2) order_refl)
qed

lemma clock_le_missing_right:
  assumes "clock_ok (x # xs)" and "clock_ok ys" and "\<forall>y\<in>set ys. axis x < axis y"
  shows "\<not> clock_le (x # xs) ys"
proof -
  have "epoch_at ys (axis x) = 0" using assms(3) by (rule epoch_at_below)
  then show ?thesis
    using assms(1) unfolding clock_le_def by (intro notI) (auto dest: spec [of _ "axis x"])
qed

lemma clock_le_extra_right:
  assumes "clock_ok (x # xs)" and "\<forall>y\<in>set ys. axis x < axis y"
  shows "clock_le ys (x # xs) \<longleftrightarrow> clock_le ys xs"
proof -
  have "epoch_at ys (axis x) = 0" using assms(2) by (rule epoch_at_below)
  moreover have "epoch_at xs (axis x) = 0" using assms(1) by (auto intro: epoch_at_below)
  ultimately have "epoch_at ys a \<le> epoch_at (x # xs) a \<longleftrightarrow> epoch_at ys a \<le> epoch_at xs a" for a
    by (cases "a = axis x") simp_all
  then show ?thesis
    unfolding clock_le_def by simp
qed

lemma clock_le_antisym: "clock_ok xs \<Longrightarrow> clock_ok ys \<Longrightarrow> clock_le xs ys \<Longrightarrow> clock_le ys xs \<Longrightarrow> xs = ys"
  by (rule epoch_at_inject) (auto simp: clock_le_def intro: order_antisym)

lemma clock_le_trans: "clock_le xs ys \<Longrightarrow> clock_le ys zs \<Longrightarrow> clock_le xs zs"
  unfolding clock_le_def by (meson order_trans)

lemma clock_le_join:
  "clock_ok xs \<Longrightarrow> clock_ok ys \<Longrightarrow> clock_le xs (clock_join xs ys)"
  "clock_ok xs \<Longrightarrow> clock_ok ys \<Longrightarrow> clock_le ys (clock_join xs ys)"
  by (simp_all add: clock_le_def epoch_at_join)

section \<open>Live entries\<close>

lemma frontier_okD:
  assumes "frontier_ok f"
  shows "entry_count f \<le> length (entries f)" "entry_count f \<le> 255" "clock_ok (live f)"
    "length (live f) = entry_count f"
  using assms by (auto simp: frontier_ok_def live_def)

lemma live_nth: "entry_count f \<le> length (entries f) \<Longrightarrow> i < entry_count f \<Longrightarrow> entries f ! i = live f ! i"
  by (simp add: live_def)

lemma drop_live:
  assumes "frontier_ok f" and "i < entry_count f"
  shows "drop i (live f) = entries f ! i # drop (Suc i) (live f)"
  using assms frontier_okD [of f] by (simp add: live_nth drop_Cons_nth)

lemma drop_live_ok: "frontier_ok f \<Longrightarrow> clock_ok (drop i (live f))"
  by (simp add: frontier_okD clock_ok_drop)

lemma drop_live_Nil: "frontier_ok f \<Longrightarrow> \<not> i < entry_count f \<Longrightarrow> drop i (live f) = []"
  by (simp add: frontier_okD)

lemma drop_live_Nil_iff: "frontier_ok f \<Longrightarrow> drop i (live f) = [] \<longleftrightarrow> \<not> i < entry_count f"
  by (auto simp: frontier_okD)

lemma drop_live_step_ok:
  "frontier_ok f \<Longrightarrow> i < entry_count f \<Longrightarrow> clock_ok (entries f ! i # drop (Suc i) (live f))"
  by (metis drop_live drop_live_ok)

lemmas live_step = drop_live drop_live_ok drop_live_Nil drop_live_step_ok

section \<open>Validation and axis matching\<close>

lemma validate_order_from_iff:
  "0 < i \<Longrightarrow> validate_order_from f i \<longleftrightarrow>
     (\<forall>k. i \<le> k \<and> k < entry_count f \<longrightarrow> axis (entries f ! (k - 1)) < axis (entries f ! k))"
  (is "_ \<Longrightarrow> _ \<longleftrightarrow> ?sorted_from i")
proof (induction f i rule: validate_order_from.induct)
  case (1 f i)
  let ?P = "\<lambda>k. axis (entries f ! (k - 1)) < axis (entries f ! k)"
  show ?case
  proof (cases "i < entry_count f")
    case True
    have "validate_order_from f i \<longleftrightarrow> ?P i \<and> validate_order_from f (Suc i)"
      using True by (auto simp: validate_order_from.simps [of f i] not_le)
    also have "\<dots> \<longleftrightarrow> ?P i \<and> (\<forall>k. Suc i \<le> k \<and> k < entry_count f \<longrightarrow> ?P k)"
      using 1 True by (meson not_le zero_less_Suc)
    also have "\<dots> \<longleftrightarrow> (\<forall>k. i \<le> k \<and> k < entry_count f \<longrightarrow> ?P k)"
      using True by (metis Suc_leI Suc_le_lessD le_neq_implies_less less_imp_le order_refl)
    finally show ?thesis .
  qed (auto simp: validate_order_from.simps [of f i])
qed

lemma validate_epochs_from_iff:
  "validate_epochs_from f i \<longleftrightarrow> (\<forall>k. i \<le> k \<and> k < entry_count f \<longrightarrow> epoch (entries f ! k) \<noteq> 0)"
proof (induction f i rule: validate_epochs_from.induct)
  case (1 f i)
  show ?case
  proof (cases "i < entry_count f")
    case True
    have "validate_epochs_from f i \<longleftrightarrow> epoch (entries f ! i) \<noteq> 0 \<and> validate_epochs_from f (Suc i)"
      using True by (simp add: validate_epochs_from.simps [of f i])
    also have "\<dots> \<longleftrightarrow> epoch (entries f ! i) \<noteq> 0 \<and>
        (\<forall>k. Suc i \<le> k \<and> k < entry_count f \<longrightarrow> epoch (entries f ! k) \<noteq> 0)"
      using 1 True by meson
    also have "\<dots> \<longleftrightarrow> (\<forall>k. i \<le> k \<and> k < entry_count f \<longrightarrow> epoch (entries f ! k) \<noteq> 0)"
      using True by (metis Suc_leI Suc_le_lessD le_neq_implies_less less_imp_le order_refl)
    finally show ?thesis .
  qed (auto simp: validate_epochs_from.simps [of f i])
qed

lemma axes_sorted_adjacent:
  "axes_sorted es \<longleftrightarrow> (\<forall>k. 1 \<le> k \<and> k < length es \<longrightarrow> axis (es ! (k - 1)) < axis (es ! k))"
proof -
  have "axes_sorted es \<longleftrightarrow> sorted_wrt (<) (map axis es)"
    by (simp add: axes_sorted_def sorted_wrt_map)
  also have "\<dots> \<longleftrightarrow> (\<forall>i. Suc i < length es \<longrightarrow> axis (es ! i) < axis (es ! Suc i))"
    by (simp add: sorted_wrt_iff_nth_Suc_transp)
  also have "\<dots> \<longleftrightarrow> (\<forall>k. 1 \<le> k \<and> k < length es \<longrightarrow> axis (es ! (k - 1)) < axis (es ! k))"
    by (metis One_nat_def Suc_le_D diff_Suc_1 le_add1 plus_1_eq_Suc)
  finally show ?thesis .
qed

lemma axes_match_from_iff:
  assumes "frontier_ok a" and "frontier_ok b" and "entry_count a = entry_count b"
  shows "axes_match_from a b k \<longleftrightarrow> map axis (drop k (live a)) = map axis (drop k (live b))"
  using assms
proof (induction a b k rule: axes_match_from.induct)
  case (1 a b k)
  show ?case
  proof (cases "k < entry_count a")
    case True
    have "axes_match_from a b k \<longleftrightarrow>
        axis (entries a ! k) = axis (entries b ! k) \<and> axes_match_from a b (Suc k)"
      using True by (simp add: axes_match_from.simps [of a b k])
    with "1.IH" "1.prems" True show ?thesis
      by (cases "axis (entries a ! k) = axis (entries b ! k)") (simp_all add: drop_live)
  next
    case False
    with "1.prems" show ?thesis
      by (simp add: axes_match_from.simps [of a b k] drop_live_Nil)
  qed
qed

section \<open>Comparison\<close>

lemma compare_scan_eq:
  assumes "frontier_ok a" and "frontier_ok b"
  shows "compare_scan a b i j l g =
     (l \<or> \<not> clock_le (drop j (live b)) (drop i (live a)),
      g \<or> \<not> clock_le (drop i (live a)) (drop j (live b)))"
  using assms
proof (induction a b i j l g rule: compare_scan.induct)
  case (1 a b i j l g)
  let ?x = "entries a ! i" and ?y = "entries b ! j"
  show ?case
  proof (cases "i < entry_count a \<and> j < entry_count b")
    case True
    note oks = drop_live_step_ok [OF 1(4), of i] drop_live_step_ok [OF 1(5), of j]
    consider (eq) "axis ?x = axis ?y" | (lt) "axis ?x < axis ?y" | (gt) "axis ?y < axis ?x"
      by (meson linorder_neqE)
    then show ?thesis
    proof cases
      case eq
      then have "compare_scan a b i j l g =
          compare_scan a b (Suc i) (Suc j) (l \<or> epoch ?x < epoch ?y) (g \<or> epoch ?x > epoch ?y)"
        using True by (simp add: compare_scan.simps [of a b i j])
      then show ?thesis
        using True "1.IH"(1) "1.prems" oks eq
        by (simp add: drop_live clock_le_same_axis not_le)
    next
      case lt
      have "\<forall>y\<in>set (?y # drop (Suc j) (live b)). axis ?x < axis y"
        using oks True lt by (auto intro: less_trans)
      moreover have "compare_scan a b i j l g = compare_scan a b (Suc i) j l True"
        using True lt by (auto simp: compare_scan.simps [of a b i j])
      ultimately show ?thesis
        using True "1.IH"(2) "1.prems" oks lt
        by (simp add: drop_live clock_le_missing_right clock_le_extra_right)
    next
      case gt
      have "\<forall>x\<in>set (?x # drop (Suc i) (live a)). axis ?y < axis x"
        using oks True gt by (auto intro: less_trans)
      moreover have "compare_scan a b i j l g = compare_scan a b i (Suc j) True g"
        using True gt by (auto simp: compare_scan.simps [of a b i j])
      ultimately show ?thesis
        using True "1.IH"(3) "1.prems" oks gt
        by (simp add: drop_live clock_le_missing_right clock_le_extra_right)
    qed
  next
    case False
    with 1(4,5) show ?thesis
      by (auto simp: compare_scan.simps [of a b i j] drop_live_Nil clock_le_Nil_right
          drop_live_ok drop_live_Nil_iff frontier_okD(4))
  qed
qed

lemma compare_epochs_from_eq:
  assumes "frontier_ok a" and "frontier_ok b" and "entry_count a = entry_count b"
    and "map axis (live a) = map axis (live b)" and "\<not> (l \<and> g)"
  shows "compare_epochs_from a b k l g =
     comparison_of_flags (l \<or> \<not> clock_le (drop k (live b)) (drop k (live a)))
       (g \<or> \<not> clock_le (drop k (live a)) (drop k (live b)))"
  using assms
proof (induction a b k l g rule: compare_epochs_from.induct)
  case (1 a b k l g)
  let ?x = "entries a ! k" and ?y = "entries b ! k"
  let ?l = "l \<or> epoch ?x < epoch ?y" and ?g = "g \<or> epoch ?x > epoch ?y"
  show ?case
  proof (cases "k < entry_count a")
    case True
    have same: "axis ?x = axis ?y"
      using "1.prems" True frontier_okD by (metis live_nth nth_map)
    have step: "drop k (live a) = ?x # drop (Suc k) (live a)"
      "drop k (live b) = ?y # drop (Suc k) (live b)"
      using "1.prems" True by (simp_all add: drop_live)
    have le: "clock_le (drop k (live a)) (drop k (live b)) \<longleftrightarrow>
        epoch ?x \<le> epoch ?y \<and> clock_le (drop (Suc k) (live a)) (drop (Suc k) (live b))"
      "clock_le (drop k (live b)) (drop k (live a)) \<longleftrightarrow>
        epoch ?y \<le> epoch ?x \<and> clock_le (drop (Suc k) (live b)) (drop (Suc k) (live a))"
      unfolding step using "1.prems" True same
      by (simp_all add: clock_le_same_axis drop_live_step_ok del: clock_ok_simps)
    show ?thesis
    proof (cases "?l \<and> ?g")
      case True
      then show ?thesis
        using \<open>k < entry_count a\<close> unfolding le
        by (auto simp: compare_epochs_from.simps [of a b k] comparison_of_flags_def not_le)
    next
      case False
      then have "compare_epochs_from a b k l g = compare_epochs_from a b (Suc k) ?l ?g"
        using True by (auto simp: compare_epochs_from.simps [of a b k] Let_def)
      also have "\<dots> = comparison_of_flags (?l \<or> \<not> clock_le (drop (Suc k) (live b)) (drop (Suc k) (live a)))
          (?g \<or> \<not> clock_le (drop (Suc k) (live a)) (drop (Suc k) (live b)))"
        using "1.IH" [OF True refl refl False] "1.prems" False by blast
      finally show ?thesis unfolding le by (simp add: not_le)
    qed
  next
    case False
    with "1.prems" show ?thesis
      by (auto simp: compare_epochs_from.simps [of a b k] drop_live_Nil comparison_of_flags_def)
  qed
qed

lemma map_axis_length: "map axis xs = map axis ys \<Longrightarrow> length xs = length ys"
  by (metis length_map)

lemma same_axes_iff:
  "frontier_ok a \<Longrightarrow> frontier_ok b \<Longrightarrow>
   entry_count a = entry_count b \<and> axes_match_from a b 0 \<longleftrightarrow> map axis (live a) = map axis (live b)"
  using axes_match_from_iff [of a b 0] map_axis_length [of "live a" "live b"] frontier_okD(4)
  by auto

lemma compare_eq_spec:
  "frontier_ok a \<Longrightarrow> frontier_ok b \<Longrightarrow>
   iree_async_frontier_compare a b = compare_spec (live a) (live b)"
  using compare_epochs_from_eq [of a b False False 0] same_axes_iff [of a b]
  by (auto simp: iree_async_frontier_compare_def compare_spec_def compare_scan_eq)

section \<open>Merge\<close>

lemma live_update:
  "live (t\<lparr>entries := (entries t)[k := e]\<rparr>) = (live t)[k := e]"
  by (simp add: live_def take_update_swap)

lemma clock_ok_update:
  assumes "clock_ok es" and "k < length es" and "axis e = axis (es ! k)" and "epoch e \<noteq> 0"
  shows "clock_ok (es[k := e])" "map axis (es[k := e]) = map axis es"
proof -
  show "map axis (es[k := e]) = map axis es"
    using assms by (metis list_update_id map_update)
  moreover have "axes_sorted xs \<longleftrightarrow> sorted_wrt (<) (map axis xs)" for xs
    by (simp add: axes_sorted_def sorted_wrt_map)
  ultimately have "axes_sorted (es[k := e])"
    using assms(1) by (simp add: clock_ok_def)
  then show "clock_ok (es[k := e])"
    using assms set_update_subset_insert [of es k e] by (auto simp: clock_ok_def)
qed

lemma merge_epochs_from_eq:
  assumes "frontier_ok t" and "frontier_ok s" and "map axis (live t) = map axis (live s)"
    and "merge_epochs_from t s k d = (t', d')"
  shows "live t' = take k (live t) @ clock_join (drop k (live t)) (drop k (live s)) \<and>
     d' = (d \<and> clock_le (drop k (live t)) (drop k (live s))) \<and>
     entry_count t' = entry_count t \<and> length (entries t') = length (entries t)"
  using assms
proof (induction t s k d arbitrary: t' d' rule: merge_epochs_from.induct)
  case (1 t s k d)
  let ?x = "entries t ! k" and ?y = "entries s ! k"
  have count: "entry_count s = entry_count t"
    using "1.prems" map_axis_length frontier_okD(4) by metis
  show ?case
  proof (cases "k < entry_count t")
    case True
    have lens: "k < length (live t)" "k < length (live s)"
      using "1.prems" True count by (simp_all add: frontier_okD)
    have nths: "live t ! k = ?x" "live s ! k = ?y"
      using True count by (simp_all add: live_def)
    have same: "axis ?x = axis ?y"
      using "1.prems"(3) lens nths by (metis nth_map)
    have step: "drop k (live t) = ?x # drop (Suc k) (live t)"
      "drop k (live s) = ?y # drop (Suc k) (live s)"
      using "1.prems" True count by (simp_all add: drop_live)
    have le: "clock_le (drop k (live t)) (drop k (live s)) \<longleftrightarrow>
        epoch ?x \<le> epoch ?y \<and> clock_le (drop (Suc k) (live t)) (drop (Suc k) (live s))"
      unfolding step using "1.prems" True same count
      by (simp add: clock_le_same_axis drop_live_step_ok del: clock_ok_simps)
    have tk: "take (Suc k) (live t) = take k (live t) @ [?x]"
      using lens nths by (simp add: take_Suc_nth)
    consider (gt) "epoch ?y > epoch ?x" | (lt) "epoch ?y < epoch ?x" | (eq) "epoch ?y = epoch ?x"
      by (meson linorder_neqE)
    then show ?thesis
    proof cases
      case gt
      define e where "e = ?x\<lparr>epoch := epoch ?y\<rparr>"
      define u where "u = t\<lparr>entries := (entries t)[k := e]\<rparr>"
      have e: "axis e = axis (live t ! k)" "epoch e \<noteq> 0"
        using gt nths by (auto simp: e_def)
      have lu: "live u = (live t)[k := e]" by (simp add: u_def live_update)
      note upd = clock_ok_update [OF frontier_okD(3) [OF "1.prems"(1)] lens(1) e, folded lu]
      have ok: "frontier_ok u" "map axis (live u) = map axis (live s)"
        using frontier_okD(1,2) [OF "1.prems"(1)] upd "1.prems"(3)
        by (simp_all add: frontier_ok_def u_def)
      have "merge_epochs_from t s k d = merge_epochs_from u s (Suc k) d"
        using True gt by (simp add: merge_epochs_from.simps [of t s k d] u_def e_def)
      with "1.prems"(4) have rec: "merge_epochs_from u s (Suc k) d = (t', d')" by simp
      have "live t' = take (Suc k) (live u) @ clock_join (drop (Suc k) (live u)) (drop (Suc k) (live s)) \<and>
          d' = (d \<and> clock_le (drop (Suc k) (live u)) (drop (Suc k) (live s))) \<and>
          entry_count t' = entry_count u \<and> length (entries t') = length (entries u)"
        by (rule "1.IH"(1) [OF True gt, folded e_def, folded u_def, OF ok(1) "1.prems"(2) ok(2) rec])
      moreover have "take (Suc k) (live u) = take k (live t) @ [e]" "drop (Suc k) (live u) = drop (Suc k) (live t)"
        using lens by (simp_all add: lu take_Suc_nth)
      moreover have "e = \<lparr>axis = axis ?x, epoch = max (epoch ?x) (epoch ?y)\<rparr>"
        using gt by (simp add: e_def max_def)
      ultimately show ?thesis
        using same gt unfolding step by (simp add: u_def le [unfolded step] less_imp_le)
    next
      case lt
      then have "merge_epochs_from t s k d = merge_epochs_from t s (Suc k) False"
        using True by (auto simp: merge_epochs_from.simps [of t s k d])
      with "1.prems"(4) have "merge_epochs_from t s (Suc k) False = (t', d')" by simp
      note ih = "1.IH"(2) [OF True less_not_sym [OF lt] lt "1.prems"(1-3) this]
      have "\<lparr>axis = axis ?x, epoch = max (epoch ?x) (epoch ?y)\<rparr> = ?x"
        using lt by (simp add: max_def)
      then show ?thesis
        using ih tk same lt unfolding step by (simp add: le [unfolded step] not_le)
    next
      case eq
      then have "merge_epochs_from t s k d = merge_epochs_from t s (Suc k) d"
        using True by (simp add: merge_epochs_from.simps [of t s k d])
      with "1.prems"(4) have "merge_epochs_from t s (Suc k) d = (t', d')" by simp
      note ih = "1.IH"(3) [OF True _ _ "1.prems"(1-3) this]
      have "\<lparr>axis = axis ?x, epoch = max (epoch ?x) (epoch ?y)\<rparr> = ?x"
        using eq by simp
      then show ?thesis
        using ih tk same eq unfolding step by (simp add: le [unfolded step])
    qed
  next
    case False
    with "1.prems" count show ?thesis
      by (simp add: merge_epochs_from.simps [of t s k d] drop_live_Nil frontier_okD)
  qed
qed

lemma clock_join_Nil_right [simp]: "clock_join xs [] = xs"
  by (cases xs) simp_all

lemma merge_count_from_eq:
  assumes "frontier_ok t" and "frontier_ok s"
  shows "merge_count_from t s i j m d =
     (m + length (clock_join (drop i (live t)) (drop j (live s))),
      d \<and> clock_le (drop i (live t)) (drop j (live s)))"
  using assms
proof (induction t s i j m d rule: merge_count_from.induct)
  case (1 t s i j m d)
  let ?x = "entries t ! i" and ?y = "entries s ! j"
  show ?case
  proof (cases "i < entry_count t \<and> j < entry_count s")
    case True
    note oks = drop_live_step_ok [OF "1.prems"(1), of i] drop_live_step_ok [OF "1.prems"(2), of j]
    have step: "drop i (live t) = ?x # drop (Suc i) (live t)"
      "drop j (live s) = ?y # drop (Suc j) (live s)"
      using "1.prems" True by (simp_all add: drop_live)
    consider (eq) "axis ?x = axis ?y" | (lt) "axis ?x < axis ?y" | (gt) "axis ?y < axis ?x"
      by (meson linorder_neqE)
    then show ?thesis
    proof cases
      case eq
      then have "merge_count_from t s i j m d = merge_count_from t s (Suc i) (Suc j) (Suc m)
          (if epoch ?x > epoch ?y then False else d)"
        using True by (simp add: merge_count_from.simps [of t s i j])
      with "1.IH"(1) [OF True eq "1.prems"] oks True eq show ?thesis
        unfolding step by (auto simp: clock_le_same_axis not_le simp del: clock_ok_simps)
    next
      case lt
      have above: "\<forall>y\<in>set (?y # drop (Suc j) (live s)). axis ?x < axis y"
        using oks True lt by (auto intro: less_trans)
      have "merge_count_from t s i j m d = merge_count_from t s (Suc i) j (Suc m) False"
        using True lt by (auto simp: merge_count_from.simps [of t s i j])
      with "1.IH"(2) [OF True less_imp_neq [OF lt] lt "1.prems"] above oks True lt show ?thesis
        unfolding step by (auto simp: clock_le_missing_right simp del: clock_ok_simps)
    next
      case gt
      have above: "\<forall>x\<in>set (?x # drop (Suc i) (live t)). axis ?y < axis x"
        using oks True gt by (auto intro: less_trans)
      have "merge_count_from t s i j m d = merge_count_from t s i (Suc j) (Suc m) d"
        using True gt by (auto simp: merge_count_from.simps [of t s i j])
      with "1.IH"(3) [OF True _ less_not_sym [OF gt] "1.prems"] above oks True gt show ?thesis
        unfolding step by (auto simp: clock_le_extra_right simp del: clock_ok_simps)
    qed
  next
    case False
    then consider "drop i (live t) = []" | "drop j (live s) = []"
      using "1.prems" drop_live_Nil by blast
    then show ?thesis
      using False "1.prems" frontier_okD(4) [of t] frontier_okD(4) [of s]
        clock_le_Nil_right [OF drop_live_ok [OF "1.prems"(1)], of i]
      by cases (auto simp: merge_count_from.simps [of t s i j])
  qed
qed

lemma clock_join_snoc_left:
  "\<forall>z\<in>set xs \<union> set ys. axis z < axis x \<Longrightarrow> clock_join (xs @ [x]) ys = clock_join xs ys @ [x]"
proof (induction xs ys rule: clock_join.induct)
  case (1 ys)
  then show ?case by (induction ys) auto
qed auto

lemma clock_join_snoc_right:
  "\<forall>z\<in>set xs \<union> set ys. axis z < axis y \<Longrightarrow> clock_join xs (ys @ [y]) = clock_join xs ys @ [y]"
proof (induction xs ys rule: clock_join.induct)
  case (2 x xs)
  then show ?case by (induction xs arbitrary: x) auto
qed auto

lemma clock_join_snoc_both:
  "\<forall>z\<in>set xs \<union> set ys. axis z < axis x \<Longrightarrow> axis x = axis y \<Longrightarrow>
   clock_join (xs @ [x]) (ys @ [y]) =
     clock_join xs ys @ [\<lparr>axis = axis x, epoch = max (epoch x) (epoch y)\<rparr>]"
proof (induction xs ys rule: clock_join.induct)
  case (1 ys)
  then show ?case by (induction ys) auto
next
  case (2 x' xs)
  then show ?case by (induction xs arbitrary: x') auto
qed auto

text \<open>
  The in-place pass never reads a cell it has already overwritten: with the write index at the
  length of the merge of the two unread prefixes, the array ends up holding that merge followed
  by what was above the write index.
\<close>

lemma merge_down_eq:
  assumes "nt \<le> length es" and "ns \<le> length src"
    and "axes_sorted (take nt es)" and "axes_sorted (take ns src)"
    and "w = length (clock_join (take nt es) (take ns src))" and "w \<le> length es"
  shows "merge_down es src nt ns w = clock_join (take nt es) (take ns src) @ drop w es"
  using assms
proof (induction es src nt ns w rule: merge_down.induct)
  case (1 es src ti si w)
  let ?t = "take ti es" and ?s = "take si src" and ?x = "es ! ti" and ?y = "src ! si"
  have split: "take (Suc ti) es = ?t @ [?x]" "take (Suc si) src = ?s @ [?y]"
    using "1.prems" by (simp_all add: take_Suc_nth)
  have below: "\<forall>z\<in>set ?t. axis z < axis ?x" "\<forall>z\<in>set ?s. axis z < axis ?y"
    and sorted: "axes_sorted ?t" "axes_sorted ?s"
    using "1.prems"(3,4) by (auto simp: split)
  note bounds = "1.prems"(1,2) "1.prems"(3,4) [unfolded split] "1.prems"(6)
  have w5: "w = length (clock_join (?t @ [?x]) (?s @ [?y]))"
    using "1.prems"(5) by (simp add: split)
  consider (gt) "axis ?x > axis ?y" | (lt) "axis ?x < axis ?y" | (eq) "axis ?x = axis ?y"
    by (meson linorder_neqE)
  then show ?case
  proof cases
    case gt
    define v where "v = length (clock_join ?t (?s @ [?y]))"
    have join: "clock_join (?t @ [?x]) (?s @ [?y]) = clock_join ?t (?s @ [?y]) @ [?x]"
      using below gt by (intro clock_join_snoc_left) (auto intro: less_trans)
    have w: "w = Suc v" using w5 by (simp add: join v_def)
    have "ti \<le> v"
      using length_clock_join_ge(1) [of ?t "?s @ [?y]"] bounds(1) by (simp add: v_def)
    then have "merge_down (es[v := ?x]) src ti (Suc si) v = clock_join ?t (?s @ [?y]) @ drop v (es[v := ?x])"
      using "1.IH"(1) [OF gt] bounds sorted by (simp add: w split v_def)
    then show ?thesis
      using gt bounds(5) by (simp add: split join w drop_Cons_nth)
  next
    case lt
    define v where "v = length (clock_join (?t @ [?x]) ?s)"
    have join: "clock_join (?t @ [?x]) (?s @ [?y]) = clock_join (?t @ [?x]) ?s @ [?y]"
      using below lt by (intro clock_join_snoc_right) (auto intro: less_trans)
    have w: "w = Suc v" using w5 by (simp add: join v_def)
    have "Suc ti \<le> v"
      using length_clock_join_ge(1) [of "?t @ [?x]" ?s] bounds(1) by (simp add: v_def)
    then have "merge_down (es[v := ?y]) src (Suc ti) si v = clock_join (?t @ [?x]) ?s @ drop v (es[v := ?y])"
      using "1.IH"(2) [OF less_not_sym [OF lt] lt] bounds sorted by (simp add: w split v_def)
    then show ?thesis
      using lt less_not_sym [OF lt] bounds(5) by (simp add: split join w drop_Cons_nth)
  next
    case eq
    let ?e = "\<lparr>axis = axis ?x, epoch = max (epoch ?x) (epoch ?y)\<rparr>"
    define v where "v = length (clock_join ?t ?s)"
    have join: "clock_join (?t @ [?x]) (?s @ [?y]) = clock_join ?t ?s @ [?e]"
      using below eq by (intro clock_join_snoc_both) auto
    have w: "w = Suc v" using w5 by (simp add: join v_def)
    have "ti \<le> v"
      using length_clock_join_ge(1) [of ?t ?s] bounds(1) by (simp add: v_def)
    then have "merge_down (es[v := ?e]) src ti si v = clock_join ?t ?s @ drop v (es[v := ?e])"
      using "1.IH"(3) eq bounds sorted by (simp add: w v_def)
    then show ?thesis
      using eq bounds(5) by (simp add: split join w drop_Cons_nth)
  qed
next
  case (2 es src si w)
  have split: "take (Suc si) src = take si src @ [src ! si]"
    using "2.prems" by (simp add: take_Suc_nth)
  have w: "w = Suc si" using "2.prems" by simp
  have "merge_down (es[si := src ! si]) src 0 si si = take si src @ drop si (es[si := src ! si])"
    using "2.IH" "2.prems"(1-4,6) by (simp add: w split)
  then show ?case
    using "2.prems"(6) by (simp add: split w drop_Cons_nth)
next
  case (3 es src ti w)
  then show ?case by (cases ti) (auto simp: min_def)
qed

lemma merge_impl_fits:
  assumes t: "frontier_ok t" and s: "frontier_ok s"
    and cap: "entry_count t \<le> cap" "cap \<le> length (entries t)" "cap \<le> 255"
    and fits: "length (clock_join (live t) (live s)) \<le> cap"
  shows "\<exists>t'. iree_async_frontier_merge_impl t cap s = (True, t', clock_le (live t) (live s)) \<and>
     live t' = clock_join (live t) (live s) \<and> frontier_ok t' \<and> length (entries t') = length (entries t)"
proof -
  note ok = frontier_okD [OF t] frontier_okD [OF s]
  have join_ok: "clock_ok (clock_join (live t) (live s))"
    using ok by (simp add: clock_join_ok)
  consider (empty) "entry_count s = 0" | (same) "entry_count s \<noteq> 0" "map axis (live t) = map axis (live s)"
    | (diff) "entry_count s \<noteq> 0" "map axis (live t) \<noteq> map axis (live s)"
    by blast
  then show ?thesis
  proof cases
    case empty
    then have "live s = []" using ok by simp
    moreover have "clock_le (live t) [] \<longleftrightarrow> entry_count t = 0"
      using ok clock_le_Nil_right [of "live t"] by auto
    ultimately show ?thesis
      using empty t by (simp add: iree_async_frontier_merge_impl_def)
  next
    case same
    obtain t' d where m: "merge_epochs_from t s 0 True = (t', d)" by fastforce
    note eq = merge_epochs_from_eq [OF t s same(2) m]
    have "frontier_ok t'"
      using eq ok join_ok by (simp add: frontier_ok_def)
    then show ?thesis
      using eq m same same_axes_iff [OF t s] by (auto simp: iree_async_frontier_merge_impl_def)
  next
    case diff
    let ?m = "length (clock_join (live t) (live s))"
    have "merge_down (entries t) (entries s) (entry_count t) (entry_count s) ?m =
        clock_join (live t) (live s) @ drop ?m (entries t)"
      using merge_down_eq [of "entry_count t" "entries t" "entry_count s" "entries s" ?m] ok fits cap
      by (simp add: live_def clock_ok_sorted)
    moreover have "merge_count_from t s 0 0 0 True = (?m, clock_le (live t) (live s))"
      using merge_count_from_eq [OF t s, of 0 0 0 True] by simp
    ultimately show ?thesis
      using diff same_axes_iff [OF t s] fits cap join_ok
      by (auto simp: iree_async_frontier_merge_impl_def frontier_ok_def live_def)
  qed
qed

lemma merge_impl_overflow:
  assumes t: "frontier_ok t" and s: "frontier_ok s" and cap: "entry_count t \<le> cap"
    and over: "cap < length (clock_join (live t) (live s))"
  shows "iree_async_frontier_merge_impl t cap s = (False, t, False)"
proof -
  note ok = frontier_okD [OF t] frontier_okD [OF s]
  have "entry_count s \<noteq> 0"
  proof
    assume "entry_count s = 0"
    then have "live s = []" using ok by simp
    then show False using over ok cap by (cases "live t") simp_all
  qed
  moreover have "map axis (live t) \<noteq> map axis (live s)"
  proof
    assume same: "map axis (live t) = map axis (live s)"
    obtain t' d where m: "merge_epochs_from t s 0 True = (t', d)" by fastforce
    have "length (live t') \<le> entry_count t"
      using merge_epochs_from_eq [OF t s same m] by (simp add: live_def)
    then show False
      using merge_epochs_from_eq [OF t s same m] over cap by simp
  qed
  ultimately show ?thesis
    using same_axes_iff [OF t s] merge_count_from_eq [OF t s, of 0 0 0 True] over
    by (auto simp: iree_async_frontier_merge_impl_def)
qed

section \<open>Undominated entries\<close>

definition undominated :: "clock \<Rightarrow> clock \<Rightarrow> clock" where
  "undominated reference target = filter (\<lambda>e. epoch e > epoch_at reference (axis e)) target"

lemma emit_take:
  "emit_undominated cap e (length us, take cap us) = (length (us @ [e]), take cap (us @ [e]))"
  by (simp add: emit_undominated_def min_def)

lemma undominated_step_same:
  assumes "clock_ok (x # xs)" and "clock_ok (y # ys)" and "axis x = axis y"
  shows "undominated (x # xs) (y # ys) = (if epoch y > epoch x then [y] else []) @ undominated xs ys"
  using assms by (auto simp: undominated_def intro!: filter_cong)

lemma undominated_step_less:
  assumes "\<forall>y\<in>set ys. axis x < axis y"
  shows "undominated (x # xs) ys = undominated xs ys"
  using assms by (auto simp: undominated_def intro!: filter_cong)

lemma undominated_step_greater:
  assumes "clock_ok (y # ys)" and "\<forall>x\<in>set xs. axis y < axis x"
  shows "undominated xs (y # ys) = y # undominated xs ys"
  using assms by (simp add: undominated_def epoch_at_below word_gt_0)

lemma undominated_Nil [simp]: "undominated xs [] = []"
  by (simp add: undominated_def)

lemma undominated_scan_eq:
  assumes "frontier_ok r" and "frontier_ok t"
  shows "acc = (length us, take cap us) \<Longrightarrow>
     undominated_scan r t cap i j acc =
       (let vs = us @ undominated (drop i (live r)) (drop j (live t)) in (length vs, take cap vs))"
  using assms
proof (induction r t cap i j acc arbitrary: us rule: undominated_scan.induct)
  case (1 r t cap i j acc)
  let ?x = "entries r ! i" and ?y = "entries t ! j"
  show ?case
  proof (cases "j < entry_count t")
    case False
    then have "undominated_scan r t cap i j acc = acc"
      by (simp add: undominated_scan.simps [of r t cap i j acc])
    with "1.prems" False show ?thesis by (simp add: drop_live_Nil)
  next
    case True
    note oky = drop_live_step_ok [OF "1.prems"(3) True]
    note stepy = drop_live [OF "1.prems"(3) True]
    have "i < entry_count r \<and> axis ?x = axis ?y \<or> i < entry_count r \<and> axis ?x < axis ?y \<or>
        (i < entry_count r \<longrightarrow> axis ?y < axis ?x)"
      by (meson linorder_neqE)
    then consider (eq) "i < entry_count r" "axis ?x = axis ?y" | (lt) "i < entry_count r" "axis ?x < axis ?y"
      | (gt) "i < entry_count r \<longrightarrow> axis ?y < axis ?x"
      by blast
    then show ?thesis
    proof cases
      case eq
      note okx = drop_live_step_ok [OF "1.prems"(2) eq(1)]
      define acc' where "acc' = (if epoch ?y > epoch ?x then emit_undominated cap ?y acc else acc)"
      define us' where "us' = us @ (if epoch ?y > epoch ?x then [?y] else [])"
      have "acc' = (length us', take cap us')"
        using "1.prems"(1) emit_take [of cap ?y us] by (simp add: acc'_def us'_def)
      from "1.IH"(1) [OF conjI [OF eq(1) True] eq(2), folded acc'_def, OF this "1.prems"(2,3)]
      show ?thesis
        using eq True undominated_step_same [OF okx oky eq(2)]
        by (simp add: undominated_scan.simps [of r t cap i j acc] acc'_def [symmetric]
            drop_live [OF "1.prems"(2) eq(1)] stepy us'_def)
    next
      case lt
      note okx = drop_live_step_ok [OF "1.prems"(2) lt(1)]
      have above: "\<forall>y\<in>set (?y # drop (Suc j) (live t)). axis ?x < axis y"
        using oky lt by (auto intro: less_trans)
      from "1.IH"(2) [OF conjI [OF lt(1) True] less_imp_neq [OF lt(2)] lt(2) "1.prems"]
      show ?thesis
        using lt True undominated_step_less [OF above]
        by (auto simp: undominated_scan.simps [of r t cap i j acc] drop_live [OF "1.prems"(2) lt(1)] stepy)
    next
      case gt
      have above: "\<forall>x\<in>set (drop i (live r)). axis ?y < axis x"
      proof (cases "i < entry_count r")
        case inside: True
        then show ?thesis
          using gt drop_live [OF "1.prems"(2) inside] drop_live_step_ok [OF "1.prems"(2) inside]
          by (auto intro: less_trans)
      qed (use "1.prems"(2) drop_live_Nil in simp)
      have step: "undominated_scan r t cap i j acc =
          undominated_scan r t cap i (Suc j) (emit_undominated cap ?y acc)"
        using gt True by (auto simp: undominated_scan.simps [of r t cap i j acc])
      have acc': "emit_undominated cap ?y acc = (length (us @ [?y]), take cap (us @ [?y]))"
        using "1.prems"(1) emit_take by simp
      have "undominated_scan r t cap i (Suc j) (emit_undominated cap ?y acc) =
          (let vs = (us @ [?y]) @ undominated (drop i (live r)) (drop (Suc j) (live t))
           in (length vs, take cap vs))"
        using "1.IH"(3) [OF _ _ _ acc' "1.prems"(2,3)] "1.IH"(4) [OF _ True acc' "1.prems"(2,3)] gt True
        by (cases "i < entry_count r") auto
      then show ?thesis
        unfolding step using undominated_step_greater [OF oky above] by (simp add: stepy)
    qed
  qed
qed


lemma undominated_same_axes:
  assumes "frontier_ok r" and "frontier_ok t" and "map axis (live r) = map axis (live t)"
  shows "acc = (length us, take cap us) \<Longrightarrow>
     undominated_epochs_from r t cap k acc =
       (let vs = us @ undominated (drop k (live r)) (drop k (live t)) in (length vs, take cap vs))"
  using assms
proof (induction r t cap k acc arbitrary: us rule: undominated_epochs_from.induct)
  case (1 r t cap k acc)
  let ?x = "entries r ! k" and ?y = "entries t ! k"
  show ?case
  proof (cases "k < entry_count t")
    case False
    then have "undominated_epochs_from r t cap k acc = acc"
      by (simp add: undominated_epochs_from.simps [of r t cap k acc])
    with "1.prems" False show ?thesis by (simp add: drop_live_Nil)
  next
    case True
    have len: "length (live r) = length (live t)"
      using map_eq_imp_length_eq [OF "1.prems"(4)] .
    then have inr: "k < entry_count r"
      using True "1.prems"(2,3) by (simp add: frontier_okD)
    have same: "axis ?x = axis ?y"
      using "1.prems"(2-4) True inr len by (metis frontier_okD(1,4) live_nth nth_map)
    define acc' where "acc' = (if epoch ?y > epoch ?x then emit_undominated cap ?y acc else acc)"
    define us' where "us' = us @ (if epoch ?y > epoch ?x then [?y] else [])"
    have "acc' = (length us', take cap us')"
      using "1.prems"(1) emit_take [of cap ?y us] by (simp add: acc'_def us'_def)
    from "1.IH" [OF True, folded acc'_def, OF this "1.prems"(2-4)]
    show ?thesis
      using True undominated_step_same [OF drop_live_step_ok [OF "1.prems"(2) inr]
          drop_live_step_ok [OF "1.prems"(3) True] same]
      by (simp add: undominated_epochs_from.simps [of r t cap k acc] acc'_def [symmetric]
          drop_live [OF "1.prems"(2) inr] drop_live [OF "1.prems"(3) True] us'_def)
  qed
qed

lemma find_undominated_eq:
  assumes "frontier_ok r" and "frontier_ok t"
  shows "iree_async_frontier_find_undominated r t cap =
     (length (undominated (live r) (live t)), take cap (undominated (live r) (live t)))"
  using undominated_same_axes [OF assms, where us = "[]" and k = 0]
    undominated_scan_eq [OF assms, where us = "[]" and i = 0 and j = 0] same_axes_iff [OF assms]
  by (auto simp: iree_async_frontier_find_undominated_def Let_def)

lemma undominated_Nil_iff:
  assumes "clock_ok ys"
  shows "undominated xs ys = [] \<longleftrightarrow> clock_le ys xs"
proof
  assume none: "undominated xs ys = []"
  have "epoch_at ys a \<le> epoch_at xs a" for a
  proof (cases "a \<in> axis ` set ys")
    case True
    then obtain y where "y \<in> set ys" "a = axis y" by blast
    with none assms show ?thesis
      by (auto simp: undominated_def filter_empty_conv epoch_at_mem clock_ok_sorted not_less)
  qed (simp add: epoch_at_notin)
  then show "clock_le ys xs" by (simp add: clock_le_def)
next
  assume "clock_le ys xs"
  then show "undominated xs ys = []"
    using assms by (auto simp: undominated_def filter_empty_conv clock_le_def not_less
        epoch_at_mem [OF clock_ok_sorted, symmetric])
qed

section \<open>Satisfaction\<close>

lemma skip_smaller_axes_bounds:
  "j \<le> length c \<Longrightarrow> j \<le> skip_smaller_axes c ax j \<and> skip_smaller_axes c ax j \<le> length c"
proof (induction c ax j rule: skip_smaller_axes.induct)
  case (1 c ax j)
  then show ?case
    by (auto simp: skip_smaller_axes.simps [of c ax j])
qed

lemma skip_smaller_axes_stop:
  "skip_smaller_axes c ax j < length c \<Longrightarrow> ax \<le> axis (c ! skip_smaller_axes c ax j)"
proof (induction c ax j rule: skip_smaller_axes.induct)
  case (1 c ax j)
  then show ?case
    by (simp add: skip_smaller_axes.simps [of c ax j] not_less split: if_splits)
qed

lemma skip_smaller_axes_skipped:
  "j \<le> k \<Longrightarrow> k < skip_smaller_axes c ax j \<Longrightarrow> axis (c ! k) < ax"
proof (induction c ax j rule: skip_smaller_axes.induct)
  case (1 c ax j)
  then show ?case
    by (cases "k = j") (simp_all add: skip_smaller_axes.simps [of c ax j] split: if_splits)
qed

text \<open>Dropping what the inner loop skips does not change the epoch of the sought axis.\<close>

lemma epoch_at_drop:
  assumes "\<And>k. k < n \<Longrightarrow> k < length c \<Longrightarrow> axis (c ! k) \<noteq> a"
  shows "epoch_at (drop n c) a = epoch_at c a"
  using assms
proof (induction n arbitrary: c)
  case (Suc n)
  show ?case
  proof (cases c)
    case (Cons e es)
    have "epoch_at (drop n es) a = epoch_at es a"
      by (rule Suc.IH) (use Suc.prems Cons in \<open>metis Suc_less_eq length_Cons nth_Cons_Suc\<close>)
    with Suc.prems [of 0] Cons show ?thesis by simp
  qed simp
qed simp

lemma epoch_at_skip:
  assumes "axes_sorted c" and "j \<le> length c"
    and "\<And>k. k < j \<Longrightarrow> axis (c ! k) < ax"
  defines "j' \<equiv> skip_smaller_axes c ax j"
  shows "epoch_at c ax = (if j' < length c \<and> axis (c ! j') = ax then epoch (c ! j') else 0)"
proof -
  have smaller: "axis (c ! k) < ax" if "k < j'" for k
    using that assms(3) skip_smaller_axes_skipped [of j k c ax] unfolding j'_def
    by (cases "k < j") auto
  have drop: "epoch_at (drop j' c) ax = epoch_at c ax"
    by (rule epoch_at_drop) (use smaller in \<open>auto dest: less_imp_neq\<close>)
  show ?thesis
  proof (cases "j' < length c")
    case False
    with drop show ?thesis by simp
  next
    case True
    then have split: "drop j' c = c ! j' # drop (Suc j') c" by (simp add: drop_Cons_nth)
    have ge: "ax \<le> axis (c ! j')"
      using skip_smaller_axes_stop True unfolding j'_def by blast
    have "axes_sorted (drop j' c)"
      using assms(1) sorted_wrt_drop unfolding axes_sorted_def by blast
    then have "\<forall>y\<in>set (drop (Suc j') c). axis (c ! j') < axis y"
      unfolding split by simp
    then have "epoch_at (drop (Suc j') c) ax = 0" if "axis (c ! j') \<noteq> ax"
      using ge by (intro epoch_at_below) (auto intro: le_less_trans)
    with drop True show ?thesis unfolding split by auto
  qed
qed

lemma is_satisfied_from_iff:
  "axes_sorted c \<Longrightarrow> frontier_ok f \<Longrightarrow> j \<le> length c \<Longrightarrow>
   (i < entry_count f \<longrightarrow> (\<forall>k<j. axis (c ! k) < axis (entries f ! i))) \<Longrightarrow>
   is_satisfied_from f c i j \<longleftrightarrow> (\<forall>e\<in>set (drop i (live f)). epoch e \<le> epoch_at c (axis e))"
proof (induction f c i j rule: is_satisfied_from.induct)
  case (1 f c i j)
  let ?e = "entries f ! i"
  let ?j = "skip_smaller_axes c (axis ?e) j"
  show ?case
  proof (cases "i < entry_count f")
    case False
    with "1.prems" show ?thesis
      by (simp add: is_satisfied_from.simps [of f c i j] drop_live_Nil)
  next
    case True
    note step = drop_live [OF "1.prems"(2) True] and ok = drop_live_step_ok [OF "1.prems"(2) True]
    have at: "epoch_at c (axis ?e) = (if ?j < length c \<and> axis (c ! ?j) = axis ?e then epoch (c ! ?j) else 0)"
      using "1.prems"(1,3,4) True by (intro epoch_at_skip) auto
    have "epoch ?e \<noteq> 0" using ok by simp
    have next_lt: "\<forall>k<?j. axis (c ! k) < axis (entries f ! Suc i)" if "Suc i < entry_count f"
    proof (intro allI impI)
      fix k assume k: "k < ?j"
      have "axis (c ! k) < axis ?e"
        using k "1.prems"(4) True skip_smaller_axes_skipped [of j k c] by (cases "k < j") auto
      also have "axis ?e < axis (entries f ! Suc i)"
        using ok drop_live [OF "1.prems"(2) that] by simp
      finally show "axis (c ! k) < axis (entries f ! Suc i)" .
    qed
    have "?j \<le> length c"
      using skip_smaller_axes_bounds [OF "1.prems"(3)] by simp
    show ?thesis
    proof (cases "?j < length c \<and> axis (c ! ?j) = axis ?e \<and> epoch ?e \<le> epoch (c ! ?j)")
      case True': True
      then have IH: "is_satisfied_from f c (Suc i) ?j \<longleftrightarrow>
          (\<forall>e\<in>set (drop (Suc i) (live f)). epoch e \<le> epoch_at c (axis e))"
        using True \<open>?j \<le> length c\<close> "1.prems"(1,2) next_lt by (intro "1.IH") auto
      with True True' at show ?thesis
        unfolding is_satisfied_from.simps [of f c i j] step by (auto simp: Let_def not_less)
    next
      case no: False
      then have "\<not> is_satisfied_from f c i j"
        unfolding is_satisfied_from.simps [of f c i j] using True by (auto simp: Let_def)
      moreover have "\<not> epoch ?e \<le> epoch_at c (axis ?e)"
        using no at \<open>epoch ?e \<noteq> 0\<close> by auto
      ultimately show ?thesis unfolding step by simp
    qed
  qed
qed

lemma is_satisfied_iff:
  assumes "frontier_ok f" and "axes_sorted c"
  shows "iree_async_frontier_is_satisfied f c \<longleftrightarrow> clock_le (live f) c"
proof -
  have "iree_async_frontier_is_satisfied f c \<longleftrightarrow> (\<forall>e\<in>set (live f). epoch e \<le> epoch_at c (axis e))"
    using is_satisfied_from_iff [OF assms(2,1), of 0 0] assms frontier_okD(4) [OF assms(1)]
    by (auto simp: iree_async_frontier_is_satisfied_def)
  also have "\<dots> \<longleftrightarrow> undominated c (live f) = []"
    by (auto simp: undominated_def filter_empty_conv not_less)
  also have "\<dots> \<longleftrightarrow> clock_le (live f) c"
    using assms by (simp add: undominated_Nil_iff frontier_okD)
  finally show ?thesis .
qed

section \<open>Copies and empty frontiers\<close>

lemma frontier_copy:
  assumes "frontier_ok s"
  shows "live (frontier_copy d s) = live s" and "frontier_ok (frontier_copy d s)"
    and "entry_count s \<le> length (entries d) \<Longrightarrow> length (entries (frontier_copy d s)) = length (entries d)"
    and "entry_count (frontier_copy d s) = entry_count s"
proof -
  show l: "live (frontier_copy d s) = live s"
    using assms by (simp add: frontier_ok_def frontier_copy_def live_def)
  show "frontier_ok (frontier_copy d s)"
    using assms l by (simp add: frontier_ok_def) (auto simp: frontier_copy_def)
qed (use assms in \<open>auto simp: frontier_ok_def frontier_copy_def\<close>)

lemma frontier_empty:
  "frontier_ok (f\<lparr>entry_count := 0\<rparr>)" "live (f\<lparr>entry_count := 0\<rparr>) = []"
  by (simp_all add: frontier_ok_def live_def clock_ok_def)

end
