(* ===== verification/Frontier_Properties.thy ===== *)
theory Frontier_Properties
  imports Frontier_Laws
begin

text \<open>
  The correctness statements of \<^verbatim>\<open>async/frontier.{h,c}\<close>, each with a concrete instance: the
  comparison is the vector-clock order, the in-place merge is the least upper bound with an exact
  overflow condition, and the scans report exactly the entries that are not dominated.
\<close>

section \<open>Packing of axes\<close>

lemma ordinal_mask: "(0xFFFFFFFFFF :: u64) = mask 40" "(0xFF :: u64) = mask 8" "(0xFFFFFF :: u64) = mask 24"
  by (simp_all add: mask_eq_exp_minus_1)

lemma axis_make_fields:
  "iree_async_axis_session (iree_async_axis_make s m d n) = s"
  "iree_async_axis_machine (iree_async_axis_make s m d n) = m"
  "iree_async_axis_domain (iree_async_axis_make s m d n) = d"
  "iree_async_axis_ordinal (iree_async_axis_make s m d n) = n AND mask 40"
  unfolding iree_async_axis_session_def iree_async_axis_machine_def iree_async_axis_domain_def
    iree_async_axis_ordinal_def iree_async_axis_make_def ordinal_mask
  by (rule bit_word_eqI, auto simp: bit_simps dest: bit_imp_le_length)+

lemma incarnation_bits:
  assumes "(i :: u32) \<le> IREE_ASYNC_QUEUE_INCARNATION_MAX" and "bit i n"
  shows "n < 24"
proof (rule ccontr)
  assume "\<not> n < 24"
  then have "(2::nat) ^ 24 \<le> 2 ^ n" by (intro power_increasing) auto
  also have "2 ^ n \<le> unat i"
  proof -
    have "bit (unat i) n" using assms(2) by (simp add: bit_simps)
    then show ?thesis by (metis bit_nat_iff bit_iff_odd div_less even_zero not_le)
  qed
  also have "unat i \<le> 0x00FFFFFF"
    using assms(1) by (simp add: IREE_ASYNC_QUEUE_INCARNATION_MAX_def word_le_nat_alt)
  finally show False by simp
qed

text \<open>
  C21. Every field of a queue axis is read back unchanged by its accessor, provided the incarnation
  fits its 24 bits, which is the assertion the constructor makes.
\<close>

theorem axis_queue_roundtrip:
  assumes "i \<le> IREE_ASYNC_QUEUE_INCARNATION_MAX"
    and a_def: "a = iree_async_axis_make_queue s m dv q i"
  shows "iree_async_axis_session a = s \<and> iree_async_axis_machine a = m \<and>
    iree_async_axis_domain a = domain_code IREE_ASYNC_CAUSAL_DOMAIN_QUEUE \<and>
    iree_async_axis_device_index a = dv \<and> iree_async_axis_queue_index a = q \<and>
    iree_async_axis_queue_incarnation a = i"
proof -
  note inc = incarnation_bits [OF assms(1)]
  define n where "n = push_bit 32 (ucast dv) OR push_bit 24 (ucast q) OR (ucast i :: u64)"
  have a: "a = iree_async_axis_make s m (domain_code IREE_ASYNC_CAUSAL_DOMAIN_QUEUE) n"
    by (simp add: a_def iree_async_axis_make_queue_def n_def)
  have "ucast (drop_bit 32 (n AND mask 40)) = dv"
    unfolding n_def by (rule bit_word_eqI) (auto simp: bit_simps dest: bit_imp_le_length inc)
  moreover have "ucast (drop_bit 24 (n AND mask 40)) = q"
    unfolding n_def by (rule bit_word_eqI) (auto simp: bit_simps dest: bit_imp_le_length inc)
  moreover have "ucast ((n AND mask 40) AND ucast IREE_ASYNC_QUEUE_INCARNATION_MAX) = i"
  proof -
    have "(ucast IREE_ASYNC_QUEUE_INCARNATION_MAX :: u64) = mask 24"
      by (simp add: IREE_ASYNC_QUEUE_INCARNATION_MAX_def mask_eq_exp_minus_1)
    then show ?thesis
      unfolding n_def by simp (rule bit_word_eqI, auto simp: bit_simps dest: bit_imp_le_length inc)
  qed
  ultimately show ?thesis
    by (simp add: a axis_make_fields iree_async_axis_device_index_def iree_async_axis_queue_index_def
        iree_async_axis_queue_incarnation_def)
qed

theorem axis_queue_roundtrip_witness:
  "iree_async_axis_queue_incarnation (iree_async_axis_make_queue 1 2 3 4 5) = 5 \<and>
   iree_async_axis_device_index (iree_async_axis_make_queue 1 2 3 4 5) = 3"
  using axis_queue_roundtrip [of 5 _ 1 2 3 4] by (simp add: IREE_ASYNC_QUEUE_INCARNATION_MAX_def)

section \<open>Comparison\<close>

text \<open>Two frontiers used by the concrete instances below.\<close>

definition frontier_f1 :: iree_async_frontier_t where
  "frontier_f1 = \<lparr>entry_count = 2,
     entries = [\<lparr>axis = 1, epoch = 5\<rparr>, \<lparr>axis = 7, epoch = 2\<rparr>, \<lparr>axis = 0, epoch = 0\<rparr>]\<rparr>"

definition frontier_f2 :: iree_async_frontier_t where
  "frontier_f2 = \<lparr>entry_count = 2,
     entries = [\<lparr>axis = 1, epoch = 3\<rparr>, \<lparr>axis = 4, epoch = 9\<rparr>]\<rparr>"

lemmas frontier_witness_defs = frontier_f1_def frontier_f2_def live_def

lemma frontier_f_ok: "frontier_ok frontier_f1" "frontier_ok frontier_f2"
  by (simp_all add: frontier_ok_def frontier_witness_defs)

lemma live_f:
  "live frontier_f1 = [\<lparr>axis = 1, epoch = 5\<rparr>, \<lparr>axis = 7, epoch = 2\<rparr>]"
  "live frontier_f2 = [\<lparr>axis = 1, epoch = 3\<rparr>, \<lparr>axis = 4, epoch = 9\<rparr>]"
  by (simp_all add: frontier_witness_defs)

text \<open>
  C8. The comparison of two well-formed frontiers is the vector-clock order: EQUAL exactly when the
  live entries agree, BEFORE (AFTER) exactly when one is pointwise below (above) the other and they
  differ, CONCURRENT exactly when neither is below the other. Both the same-axes fast path and the
  general merge scan are covered.
\<close>

theorem compare_correct:
  assumes "frontier_ok a" and "frontier_ok b"
  shows "(iree_async_frontier_compare a b = IREE_ASYNC_FRONTIER_EQUAL \<longleftrightarrow> live a = live b) \<and>
    (iree_async_frontier_compare a b = IREE_ASYNC_FRONTIER_BEFORE \<longleftrightarrow>
      clock_le (live a) (live b) \<and> live a \<noteq> live b) \<and>
    (iree_async_frontier_compare a b = IREE_ASYNC_FRONTIER_AFTER \<longleftrightarrow>
      clock_le (live b) (live a) \<and> live a \<noteq> live b) \<and>
    (iree_async_frontier_compare a b = IREE_ASYNC_FRONTIER_CONCURRENT \<longleftrightarrow>
      \<not> clock_le (live a) (live b) \<and> \<not> clock_le (live b) (live a))"
proof -
  have "clock_le (live a) (live b) \<and> clock_le (live b) (live a) \<longleftrightarrow> live a = live b"
    using clock_le_antisym frontier_okD(3) assms by auto
  then show ?thesis
    unfolding compare_eq_spec [OF assms] compare_spec_def comparison_of_flags_def by auto
qed

theorem compare_correct_witness:
  "(iree_async_frontier_compare frontier_f1 frontier_f2 = IREE_ASYNC_FRONTIER_EQUAL) = False"
  using compare_correct [OF frontier_f_ok] by (simp add: live_f)

lemma f1_sizes: "entry_count frontier_f1 = 2" "length (entries frontier_f1) = 3"
  by (simp_all add: frontier_f1_def)

section \<open>Merge\<close>

lemma axes_sorted_distinct: "axes_sorted es \<Longrightarrow> distinct (map axis es)"
  by (induction es) auto

lemma length_clock_join:
  assumes "clock_ok xs" and "clock_ok ys"
  shows "length (clock_join xs ys) = card (axis ` set xs \<union> axis ` set ys)"
  using distinct_card [OF axes_sorted_distinct [OF clock_ok_sorted [OF clock_join_ok [OF assms]]]]
  by (simp add: axes_clock_join)

lemma merge_succeeds:
  assumes "frontier_ok t" and "frontier_ok s"
    and "entry_count t \<le> cap" and "cap \<le> length (entries t)" and "cap \<le> 255"
    and "length (clock_join (live t) (live s)) \<le> cap"
  shows "\<exists>t'. iree_async_frontier_merge t cap s = (True, t') \<and> frontier_ok t' \<and>
     live t' = clock_join (live t) (live s) \<and> length (entries t') = length (entries t)"
  using merge_impl_fits [OF assms] by (auto simp: iree_async_frontier_merge_def)

lemma merge_fails:
  assumes "frontier_ok t" and "frontier_ok s" and "entry_count t \<le> cap"
    and "cap < length (clock_join (live t) (live s))"
  shows "iree_async_frontier_merge t cap s = (False, t)"
  using merge_impl_overflow [OF assms] by (simp add: iree_async_frontier_merge_def)

lemma merge_True_join:
  assumes "frontier_ok u" "frontier_ok s" "entry_count u \<le> cap" "cap \<le> length (entries u)" "cap \<le> 255"
    and "iree_async_frontier_merge u cap s = (True, u')"
  shows "frontier_ok u'" "live u' = clock_join (live u) (live s)" "entry_count u' \<le> cap"
    "length (entries u') = length (entries u)"
proof -
  have fits: "length (clock_join (live u) (live s)) \<le> cap"
    using merge_fails [OF assms(1-3)] assms(6) by (cases "length (clock_join (live u) (live s)) \<le> cap") auto
  from merge_succeeds [OF assms(1-5) fits] assms(6)
  show ok: "frontier_ok u'" and live: "live u' = clock_join (live u) (live s)"
    and "length (entries u') = length (entries u)"
    by auto
  show "entry_count u' \<le> cap"
    using frontier_okD(4) [OF ok] live fits by simp
qed

text \<open>
  C7. A merge succeeds exactly when the number of distinct axes fits the capacity. On success the
  target denotes the pointwise maximum of both inputs and is well-formed; on failure it is left
  exactly as it was.
\<close>

theorem merge_correct:
  assumes "frontier_ok t" and "frontier_ok s"
    and "entry_count t \<le> cap" and "cap \<le> length (entries t)" and "cap \<le> 255"
  shows "\<exists>ok t'. iree_async_frontier_merge t cap s = (ok, t') \<and>
     (ok \<longleftrightarrow> card (axis ` set (live t) \<union> axis ` set (live s)) \<le> cap) \<and>
     (if ok then frontier_ok t' \<and> length (entries t') = length (entries t) \<and>
         (\<forall>a. epoch_at (live t') a = max (epoch_at (live t) a) (epoch_at (live s) a))
      else t' = t)"
proof -
  note ok = frontier_okD(3) [OF assms(1)] frontier_okD(3) [OF assms(2)]
  note len = length_clock_join [OF ok] and at = epoch_at_join [OF ok]
  show ?thesis
  proof (cases "length (clock_join (live t) (live s)) \<le> cap")
    case True
    from merge_succeeds [OF assms True] obtain t' where
      "iree_async_frontier_merge t cap s = (True, t')" "frontier_ok t'"
      "live t' = clock_join (live t) (live s)" "length (entries t') = length (entries t)" by blast
    with True show ?thesis by (auto simp: len at)
  next
    case False
    with merge_fails [OF assms(1-3)] show ?thesis by (auto simp: len)
  qed
qed

theorem merge_correct_witness:
  "\<exists>ok t'. iree_async_frontier_merge frontier_f1 3 frontier_f2 = (ok, t') \<and> ok \<and>
     epoch_at (live t') 4 = 9 \<and> epoch_at (live t') 1 = 5"
proof -
  obtain ok t' where m: "iree_async_frontier_merge frontier_f1 3 frontier_f2 = (ok, t')"
    "ok \<longleftrightarrow> card (axis ` set (live frontier_f1) \<union> axis ` set (live frontier_f2)) \<le> 3"
    "if ok then frontier_ok t' \<and> length (entries t') = length (entries frontier_f1) \<and>
         (\<forall>a. epoch_at (live t') a = max (epoch_at (live frontier_f1) a) (epoch_at (live frontier_f2) a))
      else t' = frontier_f1"
    using merge_correct [OF frontier_f_ok, of 3] by (auto simp: f1_sizes)
  have "ok" using m(2) by (simp add: live_f card_insert_if)
  with m show ?thesis by (auto simp: live_f)
qed

text \<open>
  C18. The dominance flag of a successful merge says exactly that the merged frontier equals the
  source, i.e. that the source already covered the target.
\<close>

theorem merge_dominance_flag:
  assumes "frontier_ok t" and "frontier_ok s"
    and "entry_count t \<le> cap" and "cap \<le> length (entries t)" and "cap \<le> 255"
    and "iree_async_frontier_merge_and_test_source_dominance t cap s = (True, t', dominates)"
  shows "dominates \<longleftrightarrow> live t' = live s"
proof -
  note ok = frontier_okD(3) [OF assms(1)] frontier_okD(3) [OF assms(2)]
  have fits: "length (clock_join (live t) (live s)) \<le> cap"
    using merge_impl_overflow [OF assms(1-3)] assms(6) not_le
    by (fastforce simp: iree_async_frontier_merge_and_test_source_dominance_def)
  have join: "live t' = clock_join (live t) (live s)" "dominates = clock_le (live t) (live s)"
    using merge_impl_fits [OF assms(1-5) fits] assms(6)
    by (auto simp: iree_async_frontier_merge_and_test_source_dominance_def)
  moreover have "clock_le (live t) (live s) \<Longrightarrow> clock_join (live t) (live s) = live s"
    using clocks.join_absorb [OF ok] by (simp add: clock_le_def)
  ultimately show ?thesis
    using clock_le_join(1) [OF ok] by auto
qed

theorem merge_dominance_flag_witness:
  "\<exists>t'. iree_async_frontier_merge_and_test_source_dominance frontier_f1 3 frontier_f2 = (True, t', False) \<and>
     (False \<longleftrightarrow> live t' = live frontier_f2)"
proof -
  obtain t' d where m:
    "iree_async_frontier_merge_and_test_source_dominance frontier_f1 3 frontier_f2 = (True, t', d)"
    "live t' = clock_join (live frontier_f1) (live frontier_f2)"
    using merge_impl_fits [OF frontier_f_ok, of 3]
    by (auto simp: iree_async_frontier_merge_and_test_source_dominance_def live_f f1_sizes)
  have "d \<longleftrightarrow> live t' = live frontier_f2"
    by (rule merge_dominance_flag [OF frontier_f_ok _ _ _ m(1)]) (simp_all add: f1_sizes)
  with m show ?thesis by (auto simp: live_f)
qed

text \<open>
  The order in which two frontiers are merged into a third does not matter: whenever both orders
  succeed they leave the same live entries.
\<close>

theorem merge_order_irrelevant:
  assumes "frontier_ok t" and "frontier_ok s1" and "frontier_ok s2"
    and "entry_count t \<le> cap" and "cap \<le> length (entries t)" and "cap \<le> 255"
    and "iree_async_frontier_merge t cap s1 = (True, t1)"
    and "iree_async_frontier_merge t1 cap s2 = (True, t12)"
    and "iree_async_frontier_merge t cap s2 = (True, t2)"
    and "iree_async_frontier_merge t2 cap s1 = (True, t21)"
  shows "live t12 = live t21"
proof -
  note t1 = merge_True_join [OF assms(1,2,4-7)] and t2 = merge_True_join [OF assms(1,3,4-6,9)]
  have "live t12 = clock_join (clock_join (live t) (live s1)) (live s2)"
    using merge_True_join(2) [OF t1(1) assms(3) t1(3) _ assms(6,8)] t1 assms(5) by simp
  moreover have "live t21 = clock_join (clock_join (live t) (live s2)) (live s1)"
    using merge_True_join(2) [OF t2(1) assms(2) t2(3) _ assms(6,10)] t2 assms(5) by simp
  ultimately show ?thesis
    using frontier_okD(3) [OF assms(1)] frontier_okD(3) [OF assms(2)] frontier_okD(3) [OF assms(3)]
    by (metis clocks.join_assoc clocks.join_commute)
qed

theorem merge_order_irrelevant_witness:
  "\<exists>t1 t12 t2 t21. iree_async_frontier_merge frontier_f1 3 frontier_f2 = (True, t1) \<and>
     iree_async_frontier_merge t1 3 frontier_f1 = (True, t12) \<and>
     iree_async_frontier_merge frontier_f1 3 frontier_f1 = (True, t2) \<and>
     iree_async_frontier_merge t2 3 frontier_f2 = (True, t21) \<and> live t12 = live t21"
proof -
  note f1 = frontier_f_ok(1) and f2 = frontier_f_ok(2)
  obtain t1 where t1: "iree_async_frontier_merge frontier_f1 3 frontier_f2 = (True, t1)"
    "frontier_ok t1" "live t1 = clock_join (live frontier_f1) (live frontier_f2)" "length (entries t1) = 3"
    using merge_succeeds [OF f1 f2, of 3] by (auto simp: f1_sizes live_f)
  obtain t2 where t2: "iree_async_frontier_merge frontier_f1 3 frontier_f1 = (True, t2)"
    "frontier_ok t2" "live t2 = clock_join (live frontier_f1) (live frontier_f1)" "length (entries t2) = 3"
    using merge_succeeds [OF f1 f1, of 3] by (auto simp: f1_sizes live_f)
  have counts: "entry_count t1 = 3" "entry_count t2 = 2"
    using frontier_okD(4) [OF t1(2)] frontier_okD(4) [OF t2(2)] t1(3) t2(3) by (simp_all add: live_f)
  obtain t12 where t12: "iree_async_frontier_merge t1 3 frontier_f1 = (True, t12)"
    using merge_succeeds [OF t1(2) f1, of 3] t1 counts by (auto simp: live_f)
  obtain t21 where t21: "iree_async_frontier_merge t2 3 frontier_f2 = (True, t21)"
    using merge_succeeds [OF t2(2) f2, of 3] t2 counts by (auto simp: live_f)
  have "live t12 = live t21"
    by (rule merge_order_irrelevant [OF f1 f2 f1 _ _ _ t1(1) t12 t2(1) t21]) (simp_all add: f1_sizes)
  with t1(1) t12 t2(1) t21 show ?thesis by blast
qed

section \<open>Scans\<close>

text \<open>
  C17. The undominated scan returns the number of target entries whose epoch exceeds what the
  reference knows of their axis, and writes the first ones of them, in order, up to the capacity; the
  count is zero exactly when the target is pointwise below the reference.
\<close>

theorem find_undominated_correct:
  assumes "frontier_ok r" and "frontier_ok t"
  shows "iree_async_frontier_find_undominated r t cap =
      (let u = filter (\<lambda>e. epoch e > epoch_at (live r) (axis e)) (live t) in (length u, take cap u)) \<and>
    (fst (iree_async_frontier_find_undominated r t cap) = 0 \<longleftrightarrow> clock_le (live t) (live r))"
  using find_undominated_eq [OF assms, of cap] undominated_Nil_iff [OF frontier_okD(3) [OF assms(2)], of "live r"]
  by (simp add: undominated_def Let_def)

theorem find_undominated_correct_witness:
  "iree_async_frontier_find_undominated frontier_f1 frontier_f2 0 = (1, [])"
  using find_undominated_correct [OF frontier_f_ok, of 0] by (simp add: live_f Let_def)

text \<open>
  C19. A frontier is satisfied by a sorted list of current epochs exactly when it is pointwise below
  it, i.e. when waiting on it would not block.
\<close>

theorem is_satisfied_correct:
  assumes "frontier_ok f" and "axes_sorted current"
  shows "iree_async_frontier_is_satisfied f current \<longleftrightarrow> (\<forall>a. epoch_at (live f) a \<le> epoch_at current a)"
  using is_satisfied_iff [OF assms] by (simp add: clock_le_def)

theorem is_satisfied_correct_witness:
  "iree_async_frontier_is_satisfied frontier_f2 [\<lparr>axis = 1, epoch = 4\<rparr>, \<lparr>axis = 4, epoch = 9\<rparr>]"
  using is_satisfied_correct [OF frontier_f_ok(2), of "[\<lparr>axis = 1, epoch = 4\<rparr>, \<lparr>axis = 4, epoch = 9\<rparr>]"]
  by (simp add: live_f)

text \<open>
  C20. Validation accepts a frontier exactly when it satisfies the invariant every other operation
  assumes: strictly increasing axes and no zero epoch.
\<close>

theorem validate_correct:
  assumes "entry_count f \<le> length (entries f)" and "entry_count f \<le> 255"
  shows "iree_async_frontier_validate f = IREE_STATUS_OK \<longleftrightarrow> frontier_ok f"
proof -
  have "axes_sorted (live f) \<longleftrightarrow>
      (\<forall>k. 1 \<le> k \<and> k < entry_count f \<longrightarrow> axis (entries f ! (k - 1)) < axis (entries f ! k))"
    using assms axes_sorted_adjacent [of "live f"] by (auto simp: live_def)
  moreover have "(\<forall>e\<in>set (live f). epoch e \<noteq> 0) \<longleftrightarrow> (\<forall>k<entry_count f. epoch (entries f ! k) \<noteq> 0)"
    using assms by (auto simp: live_def all_set_conv_all_nth)
  ultimately show ?thesis
    using assms validate_order_from_iff [of 1 f] validate_epochs_from_iff [of f 0]
    by (auto simp: iree_async_frontier_validate_def frontier_ok_def clock_ok_def)
qed

theorem validate_correct_witness: "iree_async_frontier_validate frontier_f1 = IREE_STATUS_OK"
  using validate_correct [of frontier_f1] frontier_f_ok by (simp add: frontier_f1_def)

end
