(* ===== verification/TLSF_Core.thy ===== *)
theory TLSF_Core
  imports TLSF_Bins Frontier_Properties
begin

text \<open>
  The geometry of a TLSF instance: the physical list tiles the managed range, every node is either in
  it or on the unused list, the counters are the sums they claim to be, and every block carries a
  well-formed frontier. The free-list matrix is left out here: the steps below are stated for the
  intermediate states in which a block is out of the matrix.
\<close>

section \<open>Flags\<close>

lemma has_flag_bit:
  "has_flag FLAG_FREE w \<longleftrightarrow> bit w 0" "has_flag FLAG_LAST w \<longleftrightarrow> bit w 1" "has_flag FLAG_TAINTED w \<longleftrightarrow> bit w 2"
proof -
  have "(w AND 2 ^ n \<noteq> 0) \<longleftrightarrow> bit w n" if "n < 32" for n
    using that by (metis and_exp_eq_0_iff_not_bit)
  from this [of 0] this [of 1] this [of 2]
  show "has_flag FLAG_FREE w \<longleftrightarrow> bit w 0" "has_flag FLAG_LAST w \<longleftrightarrow> bit w 1" "has_flag FLAG_TAINTED w \<longleftrightarrow> bit w 2"
    by (simp_all add: has_flag_def FLAG_FREE_def FLAG_LAST_def FLAG_TAINTED_def)
qed

lemma flag_bits:
  "bit FLAG_FREE n \<longleftrightarrow> n = 0" "bit FLAG_LAST n \<longleftrightarrow> n = 1" "bit FLAG_TAINTED n \<longleftrightarrow> n = 2"
proof -
  have single: "bit (2 ^ k :: u32) n \<longleftrightarrow> n = k" if "k < 32" for k
    using that by (auto simp: bit_simps)
  show "bit FLAG_FREE n \<longleftrightarrow> n = 0" "bit FLAG_LAST n \<longleftrightarrow> n = 1" "bit FLAG_TAINTED n \<longleftrightarrow> n = 2"
    using single [of 0] single [of 1] single [of 2]
    by (simp_all add: FLAG_FREE_def FLAG_LAST_def FLAG_TAINTED_def)
qed

lemma has_flag_simps [simp]:
  "has_flag FLAG_FREE (w OR FLAG_FREE)" "has_flag FLAG_LAST (w OR FLAG_LAST)"
  "has_flag FLAG_TAINTED (w OR FLAG_TAINTED)"
  "\<not> has_flag FLAG_FREE (w AND NOT FLAG_FREE)" "\<not> has_flag FLAG_LAST (w AND NOT FLAG_LAST)"
  "\<not> has_flag FLAG_TAINTED (w AND NOT FLAG_TAINTED)"
  "has_flag FLAG_FREE (w OR FLAG_LAST) = has_flag FLAG_FREE w"
  "has_flag FLAG_FREE (w OR FLAG_TAINTED) = has_flag FLAG_FREE w"
  "has_flag FLAG_LAST (w OR FLAG_FREE) = has_flag FLAG_LAST w"
  "has_flag FLAG_LAST (w OR FLAG_TAINTED) = has_flag FLAG_LAST w"
  "has_flag FLAG_TAINTED (w OR FLAG_FREE) = has_flag FLAG_TAINTED w"
  "has_flag FLAG_TAINTED (w OR FLAG_LAST) = has_flag FLAG_TAINTED w"
  "has_flag FLAG_FREE (w AND NOT FLAG_LAST) = has_flag FLAG_FREE w"
  "has_flag FLAG_FREE (w AND NOT FLAG_TAINTED) = has_flag FLAG_FREE w"
  "has_flag FLAG_LAST (w AND NOT FLAG_FREE) = has_flag FLAG_LAST w"
  "has_flag FLAG_LAST (w AND NOT FLAG_TAINTED) = has_flag FLAG_LAST w"
  "has_flag FLAG_TAINTED (w AND NOT FLAG_FREE) = has_flag FLAG_TAINTED w"
  "has_flag FLAG_TAINTED (w AND NOT FLAG_LAST) = has_flag FLAG_TAINTED w"
  "has_flag FLAG_FREE (FLAG_FREE OR w)"
  "has_flag FLAG_LAST (FLAG_FREE OR w) = has_flag FLAG_LAST w"
  "has_flag FLAG_TAINTED (FLAG_FREE OR w) = has_flag FLAG_TAINTED w"
  "\<not> has_flag FLAG_LAST (w AND FLAG_TAINTED)"
  "has_flag FLAG_TAINTED (w AND FLAG_TAINTED) = has_flag FLAG_TAINTED w"
  by (auto simp: has_flag_bit bit_or_iff bit_and_iff bit_not_iff flag_bits)

section \<open>The geometry invariant\<close>

fun tiles :: "(nat \<Rightarrow> iree_hal_memory_tlsf_block_t) \<Rightarrow> nat \<Rightarrow> nat list \<Rightarrow> nat \<Rightarrow> bool" where
  "tiles g from [] to \<longleftrightarrow> from = to"
| "tiles g from (i # is) to \<longleftrightarrow>
     unat (offset (g i)) = from \<and> tiles g (from + unat (block_length (g i))) is to"

definition is_free :: "iree_hal_memory_tlsf_block_t \<Rightarrow> bool" where
  "is_free b \<longleftrightarrow> has_flag FLAG_FREE (flags b)"

text \<open>What the owner's overflow callback must respect.\<close>

definition capture_ok ::
    "nat \<Rightarrow> ('u \<Rightarrow> iree_async_frontier_t \<Rightarrow> iree_async_frontier_t \<Rightarrow> 'u \<times> iree_async_frontier_t) option \<Rightarrow> bool" where
  "capture_ok cap callback \<longleftrightarrow>
     (\<forall>capture. callback = Some capture \<longrightarrow>
        (\<forall>u target source. frontier_ok target \<and> length (entries target) = cap \<and> frontier_ok source \<longrightarrow>
           frontier_ok (snd (capture u target source)) \<and>
           length (entries (snd (capture u target source))) = cap))"

definition config_ok :: "'u iree_hal_memory_tlsf_t \<Rightarrow> bool" where
  "config_ok t \<longleftrightarrow>
     IREE_HAL_MEMORY_TLSF_MIN_ALIGNMENT \<le> alignment t \<and> iree_device_size_is_power_of_two (alignment t) \<and>
     unat (alignment t) dvd unat (range_length t) \<and> frontier_capacity t \<le> 255 \<and>
     capture_ok (frontier_capacity t) (frontier_overflow t)"

text \<open>A block in the physical list; \<open>is_last\<close> says whether it is the last one.\<close>

definition block_ok :: "u64 \<Rightarrow> bool \<Rightarrow> iree_hal_memory_tlsf_block_t \<Rightarrow> bool" where
  "block_ok align is_last b \<longleftrightarrow>
     block_length b \<noteq> 0 \<and> unat align dvd unat (block_length b) \<and>
     (has_flag FLAG_LAST (flags b) \<longleftrightarrow> is_last) \<and>
     frontier_ok (frontier b) \<and>
     (has_flag FLAG_TAINTED (flags b) \<longrightarrow> entry_count (frontier b) = 0)"

text \<open>
  \<open>phys\<close> lists the nodes in address order, \<open>unused\<close> the nodes on the unused list and \<open>held\<close> a node
  that an operation has taken from the unused list but not linked yet.
\<close>

definition core_ok ::
    "'u iree_hal_memory_tlsf_t \<Rightarrow> nat list \<Rightarrow> nat list \<Rightarrow> nat list \<Rightarrow> bool" where
  "core_ok t phys unused held \<longleftrightarrow>
     segments_ok t \<and> config_ok t \<and>
     distinct (phys @ unused @ held) \<and> set (phys @ unused @ held) = {..<block_capacity t} \<and>
     phys \<noteq> [] \<and> hd phys = 0 \<and>
     chain (\<lambda>i. next_free (blocks t i)) (unused_node_head t) unused BLOCK_INDEX_NONE \<and>
     dseg (\<lambda>i. prev_physical (blocks t i)) (\<lambda>i. next_physical (blocks t i))
       BLOCK_INDEX_NONE 0 phys BLOCK_INDEX_NONE \<and>
     tiles (blocks t) 0 phys (unat (range_length t)) \<and>
     (\<forall>i\<in>set phys. block_ok (alignment t) (i = last phys) (blocks t i)) \<and>
     (\<forall>i<block_capacity t. length (entries (frontier (blocks t i))) = frontier_capacity t) \<and>
     bytes_free t = (\<Sum>i\<leftarrow>filter (\<lambda>i. is_free (blocks t i)) phys. block_length (blocks t i)) \<and>
     bytes_allocated t = (\<Sum>i\<leftarrow>filter (\<lambda>i. \<not> is_free (blocks t i)) phys. block_length (blocks t i)) \<and>
     allocation_count t = of_nat (length (filter (\<lambda>i. \<not> is_free (blocks t i)) phys))"

lemma core_okD:
  assumes "core_ok t phys unused held"
  shows "segments_ok t" "config_ok t"
    and "distinct (phys @ unused @ held)" "set (phys @ unused @ held) = {..<block_capacity t}"
    and "phys \<noteq> []" "hd phys = 0"
    and "chain (\<lambda>i. next_free (blocks t i)) (unused_node_head t) unused BLOCK_INDEX_NONE"
    and "dseg (\<lambda>i. prev_physical (blocks t i)) (\<lambda>i. next_physical (blocks t i))
       BLOCK_INDEX_NONE 0 phys BLOCK_INDEX_NONE"
    and "tiles (blocks t) 0 phys (unat (range_length t))"
    and "i \<in> set phys \<Longrightarrow> block_ok (alignment t) (i = last phys) (blocks t i)"
    and "i < block_capacity t \<Longrightarrow> length (entries (frontier (blocks t i))) = frontier_capacity t"
    and "bytes_free t = (\<Sum>i\<leftarrow>filter (\<lambda>i. is_free (blocks t i)) phys. block_length (blocks t i))"
    and "bytes_allocated t = (\<Sum>i\<leftarrow>filter (\<lambda>i. \<not> is_free (blocks t i)) phys. block_length (blocks t i))"
    and "allocation_count t = of_nat (length (filter (\<lambda>i. \<not> is_free (blocks t i)) phys))"
    and "i \<in> set phys \<Longrightarrow> i < block_capacity t \<and> i \<noteq> BLOCK_INDEX_NONE"
    and "i \<in> set unused \<Longrightarrow> i < block_capacity t \<and> i \<noteq> BLOCK_INDEX_NONE"
proof -
  show "i \<in> set phys \<Longrightarrow> i < block_capacity t \<and> i \<noteq> BLOCK_INDEX_NONE"
    and "i \<in> set unused \<Longrightarrow> i < block_capacity t \<and> i \<noteq> BLOCK_INDEX_NONE"
    using assms none_not_valid [of t i] by (auto simp: core_ok_def)
qed (use assms in \<open>auto simp: core_ok_def\<close>)

section \<open>Tilings\<close>

lemma tiles_append:
  "tiles g a (xs @ ys) c \<longleftrightarrow> (\<exists>b. tiles g a xs b \<and> tiles g b ys c)"
  by (induction xs arbitrary: a) auto

lemma tiles_cong:
  "(\<And>i. i \<in> set xs \<Longrightarrow> offset (g' i) = offset (g i) \<and> block_length (g' i) = block_length (g i)) \<Longrightarrow>
   tiles g' a xs c \<longleftrightarrow> tiles g a xs c"
  by (induction xs arbitrary: a) auto

lemma tiles_sum: "tiles g a xs c \<Longrightarrow> c = a + (\<Sum>i\<leftarrow>xs. unat (block_length (g i)))"
  by (induction xs arbitrary: a) fastforce+

lemma tiles_bounds:
  assumes "tiles g a xs c" and "i \<in> set xs"
  shows "a \<le> unat (offset (g i))" and "unat (offset (g i)) + unat (block_length (g i)) \<le> c"
proof -
  obtain ys zs where "xs = ys @ i # zs" using assms(2) by (meson split_list)
  with assms(1) obtain b where b: "tiles g a ys b" "tiles g b (i # zs) c"
    by (auto simp: tiles_append)
  show "a \<le> unat (offset (g i))" using b tiles_sum [OF b(1)] by simp
  show "unat (offset (g i)) + unat (block_length (g i)) \<le> c"
    using b(2) tiles_sum by fastforce
qed

lemma bytes_sum:
  assumes "tiles g 0 xs (unat (r :: u64))"
  shows "unat (\<Sum>i\<leftarrow>filter (\<lambda>i. \<not> P i) xs. block_length (g i)) +
      unat (\<Sum>i\<leftarrow>filter P xs. block_length (g i)) = unat r"
proof -
  let ?n = "\<lambda>ys. \<Sum>i\<leftarrow>ys. unat (block_length (g i))"
  have total: "unat r = ?n xs" using tiles_sum [OF assms] by simp
  have split: "?n (filter (\<lambda>i. \<not> P i) xs) + ?n (filter P xs) = ?n xs" by (induction xs) auto
  have exact: "unat (\<Sum>i\<leftarrow>ys. block_length (g i)) = ?n ys" if "?n ys < 2 ^ 64" for ys
    using that by (induction ys) (auto simp: unat_add_no_wrap)
  show ?thesis
    using exact [of "filter P xs"] exact [of "filter (\<lambda>i. \<not> P i) xs"] split total unat_u64_lt [of r] by simp
qed

lemma tiles_disjoint:
  assumes "tiles g a xs c" and "i \<in> set xs" and "j \<in> set xs"
  shows "i = j \<or> unat (offset (g i)) + unat (block_length (g i)) \<le> unat (offset (g j)) \<or>
    unat (offset (g j)) + unat (block_length (g j)) \<le> unat (offset (g i))"
  using assms
proof (induction xs arbitrary: a)
  case (Cons k xs)
  then have t: "tiles g (unat (offset (g k)) + unat (block_length (g k))) xs c" by simp
  show ?case using Cons.IH [OF t] Cons.prems(2,3) tiles_bounds(1) [OF t] by auto
qed simp

section \<open>Frame\<close>

definition geo_view where
  "geo_view t = (range_length t, alignment t, frontier_capacity t, frontier_overflow t,
     block_capacity t, unused_node_head t, bytes_allocated t, bytes_free t, allocation_count t)"

lemma geo_view_core: "core_view t' = core_view t \<Longrightarrow> geo_view t' = geo_view t"
  by (simp add: core_view_def geo_view_def)

text \<open>Two nodes with the same geometry and allocation state.\<close>

definition same_geometry :: "iree_hal_memory_tlsf_block_t \<Rightarrow> iree_hal_memory_tlsf_block_t \<Rightarrow> bool" where
  "same_geometry b b' \<longleftrightarrow> offset b' = offset b \<and> block_length b' = block_length b \<and>
     prev_physical b' = prev_physical b \<and> next_physical b' = next_physical b \<and>
     is_free b' = is_free b \<and> has_flag FLAG_LAST (flags b') = has_flag FLAG_LAST (flags b)"

lemma relinked_same_geometry: "relinked b b' \<Longrightarrow> same_geometry b b'"
  by (simp add: relinked_def same_geometry_def is_free_def)

lemma filter_map_cong:
  assumes "\<And>i. i \<in> set xs \<Longrightarrow> P' i = P i" and "\<And>i. i \<in> set xs \<Longrightarrow> f' i = f i"
  shows "map f' (filter P' xs) = map f (filter P xs)"
  using assms by (induction xs) auto

lemma core_ok_frame:
  assumes core: "core_ok t phys unused held" and "segments_ok t'" and view: "geo_view t' = geo_view t"
    and geo: "\<And>i. i \<in> set phys \<Longrightarrow> same_geometry (blocks t i) (blocks t' i)"
    and front: "\<And>i. i \<in> set phys \<Longrightarrow> frontier_ok (frontier (blocks t' i)) \<and>
      (has_flag FLAG_TAINTED (flags (blocks t' i)) \<longrightarrow> entry_count (frontier (blocks t' i)) = 0)"
    and nxt: "\<And>i. i \<in> set unused \<Longrightarrow> next_free (blocks t' i) = next_free (blocks t i)"
    and len: "\<And>i. i < block_capacity t \<Longrightarrow> length (entries (frontier (blocks t' i))) = frontier_capacity t"
  shows "core_ok t' phys unused held"
proof -
  note D = core_okD [OF core]
  have v: "range_length t' = range_length t" "alignment t' = alignment t"
    "frontier_capacity t' = frontier_capacity t" "frontier_overflow t' = frontier_overflow t"
    "block_capacity t' = block_capacity t" "unused_node_head t' = unused_node_head t"
    "bytes_allocated t' = bytes_allocated t" "bytes_free t' = bytes_free t"
    "allocation_count t' = allocation_count t"
    using view by (simp_all add: geo_view_def)
  have "chain (\<lambda>i. next_free (blocks t' i)) (unused_node_head t) unused BLOCK_INDEX_NONE"
    using D(7) nxt by (subst chain_cong) auto
  moreover have "dseg (\<lambda>i. prev_physical (blocks t' i)) (\<lambda>i. next_physical (blocks t' i))
       BLOCK_INDEX_NONE 0 phys BLOCK_INDEX_NONE"
    using D(8) geo by (subst dseg_cong) (auto simp: same_geometry_def)
  moreover have "tiles (blocks t') 0 phys (unat (range_length t))"
    using D(9) geo by (subst tiles_cong) (auto simp: same_geometry_def)
  moreover have "block_ok (alignment t) (i = last phys) (blocks t' i)" if "i \<in> set phys" for i
    using D(10) [OF that] geo [OF that] front [OF that] by (simp add: block_ok_def same_geometry_def)
  moreover have "map (\<lambda>i. block_length (blocks t' i)) (filter (\<lambda>i. is_free (blocks t' i)) phys) =
      map (\<lambda>i. block_length (blocks t i)) (filter (\<lambda>i. is_free (blocks t i)) phys)"
    by (rule filter_map_cong) (use geo in \<open>auto simp: same_geometry_def\<close>)
  moreover have alloc: "map (\<lambda>i. block_length (blocks t' i)) (filter (\<lambda>i. \<not> is_free (blocks t' i)) phys) =
      map (\<lambda>i. block_length (blocks t i)) (filter (\<lambda>i. \<not> is_free (blocks t i)) phys)"
    by (rule filter_map_cong) (use geo in \<open>auto simp: same_geometry_def\<close>)
  moreover have "length (filter (\<lambda>i. \<not> is_free (blocks t' i)) phys) =
      length (filter (\<lambda>i. \<not> is_free (blocks t i)) phys)"
    using arg_cong [OF alloc, of length] by simp
  moreover have "config_ok t'"
    using D(2) by (simp add: config_ok_def v)
  ultimately show ?thesis
    unfolding core_ok_def v using D(3-6,12-14) assms(2) len by simp
qed

text \<open>Relinking free-list nodes does not disturb the geometry.\<close>

lemma core_ok_relinked:
  assumes core: "core_ok t phys unused held" and "segments_ok t'" and "core_view t' = core_view t"
    and rel: "\<And>j. relinked (blocks t j) (blocks t' j)"
    and same: "\<And>j. j \<notin> set phys \<Longrightarrow> blocks t' j = blocks t j"
  shows "core_ok t' phys unused held"
proof (rule core_ok_frame [OF core assms(2) geo_view_core [OF assms(3)]])
  note D = core_okD [OF core]
  show "same_geometry (blocks t i) (blocks t' i)" for i
    using rel relinked_same_geometry by blast
  show "frontier_ok (frontier (blocks t' i)) \<and>
      (has_flag FLAG_TAINTED (flags (blocks t' i)) \<longrightarrow> entry_count (frontier (blocks t' i)) = 0)"
    if "i \<in> set phys" for i
    using D(10) [OF that] rel [of i] by (simp add: relinked_def block_ok_def)
  show "next_free (blocks t' i) = next_free (blocks t i)" if "i \<in> set unused" for i
  proof -
    have "i \<notin> set phys" using that D(3) by auto
    with same show ?thesis by simp
  qed
  show "length (entries (frontier (blocks t' i))) = frontier_capacity t" if "i < block_capacity t" for i
    using D(11) [OF that] rel [of i] by (simp add: relinked_def)
qed

section \<open>Unused nodes\<close>

lemma alloc_node_ok:
  assumes core: "core_ok t phys (u # us) []" and bins: "bins_ok t bins S" and S: "S \<subseteq> set phys"
  shows "\<exists>t'. iree_hal_memory_tlsf_alloc_node t = (u, t') \<and> core_ok t' phys us [u] \<and> bins_ok t' bins S \<and>
     blocks t' = (blocks t)(u := zero_block (frontier_capacity t)) \<and>
     core_view t' = core_view (t\<lparr>unused_node_head := next_free (blocks t u)\<rparr>)"
proof -
  note D = core_okD [OF core]
  have u: "unused_node_head t = u" "u < block_capacity t" using D(7,16) by auto
  have nu: "u \<notin> set phys" "u \<notin> set us" using D(3) by auto
  define t' where "t' = block_write u (\<lambda>_. zero_block (frontier_capacity t))
      (t\<lparr>unused_node_head := next_free (blocks t u)\<rparr>)"
  have b: "blocks t' = (blocks t)(u := zero_block (frontier_capacity t))"
    using D(1) u(2) by (simp add: t'_def blocks_write)
  have "iree_hal_memory_tlsf_alloc_node t = (u, t')"
    using u D(1) by (simp add: iree_hal_memory_tlsf_alloc_node_def Let_def block_at_blocks t'_def)
  moreover have "core_ok (t\<lparr>unused_node_head := next_free (blocks t u)\<rparr>) phys us [u]"
  proof -
    have "set (phys @ us @ [u]) = {..<block_capacity t}" "distinct (phys @ us @ [u])"
      using D(3,4) by auto
    moreover have "config_ok (t\<lparr>unused_node_head := next_free (blocks t u)\<rparr>) = config_ok t"
      by (simp add: config_ok_def)
    ultimately show ?thesis
      using core by (simp add: core_ok_def)
  qed
  then have "core_ok t' phys us [u]"
    by (rule core_ok_frame)
      (use b D(1) D(10) D(11) nu in \<open>auto simp: t'_def geo_view_def same_geometry_def block_ok_def zero_block_def\<close>)
  moreover have "bins_ok t' bins S"
    by (rule bins_ok_frame [OF bins]) (use b S nu in \<open>auto simp: t'_def\<close>)
  ultimately show ?thesis
    using b by (auto simp: t'_def core_view_def)
qed

section \<open>Allocation marks\<close>

lemma sum_filter_remove1:
  fixes f :: "'b \<Rightarrow> 'a::comm_monoid_add"
  assumes "i \<in> set xs"
  shows "(\<Sum>j\<leftarrow>filter P xs. f j) = (if P i then f i else 0) + (\<Sum>j\<leftarrow>filter P (remove1 i xs). f j)"
  using assms by (induction xs) (auto simp: add.left_commute)

lemma length_filter_remove1:
  "i \<in> set xs \<Longrightarrow> length (filter P xs) = (if P i then 1 else 0) + length (filter P (remove1 i xs))"
  by (induction xs) auto

text \<open>The three counters after one node changed, relative to the sums over the other nodes.\<close>

lemma counters_split:
  fixes g g' :: "nat \<Rightarrow> iree_hal_memory_tlsf_block_t"
  assumes "i \<in> set phys" and "distinct phys" and other: "\<And>j. j \<noteq> i \<Longrightarrow> g' j = g j"
  shows "(\<Sum>j\<leftarrow>filter (\<lambda>j. Q (g' j)) phys. block_length (g' j)) =
      (if Q (g' i) then block_length (g' i) else 0) +
      (\<Sum>j\<leftarrow>filter (\<lambda>j. Q (g j)) (remove1 i phys). block_length (g j))"
    and "length (filter (\<lambda>j. Q (g' j)) phys) =
      (if Q (g' i) then 1 else 0) + length (filter (\<lambda>j. Q (g j)) (remove1 i phys))"
proof -
  have m: "map (\<lambda>j. block_length (g' j)) (filter (\<lambda>j. Q (g' j)) (remove1 i phys)) =
      map (\<lambda>j. block_length (g j)) (filter (\<lambda>j. Q (g j)) (remove1 i phys))"
    by (rule filter_map_cong) (use assms in auto)
  then show "(\<Sum>j\<leftarrow>filter (\<lambda>j. Q (g' j)) phys. block_length (g' j)) =
      (if Q (g' i) then block_length (g' i) else 0) +
      (\<Sum>j\<leftarrow>filter (\<lambda>j. Q (g j)) (remove1 i phys). block_length (g j))"
    using sum_filter_remove1 [OF assms(1), where P = "\<lambda>j. Q (g' j)" and f = "\<lambda>j. block_length (g' j)"] by simp
  show "length (filter (\<lambda>j. Q (g' j)) phys) =
      (if Q (g' i) then 1 else 0) + length (filter (\<lambda>j. Q (g j)) (remove1 i phys))"
    using length_filter_remove1 [OF assms(1), of "\<lambda>j. Q (g' j)"] arg_cong [OF m, of length] by simp
qed

text \<open>The sums only depend on the allocation state and the lengths.\<close>

lemma free_sums_cong:
  assumes "\<And>j. j \<in> set zs \<Longrightarrow> is_free (g' j) = is_free (g j) \<and> block_length (g' j) = block_length (g j)"
  shows "(\<Sum>j\<leftarrow>filter (\<lambda>j. Q (is_free (g' j))) zs. block_length (g' j)) =
      (\<Sum>j\<leftarrow>filter (\<lambda>j. Q (is_free (g j))) zs. block_length (g j))"
    and "filter (\<lambda>j. Q (is_free (g' j))) zs = filter (\<lambda>j. Q (is_free (g j))) zs"
  using assms by (induction zs) auto

text \<open>
  Setting or clearing the FREE flag of one block, with the counters adjusted by its length.
\<close>

lemma core_ok_mark:
  assumes core: "core_ok t phys unused held" and i: "i \<in> set phys" and "segments_ok t'"
    and b: "blocks t' = (blocks t)(i := (blocks t i)\<lparr>flags := w\<rparr>)"
    and w: "has_flag FLAG_LAST w = has_flag FLAG_LAST (flags (blocks t i))"
      "has_flag FLAG_TAINTED w = has_flag FLAG_TAINTED (flags (blocks t i))"
      "has_flag FLAG_FREE w \<noteq> is_free (blocks t i)"
    and same: "range_length t' = range_length t" "alignment t' = alignment t"
      "frontier_capacity t' = frontier_capacity t" "frontier_overflow t' = frontier_overflow t"
      "block_capacity t' = block_capacity t" "unused_node_head t' = unused_node_head t"
    and counters: "bytes_free t' = (if is_free (blocks t i) then bytes_free t - block_length (blocks t i)
                                    else bytes_free t + block_length (blocks t i))"
      "bytes_allocated t' = (if is_free (blocks t i) then bytes_allocated t + block_length (blocks t i)
                             else bytes_allocated t - block_length (blocks t i))"
      "allocation_count t' = (if is_free (blocks t i) then allocation_count t + 1 else allocation_count t - 1)"
  shows "core_ok t' phys unused held"
proof -
  note D = core_okD [OF core]
  have dist: "distinct phys" using D(3) by auto
  have ni: "i \<notin> set unused" using D(3) i by auto
  have other: "\<And>j. j \<noteq> i \<Longrightarrow> blocks t' j = blocks t j" using b by simp
  note c' = counters_split [OF i dist, of "blocks t'" "blocks t", OF other] and c = counters_split [OF i dist, of "blocks t" "blocks t", OF refl]
  have fi: "is_free (blocks t' i) \<longleftrightarrow> \<not> is_free (blocks t i)" "block_length (blocks t' i) = block_length (blocks t i)"
    using w(3) b by (auto simp: is_free_def)
  have "chain (\<lambda>i. next_free (blocks t' i)) (unused_node_head t) unused BLOCK_INDEX_NONE"
    using D(7) ni by (subst chain_cong) (auto simp: b)
  moreover have "dseg (\<lambda>i. prev_physical (blocks t' i)) (\<lambda>i. next_physical (blocks t' i))
       BLOCK_INDEX_NONE 0 phys BLOCK_INDEX_NONE"
    using D(8) by (subst dseg_cong) (auto simp: b)
  moreover have "tiles (blocks t') 0 phys (unat (range_length t))"
    using D(9) by (subst tiles_cong) (auto simp: b)
  moreover have "block_ok (alignment t) (j = last phys) (blocks t' j)" if "j \<in> set phys" for j
    using D(10) [OF that] w by (auto simp: b block_ok_def)
  moreover have "length (entries (frontier (blocks t' j))) = frontier_capacity t" if "j < block_capacity t" for j
    using D(11) [OF that] by (auto simp: b)
  moreover have "config_ok t'" using D(2) by (simp add: config_ok_def same)
  moreover have "bytes_free t' = (\<Sum>j\<leftarrow>filter (\<lambda>j. is_free (blocks t' j)) phys. block_length (blocks t' j))"
    using c(1) [of is_free] c'(1) [of is_free] D(12) fi unfolding counters by auto
  moreover have "bytes_allocated t' = (\<Sum>j\<leftarrow>filter (\<lambda>j. \<not> is_free (blocks t' j)) phys. block_length (blocks t' j))"
    using c(1) [of "\<lambda>b. \<not> is_free b"] c'(1) [of "\<lambda>b. \<not> is_free b"] D(13) fi unfolding counters by auto
  moreover have "allocation_count t' = of_nat (length (filter (\<lambda>j. \<not> is_free (blocks t' j)) phys))"
    using c(2) [of "\<lambda>b. \<not> is_free b"] c'(2) [of "\<lambda>b. \<not> is_free b"] D(14) fi unfolding counters by auto
  ultimately show ?thesis
    unfolding core_ok_def same using D(3-6) assms(3) by simp
qed

end
