(* ===== verification/TLSF_Split.thy ===== *)
theory TLSF_Split
  imports TLSF_Core
begin

text \<open>
  Splitting a free block of the TLSF allocator: the new node takes the tail of the range, inherits
  the dependency metadata and the LAST flag, and the physical list still tiles the managed range.
\<close>

lemma split_links_effect:
  fixes a m :: iree_device_size_t
  assumes ok: "segments_ok t" and i: "i < block_capacity t" and r: "r < block_capacity t" "r \<noteq> i"
    and n: "next_physical (blocks t i) = n" "n \<noteq> BLOCK_INDEX_NONE \<longrightarrow> n < block_capacity t \<and> n \<noteq> i \<and> n \<noteq> r"
  defines "b \<equiv> blocks t i"
  defines "t' \<equiv> split_links i r a m t"
  shows "blocks t' =
      (let g = (blocks t)
             (i := b\<lparr>flags := (if has_flag FLAG_LAST (flags b) then flags b AND NOT FLAG_LAST else flags b),
                     next_physical := r, block_length := a\<rparr>,
              r := (blocks t r)\<lparr>offset := offset b + a, block_length := m, prev_physical := i,
                     next_physical := n,
                     flags := (if has_flag FLAG_LAST (flags b)
                               then (FLAG_FREE OR (flags b AND FLAG_TAINTED)) OR FLAG_LAST
                               else FLAG_FREE OR (flags b AND FLAG_TAINTED)),
                     frontier := frontier_copy (frontier (blocks t r)) (frontier b)\<rparr>)
       in if n \<noteq> BLOCK_INDEX_NONE then g(n := (blocks t n)\<lparr>prev_physical := r\<rparr>) else g)"
    and "segments_ok t'" and "core_view t' = core_view t"
    and "free_lists t' = free_lists t" "sl_bitmaps t' = sl_bitmaps t" "fl_bitmap t' = fl_bitmap t"
      "free_block_count t' = free_block_count t"
  using assms
  by (auto simp: split_links_def Let_def block_at_blocks blocks_write core_view_def fun_eq_iff)

lemma block_range_no_wrap:
  assumes "core_ok t phys unused held" and "i \<in> set phys"
  shows "unat (offset (blocks t i)) + unat (block_length (blocks t i)) \<le> unat (range_length t)"
  using tiles_bounds(2) [OF core_okD(9) [OF assms(1)] assms(2)] .

lemma split_links_ok:
  assumes core: "core_ok t (xs @ i # ys) unused [r]" and free: "is_free (blocks t i)"
    and am: "unat a + unat m = unat (block_length (blocks t i))" "a \<noteq> 0" "m \<noteq> 0"
      "unat (alignment t) dvd unat a" "unat (alignment t) dvd unat m"
  defines "t' \<equiv> split_links i r a m t"
  shows "core_ok t' (xs @ i # r # ys) unused []"
    and "is_free (blocks t' i)" "is_free (blocks t' r)" "block_length (blocks t' i) = a"
      "block_length (blocks t' r) = m"
    and "j \<in> set xs \<union> set ys \<Longrightarrow> is_free (blocks t' j) = is_free (blocks t j) \<and>
      block_length (blocks t' j) = block_length (blocks t j)"
    and "j \<in> set xs \<union> set ys \<Longrightarrow> offset (blocks t' j) = offset (blocks t j) \<and>
      flags (blocks t' j) = flags (blocks t j) \<and> frontier (blocks t' j) = frontier (blocks t j)"
    and "j \<noteq> i \<Longrightarrow> j \<noteq> r \<Longrightarrow> prev_free (blocks t' j) = prev_free (blocks t j) \<and>
      next_free (blocks t' j) = next_free (blocks t j)"
    and "free_lists t' = free_lists t" "sl_bitmaps t' = sl_bitmaps t" "fl_bitmap t' = fl_bitmap t"
      "free_block_count t' = free_block_count t" "core_view t' = core_view t"
    and "offset (blocks t' i) = offset (blocks t i)" "frontier (blocks t' i) = frontier (blocks t i)"
      "has_flag FLAG_TAINTED (flags (blocks t' i)) = has_flag FLAG_TAINTED (flags (blocks t i))"
      "offset (blocks t' r) = offset (blocks t i) + a" "live (frontier (blocks t' r)) = live (frontier (blocks t i))"
      "has_flag FLAG_TAINTED (flags (blocks t' r)) = has_flag FLAG_TAINTED (flags (blocks t i))"
proof -
  note D = core_okD [OF core]
  have icap: "i < block_capacity t" using D(15) by simp
  have r: "r < block_capacity t" "r \<noteq> i" "r \<notin> set xs" "r \<notin> set ys" "r \<notin> set unused"
    using D(3,4) by auto
  have dist: "distinct (xs @ i # ys)" "i \<notin> set unused" "set ys \<inter> set unused = {}" "set xs \<inter> set unused = {}"
    using D(3) by auto
  define n where "n = hd (ys @ [BLOCK_INDEX_NONE])"
  have n: "next_physical (blocks t i) = n"
    using dseg_links(2) [OF D(8)] by (simp add: n_def)
  have nn: "n \<noteq> BLOCK_INDEX_NONE \<longleftrightarrow> ys \<noteq> []" "ys \<noteq> [] \<Longrightarrow> n = hd ys \<and> n \<in> set ys"
    using D(15) by (cases ys; auto simp: n_def)+
  have n': "n \<noteq> BLOCK_INDEX_NONE \<longrightarrow> n < block_capacity t \<and> n \<noteq> i \<and> n \<noteq> r"
  proof
    assume "n \<noteq> BLOCK_INDEX_NONE"
    then have mem: "n \<in> set ys" using nn by blast
    then have "n < block_capacity t" using D(15) [of n] by simp
    moreover have "n \<noteq> i" using mem dist(1) by auto
    moreover have "n \<noteq> r" using mem r(4) by auto
    ultimately show "n < block_capacity t \<and> n \<noteq> i \<and> n \<noteq> r" by blast
  qed
  note E = split_links_effect [OF D(1) icap r(1,2) n n', of a m, folded t'_def, unfolded nn(1)]
  let ?g = "blocks t" and ?g' = "blocks t'"
  have gi: "?g' i = (?g i)\<lparr>flags := (if has_flag FLAG_LAST (flags (?g i)) then flags (?g i) AND NOT FLAG_LAST
        else flags (?g i)), next_physical := r, block_length := a\<rparr>"
    unfolding E(1) Let_def using r(2) nn n' by auto
  have gr: "?g' r = (?g r)\<lparr>offset := offset (?g i) + a, block_length := m, prev_physical := i,
        next_physical := n, flags := (if has_flag FLAG_LAST (flags (?g i))
          then (FLAG_FREE OR (flags (?g i) AND FLAG_TAINTED)) OR FLAG_LAST
          else FLAG_FREE OR (flags (?g i) AND FLAG_TAINTED)),
        frontier := frontier_copy (frontier (?g r)) (frontier (?g i))\<rparr>"
    unfolding E(1) Let_def using r(2) nn n' by auto
  have go: "?g' j = (if ys \<noteq> [] \<and> j = n then (?g j)\<lparr>prev_physical := r\<rparr> else ?g j)" if "j \<noteq> i" "j \<noteq> r" for j
    unfolding E(1) Let_def using that by auto
  have go': "?g' j = (if ys \<noteq> [] \<and> j = n then (?g j)\<lparr>prev_physical := r\<rparr> else ?g j)"
    if "j \<in> set xs \<union> set ys \<union> set unused" for j
  proof (rule go)
    show "j \<noteq> i" using that dist by auto
    show "j \<noteq> r" using that r by auto
  qed
  have bi: "block_ok (alignment t) (ys = []) (?g i)"
    using D(10) [of i] dist(1) by (cases ys rule: rev_cases) auto
  show facts: "is_free (?g' i)" "is_free (?g' r)" "block_length (?g' i) = a" "block_length (?g' r) = m"
    "offset (?g' i) = offset (?g i)" "frontier (?g' i) = frontier (?g i)"
    "has_flag FLAG_TAINTED (flags (?g' i)) = has_flag FLAG_TAINTED (flags (?g i))"
    "offset (?g' r) = offset (?g i) + a"
    "has_flag FLAG_TAINTED (flags (?g' r)) = has_flag FLAG_TAINTED (flags (?g i))"
    using free by (simp_all add: gi gr is_free_def)
  have fr: "length (entries (frontier (?g i))) = frontier_capacity t"
    "length (entries (frontier (?g r))) = frontier_capacity t" "entry_count (frontier (?g i)) \<le> frontier_capacity t"
    using D(11) icap r(1) bi by (auto simp: block_ok_def dest: frontier_okD(1))
  show live_r: "live (frontier (?g' r)) = live (frontier (?g i))"
    using fr by (simp add: gr live_def frontier_copy_def)
  show outer: "is_free (?g' j) = is_free (?g j) \<and> block_length (?g' j) = block_length (?g j)"
    if "j \<in> set xs \<union> set ys" for j
    using go' [OF UnI1 [OF that]] by (simp add: is_free_def)
  show "offset (?g' j) = offset (?g j) \<and> flags (?g' j) = flags (?g j) \<and> frontier (?g' j) = frontier (?g j)"
    if "j \<in> set xs \<union> set ys" for j
    using go' [OF UnI1 [OF that]] by simp
  show "j \<noteq> i \<Longrightarrow> j \<noteq> r \<Longrightarrow> prev_free (?g' j) = prev_free (?g j) \<and> next_free (?g' j) = next_free (?g j)" for j
    using go [of j] by auto
  show "free_lists t' = free_lists t" "sl_bitmaps t' = sl_bitmaps t" "fl_bitmap t' = fl_bitmap t"
    "free_block_count t' = free_block_count t" "core_view t' = core_view t"
    by (fact E(3-7))+
  have v: "range_length t' = range_length t" "alignment t' = alignment t"
    "frontier_capacity t' = frontier_capacity t" "frontier_overflow t' = frontier_overflow t"
    "block_capacity t' = block_capacity t" "unused_node_head t' = unused_node_head t"
    "bytes_allocated t' = bytes_allocated t" "bytes_free t' = bytes_free t"
    "allocation_count t' = allocation_count t"
    using E(3) by (simp_all add: core_view_def)
  have seg: "dseg (\<lambda>j. prev_physical (?g' j)) (\<lambda>j. next_physical (?g' j)) BLOCK_INDEX_NONE 0
      (xs @ i # r # ys) BLOCK_INDEX_NONE"
  proof -
    have d: "distinct (xs @ i # r # ys)" using dist(1) r by auto
    have P: "(\<lambda>j. prev_physical (?g' j)) = (if ys = [] then (\<lambda>j. prev_physical (?g j))(r := i)
        else (\<lambda>j. prev_physical (?g j))(r := i, hd ys := r))"
    proof
      fix j
      show "prev_physical (?g' j) = (if ys = [] then (\<lambda>j. prev_physical (?g j))(r := i)
        else (\<lambda>j. prev_physical (?g j))(r := i, hd ys := r)) j"
        using go [of j] nn n' r(2) by (cases "j = i"; cases "j = r") (auto simp: gi gr)
    qed
    have N: "(\<lambda>j. next_physical (?g' j)) = (\<lambda>j. next_physical (?g j))(r := next_physical (?g i), i := r)"
    proof
      fix j
      show "next_physical (?g' j) = ((\<lambda>j. next_physical (?g j))(r := next_physical (?g i), i := r)) j"
        using go [of j] n r(2) by (cases "j = i"; cases "j = r") (auto simp: gi gr)
    qed
    show ?thesis
      unfolding P N using dseg_insert_after [OF D(8) d] .
  qed
  have tl: "tiles ?g' 0 (xs @ i # r # ys) (unat (range_length t))"
  proof -
    obtain c where c: "tiles ?g 0 xs c" "tiles ?g c (i # ys) (unat (range_length t))"
      using D(9) by (auto simp: tiles_append)
    have "tiles ?g' 0 xs c"
      by (subst tiles_cong [where g = ?g]) (use c(1) go' in auto)
    moreover have "tiles ?g' (c + unat (block_length (?g i))) ys (unat (range_length t))"
      by (subst tiles_cong [where g = ?g]) (use c(2) go' in auto)
    moreover have "unat (offset (?g i) + a) = unat (offset (?g i)) + unat a"
      using block_range_no_wrap [OF core, of i] am(1) unat_u64_lt [of "range_length t"]
      by (intro unat_add_no_wrap) simp
    ultimately show ?thesis
      using c(2) am(1) unfolding tiles_append by (auto simp: facts add.assoc)
  qed
  have bo: "block_ok (alignment t) (j = last (xs @ i # r # ys)) (?g' j)" if jm: "j \<in> set (xs @ i # r # ys)" for j
  proof -
    consider (i) "j = i" | (r) "j = r" | (o) "j \<noteq> i" "j \<noteq> r" "j \<in> set (xs @ i # ys)" using jm by auto
    then show ?thesis
    proof cases
      case i
      moreover have "i \<noteq> last (xs @ i # r # ys)" using dist(1) r(2) by (auto simp: last_in_set)
      ultimately show ?thesis using bi am by (auto simp: gi block_ok_def)
    next
      case r
      moreover have "r = last (xs @ i # r # ys) \<longleftrightarrow> ys = []" using \<open>r \<notin> set ys\<close> by auto
      moreover have "frontier_ok (frontier (?g' r))"
        using bi fr live_r by (auto simp: block_ok_def frontier_ok_def gr frontier_copy_def)
      ultimately show ?thesis
        using bi am by (auto simp: gr block_ok_def frontier_copy_def)
    next
      case o
      have "last (xs @ i # r # ys) = (if ys = [] then r else last (xs @ i # ys))" by simp
      then have "j = last (xs @ i # r # ys) \<longleftrightarrow> j = last (xs @ i # ys)" using o(1,2) by auto
      then show ?thesis using D(10) [OF o(3)] go [OF o(1,2)] by (auto simp: block_ok_def)
    qed
  qed
  have len: "length (entries (frontier (?g' j))) = frontier_capacity t" if "j < block_capacity t" for j
    using D(11) [OF that] go [of j] fr by (cases "j = i"; cases "j = r") (auto simp: gi gr frontier_copy_def)
  note sx = free_sums_cong [of xs ?g' ?g, OF outer [OF UnI1]] and sy = free_sums_cong [of ys ?g' ?g, OF outer [OF UnI2]]
  have sum: "a + m = block_length (?g i)"
    using am(1) unat_add_no_wrap [of a m] unat_u64_lt [of "block_length (?g i)"]
    by (simp add: word_unat_eq_iff)
  have bf: "bytes_free t = (\<Sum>j\<leftarrow>filter (\<lambda>j. is_free (?g' j)) (xs @ i # r # ys). block_length (?g' j))"
    using D(12) free facts(1-4) sum sx(1) [of "\<lambda>x. x"] sy(1) [of "\<lambda>x. x"]
    by (simp add: add.assoc [symmetric])
  have ba: "bytes_allocated t = (\<Sum>j\<leftarrow>filter (\<lambda>j. \<not> is_free (?g' j)) (xs @ i # r # ys). block_length (?g' j))"
    using D(13) free facts(1-4) sx(1) [of Not] sy(1) [of Not] by simp
  have ac: "allocation_count t = of_nat (length (filter (\<lambda>j. \<not> is_free (?g' j)) (xs @ i # r # ys)))"
    using D(14) free facts sx(2) [of Not] sy(2) [of Not] by simp
  have "chain (\<lambda>j. next_free (?g' j)) (unused_node_head t) unused BLOCK_INDEX_NONE"
    using D(7) go' by (subst chain_cong) auto
  moreover have "distinct ((xs @ i # r # ys) @ unused @ [])" "set ((xs @ i # r # ys) @ unused @ []) = {..<block_capacity t}"
    using D(3,4) by auto
  moreover have "hd (xs @ i # r # ys) = 0" using D(6) by (cases xs) auto
  moreover have "config_ok t'" using D(2) by (simp add: config_ok_def v)
  ultimately show "core_ok t' (xs @ i # r # ys) unused []"
    unfolding core_ok_def v using E(2) seg tl bo len bf ba ac by blast
qed

end
