(* ===== verification/TLSF_Coalesce.thy ===== *)
theory TLSF_Coalesce
  imports TLSF_Split
begin

text \<open>
  Merging frontiers and absorbing a right neighbour in the TLSF allocator: the geometry is kept, and
  the surviving block either dominates the causal history of both blocks or is tainted.
\<close>

section \<open>Frontier merging\<close>

text \<open>What a merge of \<open>source\<close> into a block with flags \<open>w0\<close> and frontier \<open>f0\<close> may leave.\<close>

definition merge_result ::
    "bool \<Rightarrow> nat \<Rightarrow> iree_async_frontier_t option \<Rightarrow> u32 \<Rightarrow> iree_async_frontier_t \<Rightarrow> u32 \<Rightarrow>
     iree_async_frontier_t \<Rightarrow> bool" where
  "merge_result captured cap source w0 f0 w f \<longleftrightarrow>
     frontier_ok f \<and> length (entries f) = cap \<and>
     (w = w0 \<or> w = w0 OR FLAG_TAINTED) \<and>
     (has_flag FLAG_TAINTED w \<longrightarrow> entry_count f = 0) \<and>
     (has_flag FLAG_TAINTED w \<or> captured \<or>
        clock_le (live f0) (live f) \<and> (\<forall>s. source = Some s \<longrightarrow> clock_le (live s) (live f)))"

lemma merge_frontiers_effect:
  assumes core: "core_ok t phys unused held" and i: "i \<in> set phys"
    and src: "\<And>s. source = Some s \<Longrightarrow> frontier_ok s"
  defines "t' \<equiv> iree_hal_memory_tlsf_merge_frontiers i source t"
  obtains w f where "blocks t' = (blocks t)(i := (blocks t i)\<lparr>flags := w, frontier := f\<rparr>)"
    and "merge_result (frontier_overflow t \<noteq> None) (frontier_capacity t) source
           (flags (blocks t i)) (frontier (blocks t i)) w f"
    and "segments_ok t'" and "geo_view t' = geo_view t" and "free_lists t' = free_lists t"
    and "sl_bitmaps t' = sl_bitmaps t" and "fl_bitmap t' = fl_bitmap t"
    and "free_block_count t' = free_block_count t" and "frontier_overflow t' = frontier_overflow t"
proof -
  note D = core_okD [OF core]
  let ?b = "blocks t i"
  have icap: "i < block_capacity t" using D(15) i by blast
  note at = block_at_blocks [OF icap]
  have bi: "frontier_ok (frontier ?b)" "has_flag FLAG_TAINTED (flags ?b) \<longrightarrow> entry_count (frontier ?b) = 0"
    using D(10) [OF i] by (auto simp: block_ok_def)
  have len: "length (entries (frontier ?b)) = frontier_capacity t" by (rule D(11) [OF icap])
  have same: "(blocks t)(i := ?b\<lparr>flags := flags ?b, frontier := frontier ?b\<rparr>) = blocks t" by simp
  show ?thesis
  proof (cases "\<exists>s. source = Some s \<and> entry_count s \<noteq> 0 \<and> \<not> has_flag FLAG_TAINTED (flags ?b)")
    case False
    then have t': "t' = t"
      by (auto simp: t'_def iree_hal_memory_tlsf_merge_frontiers_def at split: option.split)
    have "clock_le (live s) (live (frontier ?b))" if "source = Some s" "entry_count s = 0" for s
      using that by (simp add: live_def)
    then show ?thesis
      using False bi len same D(1) t' by (intro that [where w = "flags ?b" and f = "frontier ?b"]) (auto simp: merge_result_def)
  next
    case True
    then obtain s where s: "source = Some s" "entry_count s \<noteq> 0" "\<not> has_flag FLAG_TAINTED (flags ?b)" by blast
    have fs: "frontier_ok s" by (rule src [OF s(1)])
    have cap: "entry_count (frontier ?b) \<le> frontier_capacity t" "frontier_capacity t \<le> 255"
      using frontier_okD(1) [OF bi(1)] len D(2) by (auto simp: config_ok_def)
    note unf = t'_def iree_hal_memory_tlsf_merge_frontiers_def s at
    show ?thesis
    proof (cases "length (clock_join (live (frontier ?b)) (live s)) \<le> frontier_capacity t")
      case True
      obtain f where f: "iree_async_frontier_merge (frontier ?b) (frontier_capacity t) s = (True, f)"
        "frontier_ok f" "live f = clock_join (live (frontier ?b)) (live s)"
        "length (entries f) = frontier_capacity t"
        using merge_succeeds [OF bi(1) fs cap(1) _ cap(2) True] len by auto
      have "t' = block_write i (\<lambda>b. b\<lparr>frontier := f\<rparr>) t"
        using s f(1) by (simp add: unf)
      then show ?thesis
        using f s D(1) icap bi(1) fs clock_le_join [OF frontier_okD(3) [OF bi(1)] frontier_okD(3) [OF fs]]
        by (intro that [where w = "flags ?b" and f = f]) (auto simp: merge_result_def blocks_write geo_view_def)
    next
      case False
      then have over: "iree_async_frontier_merge (frontier ?b) (frontier_capacity t) s = (False, frontier ?b)"
        using merge_fails [OF bi(1) fs cap(1)] by simp
      show ?thesis
      proof (cases "frontier_overflow t")
        case None
        then have "t' = (block_write i (\<lambda>b. b\<lparr>frontier := (frontier b)\<lparr>entry_count := 0\<rparr>\<rparr>)
            (block_write i (\<lambda>b. b\<lparr>flags := flags b OR FLAG_TAINTED\<rparr>) t))
            \<lparr>tainted_coalesce_count := tainted_coalesce_count t + 1\<rparr>"
          using s over by (simp add: unf Let_def)
        then show ?thesis
          using D(1) icap len
          by (intro that [where w = "flags ?b OR FLAG_TAINTED" and f = "(frontier ?b)\<lparr>entry_count := 0\<rparr>"])
            (auto simp: merge_result_def blocks_write geo_view_def frontier_ok_def live_def)
      next
        case (Some capture)
        define c where "c = capture (frontier_overflow_user_data t) (frontier ?b) s"
        have c: "frontier_ok (snd c)" "length (entries (snd c)) = frontier_capacity t"
          using D(2) Some bi(1) len fs unfolding c_def by (auto simp: config_ok_def capture_ok_def)
        have "t' = block_write i (\<lambda>b. b\<lparr>frontier := snd c\<rparr>) (t\<lparr>frontier_overflow_user_data := fst c\<rparr>)"
          using s over Some by (simp add: unf Let_def c_def split: prod.split)
        then show ?thesis
          using c s Some D(1) icap
          by (intro that [where w = "flags ?b" and f = "snd c"]) (auto simp: merge_result_def blocks_write geo_view_def)
      qed
    qed
  qed
qed

text \<open>Replacing the dependency metadata of one block keeps geometry and matrix.\<close>

lemma core_ok_metadata:
  assumes core: "core_ok t phys unused held" and i: "i \<in> set phys" and "segments_ok t'"
    and "geo_view t' = geo_view t"
    and b: "blocks t' = (blocks t)(i := (blocks t i)\<lparr>flags := w, frontier := f\<rparr>)"
    and w: "has_flag FLAG_FREE w = has_flag FLAG_FREE (flags (blocks t i))"
      "has_flag FLAG_LAST w = has_flag FLAG_LAST (flags (blocks t i))"
    and f: "frontier_ok f" "length (entries f) = frontier_capacity t"
      "has_flag FLAG_TAINTED w \<longrightarrow> entry_count f = 0"
  shows "core_ok t' phys unused held"
proof (rule core_ok_frame [OF core assms(3,4)])
  note D = core_okD [OF core]
  show "same_geometry (blocks t j) (blocks t' j)" for j
    by (simp add: b same_geometry_def is_free_def w)
  show "frontier_ok (frontier (blocks t' j)) \<and>
      (has_flag FLAG_TAINTED (flags (blocks t' j)) \<longrightarrow> entry_count (frontier (blocks t' j)) = 0)"
    if "j \<in> set phys" for j
    using D(10) [OF that] f by (simp add: b block_ok_def)
  show "next_free (blocks t' j) = next_free (blocks t j)" for j by (simp add: b)
  show "length (entries (frontier (blocks t' j))) = frontier_capacity t" if "j < block_capacity t" for j
    using D(11) [OF that] f(2) by (simp add: b)
qed

lemma bins_ok_metadata:
  assumes "bins_ok t bins S" and "block_capacity t' = block_capacity t"
    and "free_lists t' = free_lists t" "sl_bitmaps t' = sl_bitmaps t" "fl_bitmap t' = fl_bitmap t"
      "free_block_count t' = free_block_count t"
    and "blocks t' = (blocks t)(i := (blocks t i)\<lparr>flags := w, frontier := f\<rparr>)"
  shows "bins_ok t' bins S"
  by (rule bins_ok_frame [OF assms(1-6)]) (simp add: assms(7))

section \<open>Absorbing the right neighbour\<close>

lemma absorb_links_effect:
  assumes ok: "segments_ok t" and a: "a < block_capacity t" and b: "b < block_capacity t" "b \<noteq> a"
    and n: "next_physical (blocks t b) = n" "n \<noteq> BLOCK_INDEX_NONE \<longrightarrow> n < block_capacity t \<and> n \<noteq> a \<and> n \<noteq> b"
  defines "A \<equiv> blocks t a" and "B \<equiv> blocks t b"
  defines "t' \<equiv> absorb_links a b t"
  shows "blocks t' =
      (let F = (if has_flag FLAG_LAST (flags B) then flags A OR FLAG_LAST else flags A);
           g = (blocks t)
             (a := A\<lparr>block_length := block_length A + block_length B,
                     flags := (if has_flag FLAG_TAINTED (flags B) then F OR FLAG_TAINTED else F),
                     frontier := (if has_flag FLAG_TAINTED (flags B)
                                  then (frontier A)\<lparr>entry_count := 0\<rparr> else frontier A),
                     next_physical := n\<rparr>,
              b := (zero_block (frontier_capacity t))\<lparr>next_free := unused_node_head t\<rparr>)
       in if n \<noteq> BLOCK_INDEX_NONE then g(n := (blocks t n)\<lparr>prev_physical := a\<rparr>) else g)"
    and "segments_ok t'" and "core_view t' = core_view (t\<lparr>unused_node_head := b\<rparr>)"
    and "free_lists t' = free_lists t" "sl_bitmaps t' = sl_bitmaps t" "fl_bitmap t' = fl_bitmap t"
      "free_block_count t' = free_block_count t"
  using assms
  by (auto simp: absorb_links_def iree_hal_memory_tlsf_free_node_def Let_def block_at_blocks blocks_write
      core_view_def fun_eq_iff)

lemma absorb_links_ok:
  assumes core: "core_ok t (xs @ a # b # ys) unused []" and free: "is_free (blocks t a)" "is_free (blocks t b)"
  defines "t' \<equiv> absorb_links a b t"
  shows "core_ok t' (xs @ a # ys) (b # unused) []"
    and "is_free (blocks t' a)"
    and "j \<in> set xs \<union> set ys \<Longrightarrow> is_free (blocks t' j) = is_free (blocks t j) \<and>
      block_length (blocks t' j) = block_length (blocks t j)"
    and "j \<in> set xs \<union> set ys \<Longrightarrow> offset (blocks t' j) = offset (blocks t j) \<and>
      flags (blocks t' j) = flags (blocks t j) \<and> frontier (blocks t' j) = frontier (blocks t j)"
    and "j \<noteq> a \<Longrightarrow> j \<noteq> b \<Longrightarrow> prev_free (blocks t' j) = prev_free (blocks t j) \<and>
      next_free (blocks t' j) = next_free (blocks t j)"
    and "free_lists t' = free_lists t" "sl_bitmaps t' = sl_bitmaps t" "fl_bitmap t' = fl_bitmap t"
      "free_block_count t' = free_block_count t"
    and "offset (blocks t' a) = offset (blocks t a)"
      "unat (block_length (blocks t' a)) = unat (block_length (blocks t a)) + unat (block_length (blocks t b))"
      "has_flag FLAG_TAINTED (flags (blocks t' a)) \<longleftrightarrow>
         has_flag FLAG_TAINTED (flags (blocks t a)) \<or> has_flag FLAG_TAINTED (flags (blocks t b))"
      "\<not> has_flag FLAG_TAINTED (flags (blocks t b)) \<Longrightarrow> frontier (blocks t' a) = frontier (blocks t a)"
      "frontier_overflow t' = frontier_overflow t" "block_capacity t' = block_capacity t"
proof -
  note D = core_okD [OF core]
  have acap: "a < block_capacity t" and bcap: "b < block_capacity t" using D(15) by simp_all
  have dist: "distinct (xs @ a # b # ys)" "a \<notin> set unused" "b \<notin> set unused"
    "set ys \<inter> set unused = {}" "set xs \<inter> set unused = {}"
    using D(3) by auto
  have ab: "b \<noteq> a" using dist(1) by auto
  define n where "n = hd (ys @ [BLOCK_INDEX_NONE])"
  have n: "next_physical (blocks t b) = n"
    using dseg_links(2) [of _ _ _ _ "xs @ [a]" b ys] D(8) by (simp add: n_def)
  have nn: "n \<noteq> BLOCK_INDEX_NONE \<longleftrightarrow> ys \<noteq> []" "ys \<noteq> [] \<Longrightarrow> n = hd ys \<and> n \<in> set ys"
    using D(15) by (cases ys; auto simp: n_def)+
  have n': "n \<noteq> BLOCK_INDEX_NONE \<longrightarrow> n < block_capacity t \<and> n \<noteq> a \<and> n \<noteq> b"
  proof
    assume "n \<noteq> BLOCK_INDEX_NONE"
    then have mem: "n \<in> set ys" using nn by blast
    then have "n < block_capacity t" using D(15) [of n] by simp
    moreover have "n \<noteq> a" "n \<noteq> b" using mem dist(1) by auto
    ultimately show "n < block_capacity t \<and> n \<noteq> a \<and> n \<noteq> b" by blast
  qed
  note E = absorb_links_effect [OF D(1) acap bcap ab n n', folded t'_def, unfolded nn(1)]
  let ?g = "blocks t" and ?g' = "blocks t'"
  let ?T = "has_flag FLAG_TAINTED (flags (?g b))"
  let ?F = "if has_flag FLAG_LAST (flags (?g b)) then flags (?g a) OR FLAG_LAST else flags (?g a)"
  have ga: "?g' a = (?g a)\<lparr>block_length := block_length (?g a) + block_length (?g b),
      flags := (if ?T then ?F OR FLAG_TAINTED else ?F),
      frontier := (if ?T then (frontier (?g a))\<lparr>entry_count := 0\<rparr> else frontier (?g a)), next_physical := n\<rparr>"
    unfolding E(1) Let_def using ab nn n' by auto
  have gb: "?g' b = (zero_block (frontier_capacity t))\<lparr>next_free := unused_node_head t\<rparr>"
    unfolding E(1) Let_def using ab nn n' by auto
  have go: "?g' j = (if ys \<noteq> [] \<and> j = n then (?g j)\<lparr>prev_physical := a\<rparr> else ?g j)" if "j \<noteq> a" "j \<noteq> b" for j
    unfolding E(1) Let_def using that by auto
  have go': "?g' j = (if ys \<noteq> [] \<and> j = n then (?g j)\<lparr>prev_physical := a\<rparr> else ?g j)"
    if "j \<in> set xs \<union> set ys \<union> set unused" for j
  proof (rule go)
    show "j \<noteq> a" "j \<noteq> b" using that dist by auto
  qed
  have ba: "block_ok (alignment t) False (?g a)" and bb: "block_ok (alignment t) (ys = []) (?g b)"
    using D(10) [of a] D(10) [of b] dist(1) by (cases ys rule: rev_cases; auto)+
  obtain c where c: "tiles ?g 0 xs c" "tiles ?g c (a # b # ys) (unat (range_length t))"
    using D(9) by (auto simp: tiles_append)
  have nowrap: "unat (block_length (?g a)) + unat (block_length (?g b)) < 2 ^ 64"
    using tiles_sum [OF c(2)] unat_u64_lt [of "range_length t"] by simp
  show facts: "is_free (?g' a)" "offset (?g' a) = offset (?g a)"
    "unat (block_length (?g' a)) = unat (block_length (?g a)) + unat (block_length (?g b))"
    "has_flag FLAG_TAINTED (flags (?g' a)) \<longleftrightarrow> has_flag FLAG_TAINTED (flags (?g a)) \<or> ?T"
    "\<not> ?T \<Longrightarrow> frontier (?g' a) = frontier (?g a)"
    using free nowrap by (simp_all add: ga is_free_def unat_add_no_wrap)
  show outer: "is_free (?g' j) = is_free (?g j) \<and> block_length (?g' j) = block_length (?g j)"
    if "j \<in> set xs \<union> set ys" for j
    using go' [OF UnI1 [OF that]] by (simp add: is_free_def)
  show "offset (?g' j) = offset (?g j) \<and> flags (?g' j) = flags (?g j) \<and> frontier (?g' j) = frontier (?g j)"
    if "j \<in> set xs \<union> set ys" for j
    using go' [OF UnI1 [OF that]] by simp
  show "j \<noteq> a \<Longrightarrow> j \<noteq> b \<Longrightarrow> prev_free (?g' j) = prev_free (?g j) \<and> next_free (?g' j) = next_free (?g j)" for j
    using go [of j] by auto
  show "free_lists t' = free_lists t" "sl_bitmaps t' = sl_bitmaps t" "fl_bitmap t' = fl_bitmap t"
    "free_block_count t' = free_block_count t"
    by (fact E(4-7))+
  have v: "range_length t' = range_length t" "alignment t' = alignment t"
    "frontier_capacity t' = frontier_capacity t" "frontier_overflow t' = frontier_overflow t"
    "block_capacity t' = block_capacity t" "unused_node_head t' = b"
    "bytes_allocated t' = bytes_allocated t" "bytes_free t' = bytes_free t"
    "allocation_count t' = allocation_count t"
    using E(3) by (simp_all add: core_view_def)
  then show "frontier_overflow t' = frontier_overflow t" "block_capacity t' = block_capacity t" by simp_all
  have seg: "dseg (\<lambda>j. prev_physical (?g' j)) (\<lambda>j. next_physical (?g' j)) BLOCK_INDEX_NONE 0
      (xs @ a # ys) BLOCK_INDEX_NONE"
  proof -
    let ?P = "if ys = [] then (\<lambda>j. prev_physical (?g j)) else (\<lambda>j. prev_physical (?g j))(hd ys := a)"
    let ?N = "(\<lambda>j. next_physical (?g j))(a := n)"
    have "dseg (\<lambda>j. prev_physical (?g j)) (\<lambda>j. next_physical (?g j)) BLOCK_INDEX_NONE 0
        ((xs @ [a]) @ b # ys) BLOCK_INDEX_NONE"
      using D(8) by simp
    from dseg_remove [OF this] have "dseg ?P ?N BLOCK_INDEX_NONE 0 (xs @ a # ys) BLOCK_INDEX_NONE"
      using dist(1) by (cases "ys = []") (simp_all add: n_def)
    moreover have "prev_physical (?g' j) = ?P j \<and> next_physical (?g' j) = ?N j" if "j \<in> set (xs @ a # ys)" for j
    proof (cases "j = a")
      case False
      with that have "j \<in> set xs \<union> set ys \<union> set unused" by auto
      from go' [OF this] False nn show ?thesis by auto
    qed (use nn n' ga in auto)
    ultimately show ?thesis
      using dseg_cong [of "xs @ a # ys" "\<lambda>j. prev_physical (?g' j)" ?P "\<lambda>j. next_physical (?g' j)" ?N] by blast
  qed
  have tl: "tiles ?g' 0 (xs @ a # ys) (unat (range_length t))"
  proof -
    have "tiles ?g' 0 xs c"
      by (subst tiles_cong [where g = ?g]) (use c(1) go' in auto)
    moreover have "tiles ?g' (c + (unat (block_length (?g a)) + unat (block_length (?g b)))) ys (unat (range_length t))"
      by (subst tiles_cong [where g = ?g]) (use c(2) go' in \<open>auto simp: add.assoc\<close>)
    ultimately show ?thesis
      using c(2) unfolding tiles_append by (auto simp: facts(2,3))
  qed
  have bo: "block_ok (alignment t) (j = last (xs @ a # ys)) (?g' j)" if "j \<in> set (xs @ a # ys)" for j
  proof (cases "j = a")
    case True
    have "a = last (xs @ a # ys) \<longleftrightarrow> ys = []" using dist(1) by auto
    moreover have "block_length (?g' a) \<noteq> 0"
      using facts(3) ba unat_pos [of "block_length (?g a)"] by (auto simp: block_ok_def)
    moreover have "unat (alignment t) dvd unat (block_length (?g' a))"
      using facts(3) ba bb by (simp add: block_ok_def)
    moreover have "frontier_ok (frontier (?g' a))"
      using ba by (auto simp: ga block_ok_def frontier_ok_def live_def)
    ultimately show ?thesis
      using True ba bb by (auto simp: ga block_ok_def)
  next
    case False
    with that have "j \<in> set xs \<union> set ys" by auto
    moreover have "j = last (xs @ a # ys) \<longleftrightarrow> j = last (xs @ a # b # ys)"
      using False calculation dist(1) by auto
    moreover have "j \<in> set (xs @ a # b # ys)" using calculation(1) by auto
    ultimately show ?thesis using D(10) [of j] go' [of j] by (auto simp: block_ok_def)
  qed
  have len: "length (entries (frontier (?g' j))) = frontier_capacity t" if "j < block_capacity t" for j
    using D(11) [OF that] go [of j] D(11) [OF acap]
    by (cases "j = a"; cases "j = b") (auto simp: ga gb zero_block_def)
  note sx = free_sums_cong [of xs ?g' ?g, OF outer [OF UnI1]] and sy = free_sums_cong [of ys ?g' ?g, OF outer [OF UnI2]]
  have bf: "bytes_free t = (\<Sum>j\<leftarrow>filter (\<lambda>j. is_free (?g' j)) (xs @ a # ys). block_length (?g' j))"
    using D(12) free facts(1) sx(1) [of "\<lambda>x. x"] sy(1) [of "\<lambda>x. x"] by (simp add: ga add.assoc)
  have bal: "bytes_allocated t = (\<Sum>j\<leftarrow>filter (\<lambda>j. \<not> is_free (?g' j)) (xs @ a # ys). block_length (?g' j))"
    using D(13) free facts(1) sx(1) [of Not] sy(1) [of Not] by simp
  have ac: "allocation_count t = of_nat (length (filter (\<lambda>j. \<not> is_free (?g' j)) (xs @ a # ys)))"
    using D(14) free facts(1) sx(2) [of Not] sy(2) [of Not] by simp
  have "chain (\<lambda>j. next_free (?g' j)) (unused_node_head t) unused BLOCK_INDEX_NONE"
    using D(7) go' by (subst chain_cong) auto
  then have "chain (\<lambda>j. next_free (?g' j)) b (b # unused) BLOCK_INDEX_NONE" by (simp add: gb)
  moreover have "distinct ((xs @ a # ys) @ (b # unused) @ [])"
    "set ((xs @ a # ys) @ (b # unused) @ []) = {..<block_capacity t}"
    using D(3,4) by auto
  moreover have "hd (xs @ a # ys) = 0" using D(6) by (cases xs) auto
  moreover have "config_ok t'" using D(2) by (simp add: config_ok_def v)
  ultimately show "core_ok t' (xs @ a # ys) (b # unused) []"
    unfolding core_ok_def v using E(2) seg tl bo len bf bal ac by blast
qed

end
