(* ===== verification/TLSF_Invariant.thy ===== *)
theory TLSF_Invariant
  imports TLSF_Coalesce
begin

text \<open>
  The invariant of the TLSF allocator and the causal history it keeps: \<open>tlsf_ok\<close> combines the
  geometry, the free-list matrix and the absence of adjacent free blocks; \<open>history_at\<close> says which
  clocks the reuse metadata of the byte at a given offset dominates.
\<close>

section \<open>The invariant\<close>

definition free_set :: "'u iree_hal_memory_tlsf_t \<Rightarrow> nat list \<Rightarrow> nat set" where
  "free_set t phys = {i \<in> set phys. is_free (blocks t i)}"

definition no_adjacent_free :: "'u iree_hal_memory_tlsf_t \<Rightarrow> nat list \<Rightarrow> bool" where
  "no_adjacent_free t phys \<longleftrightarrow> successively (\<lambda>i j. \<not> (is_free (blocks t i) \<and> is_free (blocks t j))) phys"

definition tlsf_ok ::
    "'u iree_hal_memory_tlsf_t \<Rightarrow> nat list \<Rightarrow> (nat \<Rightarrow> nat \<Rightarrow> nat list) \<Rightarrow> nat list \<Rightarrow> bool" where
  "tlsf_ok t phys bins unused \<longleftrightarrow>
     core_ok t phys unused [] \<and> bins_ok t bins (free_set t phys) \<and> no_adjacent_free t phys"

definition tlsf_inv :: "'u iree_hal_memory_tlsf_t \<Rightarrow> bool" where
  "tlsf_inv t \<longleftrightarrow> (\<exists>phys bins unused. tlsf_ok t phys bins unused)"

section \<open>The physical list, computed\<close>

fun follow :: "(nat \<Rightarrow> nat) \<Rightarrow> nat \<Rightarrow> nat \<Rightarrow> nat list" where
  "follow nxt 0 i = []"
| "follow nxt (Suc n) i = (if i = BLOCK_INDEX_NONE then [] else i # follow nxt n (nxt i))"

text \<open>The blocks in address order, starting at node 0, which always heads the list.\<close>

definition physical_blocks :: "'u iree_hal_memory_tlsf_t \<Rightarrow> nat list" where
  "physical_blocks t = follow (\<lambda>i. next_physical (block_at t i)) (Suc (block_capacity t)) 0"

lemma follow_dseg:
  "dseg prv nxt p h xs BLOCK_INDEX_NONE \<Longrightarrow> BLOCK_INDEX_NONE \<notin> set xs \<Longrightarrow> length xs < n \<Longrightarrow>
   follow nxt n h = xs"
proof (induction xs arbitrary: p h n)
  case Nil
  then show ?case by (cases n) auto
next
  case (Cons i xs)
  then show ?case by (cases n) auto
qed

lemma follow_cong:
  "(\<And>i. i \<in> set (follow nxt n h) \<Longrightarrow> nxt' i = nxt i) \<Longrightarrow> follow nxt' n h = follow nxt n h"
  by (induction nxt n h rule: follow.induct) auto

lemma physical_blocks_eq:
  assumes core: "core_ok t phys unused held"
  shows "physical_blocks t = phys"
proof -
  note D = core_okD [OF core]
  have "card (set phys) \<le> card {..<block_capacity t}"
    by (rule card_mono) (use D(15) in auto)
  then have "length phys < Suc (block_capacity t)"
    using D(3) by (simp add: distinct_card)
  then have f: "follow (\<lambda>i. next_physical (blocks t i)) (Suc (block_capacity t)) 0 = phys"
    using follow_dseg [OF D(8)] D(15) by blast
  have "follow (\<lambda>i. next_physical (block_at t i)) (Suc (block_capacity t)) 0 =
      follow (\<lambda>i. next_physical (blocks t i)) (Suc (block_capacity t)) 0"
    by (rule follow_cong) (use f D(15) block_at_blocks in metis)
  with f show ?thesis by (simp add: physical_blocks_def)
qed

section \<open>Causal history\<close>

definition covers :: "iree_hal_memory_tlsf_block_t \<Rightarrow> clock \<Rightarrow> bool" where
  "covers b c \<longleftrightarrow> has_flag FLAG_TAINTED (flags b) \<or> clock_le c (live (frontier b))"

definition in_block :: "iree_hal_memory_tlsf_block_t \<Rightarrow> nat \<Rightarrow> bool" where
  "in_block b x \<longleftrightarrow> unat (offset b) \<le> x \<and> x < unat (offset b) + unat (block_length b)"

text \<open>The metadata of the block that holds byte \<open>x\<close> dominates \<open>c\<close>, or the block is tainted.\<close>

definition history_at :: "'u iree_hal_memory_tlsf_t \<Rightarrow> nat \<Rightarrow> clock \<Rightarrow> bool" where
  "history_at t x c \<longleftrightarrow> (\<exists>i\<in>set (physical_blocks t). in_block (blocks t i) x \<and> covers (blocks t i) c)"

lemma history_at_core:
  "core_ok t phys unused held \<Longrightarrow>
   history_at t x c \<longleftrightarrow> (\<exists>i\<in>set phys. in_block (blocks t i) x \<and> covers (blocks t i) c)"
  by (simp add: history_at_def physical_blocks_eq)

lemma covers_relinked: "relinked b b' \<Longrightarrow> covers b' c = covers b c \<and> in_block b' x = in_block b x"
  by (simp add: relinked_def covers_def in_block_def)

lemma covers_merge:
  assumes "merge_result False cap source (flags b) (frontier b) w f" and "covers b c"
  shows "covers (b\<lparr>flags := w, frontier := f\<rparr>) c"
  using assms by (auto simp: merge_result_def covers_def intro: clock_le_trans)

lemma covers_merge_source:
  assumes "merge_result False cap (Some s) (flags b) (frontier b) w f" and "clock_le c (live s)"
  shows "covers (b\<lparr>flags := w, frontier := f\<rparr>) c"
  using assms by (auto simp: merge_result_def covers_def intro: clock_le_trans)

section \<open>Live allocations\<close>

definition same_geometry_at :: "iree_hal_memory_tlsf_block_t \<Rightarrow> iree_hal_memory_tlsf_block_t \<Rightarrow> bool" where
  "same_geometry_at b b' \<longleftrightarrow> is_free b' = is_free b \<and> offset b' = offset b \<and> block_length b' = block_length b"

text \<open>Every block handed out stays in place, with the same handle.\<close>

definition live_kept :: "'u iree_hal_memory_tlsf_t \<Rightarrow> 'u iree_hal_memory_tlsf_t \<Rightarrow> bool" where
  "live_kept t t' \<longleftrightarrow>
     (\<forall>j\<in>set (physical_blocks t). \<not> is_free (blocks t j) \<longrightarrow>
        j \<in> set (physical_blocks t') \<and> \<not> is_free (blocks t' j) \<and>
        offset (blocks t' j) = offset (blocks t j) \<and> block_length (blocks t' j) = block_length (blocks t j))"

lemma live_kept_refl [simp]: "live_kept t t"
  by (simp add: live_kept_def)

lemma live_kept_trans: "live_kept t t' \<Longrightarrow> live_kept t' t'' \<Longrightarrow> live_kept t t''"
  by (auto simp: live_kept_def)

lemma live_keptI:
  assumes "core_ok t phys unused held" and "core_ok t' phys' unused' held'"
    and "\<And>j. j \<in> set phys \<Longrightarrow> \<not> is_free (blocks t j) \<Longrightarrow> j \<in> set phys' \<and> same_geometry_at (blocks t j) (blocks t' j)"
  shows "live_kept t t'"
  using assms(3) unfolding live_kept_def physical_blocks_eq [OF assms(1)] physical_blocks_eq [OF assms(2)]
  by (auto simp: same_geometry_at_def)

section \<open>Absorbing a neighbour\<close>

lemma absorb_block_ok:
  assumes core: "core_ok t (xs @ a # b # ys) unused []" and free: "is_free (blocks t a)" "is_free (blocks t b)"
    and bins: "bins_ok t bins S" and S: "S \<subseteq> set xs \<union> set ys"
  defines "t' \<equiv> absorb_block a b t"
  shows "core_ok t' (xs @ a # ys) (b # unused) []" and "bins_ok t' bins S" and "is_free (blocks t' a)"
    and "j \<in> set xs \<union> set ys \<Longrightarrow> is_free (blocks t' j) = is_free (blocks t j)"
    and "frontier_overflow t' = frontier_overflow t"
    and "frontier_overflow t = None \<Longrightarrow> history_at t x c \<Longrightarrow> history_at t' x c"
    and "in_block (blocks t a) x \<or> in_block (blocks t b) x \<Longrightarrow> in_block (blocks t' a) x"
    and "frontier_overflow t = None \<Longrightarrow> covers (blocks t a) c \<or> covers (blocks t b) c \<Longrightarrow> covers (blocks t' a) c"
    and "live_kept t t'"
proof -
  note D = core_okD [OF core]
  have dist: "distinct (xs @ a # b # ys)" using D(3) by auto
  then have ab: "b \<noteq> a" by auto
  have mem: "a \<in> set (xs @ a # b # ys)" "b \<in> set (xs @ a # b # ys)" by auto
  have at: "block_at t b = blocks t b" using D(15) [OF mem(2)] block_at_blocks by blast
  define t1 where "t1 = iree_hal_memory_tlsf_merge_frontiers a (Some (frontier (blocks t b))) t"
  have t': "t' = absorb_links a b t1" by (simp add: t'_def absorb_block_def at t1_def)
  have "frontier_ok (frontier (blocks t b))" using D(10) [OF mem(2)] by (simp add: block_ok_def)
  then obtain w f where b1: "blocks t1 = (blocks t)(a := (blocks t a)\<lparr>flags := w, frontier := f\<rparr>)"
    and mr: "merge_result (frontier_overflow t \<noteq> None) (frontier_capacity t) (Some (frontier (blocks t b)))
           (flags (blocks t a)) (frontier (blocks t a)) w f"
    and s1: "segments_ok t1" "geo_view t1 = geo_view t" "free_lists t1 = free_lists t"
      "sl_bitmaps t1 = sl_bitmaps t" "fl_bitmap t1 = fl_bitmap t" "free_block_count t1 = free_block_count t"
      "frontier_overflow t1 = frontier_overflow t"
    using merge_frontiers_effect [OF core mem(1), of "Some (frontier (blocks t b))", folded t1_def]
    by (metis option.sel)
  have w: "has_flag FLAG_FREE w = has_flag FLAG_FREE (flags (blocks t a))"
    "has_flag FLAG_LAST w = has_flag FLAG_LAST (flags (blocks t a))"
    using mr by (auto simp: merge_result_def)
  have core1: "core_ok t1 (xs @ a # b # ys) unused []"
    by (rule core_ok_metadata [OF core mem(1) s1(1,2) b1 w]) (use mr in \<open>auto simp: merge_result_def\<close>)
  have bins1: "bins_ok t1 bins S"
    by (rule bins_ok_metadata [OF bins _ s1(3-6) b1]) (use s1(2) in \<open>simp add: geo_view_def\<close>)
  have free1: "is_free (blocks t1 a)" "is_free (blocks t1 b)"
    using free w ab by (auto simp: b1 is_free_def)
  note A = absorb_links_ok [OF core1 free1, folded t']
  show core': "core_ok t' (xs @ a # ys) (b # unused) []" and "is_free (blocks t' a)"
    by (rule A(1), rule A(2))
  have out1: "blocks t1 j = blocks t j" if "j \<in> set xs \<union> set ys" for j
    using that dist by (auto simp: b1)
  show "j \<in> set xs \<union> set ys \<Longrightarrow> is_free (blocks t' j) = is_free (blocks t j)" for j
    using A(3) [of j] out1 by simp
  show "frontier_overflow t' = frontier_overflow t" using A(14) s1(7) by simp
  show "live_kept t t'"
  proof (rule live_keptI [OF core core'])
    fix j assume j: "j \<in> set (xs @ a # b # ys)" "\<not> is_free (blocks t j)"
    with free have "j \<in> set xs \<union> set ys" by auto
    then show "j \<in> set (xs @ a # ys) \<and> same_geometry_at (blocks t j) (blocks t' j)"
      using A(3) [of j] A(4) [of j] out1 by (auto simp: same_geometry_at_def)
  qed
  show "bins_ok t' bins S"
  proof (rule bins_ok_frame [OF bins1])
    show "block_capacity t' = block_capacity t1" by (rule A(15))
    show "prev_free (blocks t' i) = prev_free (blocks t1 i) \<and> next_free (blocks t' i) = next_free (blocks t1 i) \<and>
        block_length (blocks t' i) = block_length (blocks t1 i)" if "i \<in> S" for i
    proof -
      have i: "i \<in> set xs \<union> set ys" using that S by auto
      moreover have "i \<noteq> a" "i \<noteq> b" using i dist by auto
      ultimately show ?thesis using A(3) A(5) by blast
    qed
  qed (use A(6-9) in auto)
  show inb: "in_block (blocks t a) x \<or> in_block (blocks t b) x \<Longrightarrow> in_block (blocks t' a) x" for x
  proof -
    assume x: "in_block (blocks t a) x \<or> in_block (blocks t b) x"
    obtain k where "tiles (blocks t) k (a # b # ys) (unat (range_length t))"
      using D(9) by (auto simp: tiles_append)
    then have "unat (offset (blocks t b)) = unat (offset (blocks t a)) + unat (block_length (blocks t a))"
      by simp
    with x A(10,11) show ?thesis using ab by (auto simp: in_block_def b1)
  qed
  show cov: "covers (blocks t' a) c"
    if none: "frontier_overflow t = None" and c: "covers (blocks t a) c \<or> covers (blocks t b) c" for c
  proof (cases "has_flag FLAG_TAINTED (flags (blocks t b))")
    case True
    then show ?thesis using A(12) ab by (simp add: covers_def b1)
  next
    case False
    have mr': "merge_result False (frontier_capacity t) (Some (frontier (blocks t b)))
           (flags (blocks t a)) (frontier (blocks t a)) w f"
      using mr none by simp
    have "covers (blocks t1 a) c"
      using c covers_merge [OF mr'] covers_merge_source [OF mr'] False by (auto simp: b1 covers_def)
    then show ?thesis
      using A(12,13) False ab by (auto simp: covers_def b1)
  qed
  show "history_at t' x c" if none: "frontier_overflow t = None" and h: "history_at t x c" for x c
  proof -
    obtain i where i: "i \<in> set (xs @ a # b # ys)" "in_block (blocks t i) x" "covers (blocks t i) c"
      using h history_at_core [OF core] by blast
    consider (ab) "i = a \<or> i = b" | (out) "i \<in> set xs \<union> set ys" using i(1) by auto
    then show ?thesis
    proof cases
      case ab
      then have "in_block (blocks t' a) x" "covers (blocks t' a) c"
        using inb cov [OF none] i(2,3) by auto
      then show ?thesis using history_at_core [OF core'] by auto
    next
      case out
      then have "in_block (blocks t' i) x" "covers (blocks t' i) c"
        using A(3) [of i] A(4) [of i] out1 i(2,3) by (auto simp: in_block_def covers_def)
      then show ?thesis using out history_at_core [OF core'] by auto
    qed
  qed
qed

end
