(* ===== verification/TLSF_Free.thy ===== *)
theory TLSF_Free
  imports TLSF_Invariant
begin

text \<open>
  Releasing a TLSF block: marking it, attaching its death frontier, coalescing with both neighbours
  and inserting the survivor into the matrix restores the invariant and loses no causal history.
\<close>

section \<open>Removing a neighbour and absorbing\<close>

lemma remove_core:
  assumes core: "core_ok t phys unused held" and bins: "bins_ok t bins S" and S: "S \<subseteq> set phys" and k: "k \<in> S"
  defines "t' \<equiv> iree_hal_memory_tlsf_remove_free_block k t"
  obtains bins' where "core_ok t' phys unused held" and "bins_ok t' bins' (S - {k})"
    and "\<And>j. relinked (blocks t j) (blocks t' j)" and "frontier_overflow t' = frontier_overflow t"
    and "core_view t' = core_view t" and "\<And>j. j \<notin> S \<Longrightarrow> blocks t' j = blocks t j"
proof -
  obtain fl sl where cl: "class_of (blocks t k) = (fl, sl)" by fastforce
  note R = remove_free_block_ok [OF core_okD(1) [OF core] bins k cl, folded t'_def]
  have cv: "core_view t' = core_view t" by (simp add: t'_def)
  have "core_ok t' phys unused held"
    by (rule core_ok_relinked [OF core R(2) cv R(3)]) (use R(4) S in auto)
  moreover have "frontier_overflow t' = frontier_overflow t" using cv by (simp add: core_view_def)
  ultimately show ?thesis using that R(1,3,4) cv by blast
qed

lemma history_relinked:
  assumes "core_ok t phys unused held" and "core_ok t' phys unused' held'"
    and "\<And>j. relinked (blocks t j) (blocks t' j)"
  shows "history_at t' x c \<longleftrightarrow> history_at t x c"
  unfolding history_at_core [OF assms(1)] history_at_core [OF assms(2)]
  using covers_relinked [OF assms(3)] by blast

text \<open>What a coalescing step promises about the survivor \<open>s\<close> of the block \<open>i\<close>.\<close>

definition carries ::
    "'u iree_hal_memory_tlsf_t \<Rightarrow> nat \<Rightarrow> 'u iree_hal_memory_tlsf_t \<Rightarrow> nat \<Rightarrow> bool" where
  "carries t i t' s \<longleftrightarrow>
     frontier_overflow t' = frontier_overflow t \<and> live_kept t t' \<and>
     (\<forall>x. in_block (blocks t i) x \<longrightarrow> in_block (blocks t' s) x) \<and>
     (frontier_overflow t = None \<longrightarrow>
        (\<forall>c. covers (blocks t i) c \<longrightarrow> covers (blocks t' s) c) \<and>
        (\<forall>x c. history_at t x c \<longrightarrow> history_at t' x c))"

lemma carries_refl [simp]: "carries t i t i"
  by (simp add: carries_def)

lemma carries_trans: "carries t i t' j \<Longrightarrow> carries t' j t'' k \<Longrightarrow> carries t i t'' k"
  by (auto simp: carries_def intro: live_kept_trans)

lemma live_kept_relinked:
  assumes "core_ok t phys unused held" and "core_ok t' phys unused' held'"
    and "\<And>j. relinked (blocks t j) (blocks t' j)"
  shows "live_kept t t'"
  by (rule live_keptI [OF assms(1,2)]) (use assms(3) in \<open>auto simp: relinked_def same_geometry_at_def is_free_def\<close>)

lemma remove_absorb_ok:
  assumes core: "core_ok t (xs @ a # b # ys) unused []" and free: "is_free (blocks t a)" "is_free (blocks t b)"
    and bins: "bins_ok t bins S" and k: "k \<in> S" and S: "S - {k} \<subseteq> set xs \<union> set ys" "S \<subseteq> set (xs @ a # b # ys)"
  defines "t' \<equiv> absorb_block a b (iree_hal_memory_tlsf_remove_free_block k t)"
  obtains bins' where "core_ok t' (xs @ a # ys) (b # unused) []" and "bins_ok t' bins' (S - {k})"
    and "is_free (blocks t' a)" and "\<And>j. j \<in> set xs \<union> set ys \<Longrightarrow> is_free (blocks t' j) = is_free (blocks t j)"
    and "carries t a t' a" and "carries t b t' a"
proof -
  define t1 where "t1 = iree_hal_memory_tlsf_remove_free_block k t"
  obtain bins1 where R: "core_ok t1 (xs @ a # b # ys) unused []" "bins_ok t1 bins1 (S - {k})"
    "\<And>j. relinked (blocks t j) (blocks t1 j)" "frontier_overflow t1 = frontier_overflow t"
    using remove_core [OF core bins S(2) k] unfolding t1_def by metis
  have fr: "is_free (blocks t1 j) = is_free (blocks t j)" for j
    using R(3) [of j] by (simp add: relinked_def is_free_def)
  have t': "t' = absorb_block a b t1" by (simp add: t'_def t1_def)
  note A = absorb_block_ok [OF R(1) _ _ R(2) S(1), unfolded fr, OF free, folded t']
  have cov: "covers (blocks t1 j) c = covers (blocks t j) c" "in_block (blocks t1 j) x = in_block (blocks t j) x" for j c x
    using covers_relinked [OF R(3)] by blast+
  have hist: "history_at t1 x c = history_at t x c" for x c
    by (rule history_relinked [OF core R(1,3)])
  show ?thesis
  proof (rule that [OF A(1) A(2) A(3)])
    show "is_free (blocks t' j) = is_free (blocks t j)" if "j \<in> set xs \<union> set ys" for j
      using A(4) that by simp
    have "live_kept t t'" using live_kept_trans [OF live_kept_relinked [OF core R(1,3)] A(9)] .
    then show "carries t a t' a" "carries t b t' a"
      using A(5-8) R(4) unfolding carries_def cov [symmetric] hist [symmetric] by auto
  qed
qed

section \<open>A released block before insertion\<close>

text \<open>
  \<open>i\<close> is marked free but not in the matrix yet; only its own neighbours may be free beside it.
\<close>

definition pending ::
    "'u iree_hal_memory_tlsf_t \<Rightarrow> nat list \<Rightarrow> nat \<Rightarrow> nat list \<Rightarrow> (nat \<Rightarrow> nat \<Rightarrow> nat list) \<Rightarrow> nat list \<Rightarrow> bool" where
  "pending t xs i ys bins unused \<longleftrightarrow>
     core_ok t (xs @ i # ys) unused [] \<and> is_free (blocks t i) \<and>
     bins_ok t bins (free_set t (xs @ i # ys) - {i}) \<and> no_adjacent_free t xs \<and> no_adjacent_free t ys"

lemma no_adjacent_cong:
  assumes "\<And>j. j \<in> set zs \<Longrightarrow> is_free (blocks t' j) = is_free (blocks t j)"
  shows "no_adjacent_free t' zs = no_adjacent_free t zs"
  unfolding no_adjacent_free_def by (rule successively_cong) (use assms in auto)

lemma no_adjacent_ConsD:
  "no_adjacent_free t (i # zs) \<Longrightarrow> no_adjacent_free t zs"
  "no_adjacent_free t (i # zs) \<Longrightarrow> is_free (blocks t i) \<Longrightarrow> zs \<noteq> [] \<Longrightarrow> \<not> is_free (blocks t (hd zs))"
  by (cases zs; simp add: no_adjacent_free_def)+

lemma no_adjacent_snocD:
  "no_adjacent_free t (zs @ [i]) \<Longrightarrow> no_adjacent_free t zs"
  "no_adjacent_free t (zs @ [i]) \<Longrightarrow> is_free (blocks t i) \<Longrightarrow> zs \<noteq> [] \<Longrightarrow> \<not> is_free (blocks t (last zs))"
  by (cases zs rule: rev_cases; simp add: no_adjacent_free_def successively_append_iff)+

lemma no_adjacent_append:
  "no_adjacent_free t (xs @ i # ys) \<longleftrightarrow> no_adjacent_free t xs \<and> no_adjacent_free t ys \<and>
     (xs \<noteq> [] \<longrightarrow> \<not> (is_free (blocks t (last xs)) \<and> is_free (blocks t i))) \<and>
     (ys \<noteq> [] \<longrightarrow> \<not> (is_free (blocks t i) \<and> is_free (blocks t (hd ys))))"
  by (cases ys) (auto simp: no_adjacent_free_def successively_append_iff)

lemma coalesce_right_ok:
  assumes P: "pending t xs i ys bins unused"
  obtains ys' bins' unused' where "pending (coalesce_right i t) xs i ys' bins' unused'"
    and "ys' \<noteq> [] \<Longrightarrow> \<not> is_free (blocks (coalesce_right i t) (hd ys'))"
    and "carries t i (coalesce_right i t) i"
proof -
  have core: "core_ok t (xs @ i # ys) unused []" and fi: "is_free (blocks t i)"
    and bins: "bins_ok t bins (free_set t (xs @ i # ys) - {i})"
    and adj: "no_adjacent_free t xs" "no_adjacent_free t ys"
    using P by (auto simp: pending_def)
  note D = core_okD [OF core]
  have dist: "distinct (xs @ i # ys)" using D(3) by auto
  have at: "block_at t i = blocks t i" using D(15) [of i] by (simp add: block_at_blocks)
  have last: "has_flag FLAG_LAST (flags (blocks t i)) \<longleftrightarrow> ys = []"
    using D(10) [of i] dist by (cases ys rule: rev_cases) (auto simp: block_ok_def)
  have nx: "next_physical (blocks t i) = hd (ys @ [BLOCK_INDEX_NONE])" by (rule dseg_links(2) [OF D(8)])
  show ?thesis
  proof (cases "ys \<noteq> [] \<and> is_free (blocks t (hd ys))")
    case False
    have "coalesce_right i t = t"
      using False last nx D(15) [of "hd ys"]
      by (cases ys) (auto simp: coalesce_right_def at block_at_blocks is_free_def Let_def)
    with False P show ?thesis by (intro that) auto
  next
    case True
    then obtain r zs where ys: "ys = r # zs" and fr: "is_free (blocks t r)" by (cases ys) auto
    define S where "S = free_set t (xs @ i # ys) - {i}"
    have r: "r < block_capacity t" "r \<noteq> BLOCK_INDEX_NONE" using D(15) [of r] ys by auto
    have cr: "coalesce_right i t = absorb_block i r (iree_hal_memory_tlsf_remove_free_block r t)"
      using last nx r fr ys by (simp add: coalesce_right_def at block_at_blocks is_free_def Let_def)
    have rS: "r \<in> S" and S: "S - {r} \<subseteq> set xs \<union> set zs" "S \<subseteq> set (xs @ i # r # zs)"
      using ys fr dist by (auto simp: S_def free_set_def)
    obtain bins' where A: "core_ok (coalesce_right i t) (xs @ i # zs) (r # unused) []"
      "bins_ok (coalesce_right i t) bins' (S - {r})" "is_free (blocks (coalesce_right i t) i)"
      "\<And>j. j \<in> set xs \<union> set zs \<Longrightarrow> is_free (blocks (coalesce_right i t) j) = is_free (blocks t j)"
      "carries t i (coalesce_right i t) i"
      using remove_absorb_ok [OF core [unfolded ys] fi fr bins [folded S_def] rS S] unfolding cr by metis
    have "S - {r} = free_set (coalesce_right i t) (xs @ i # zs) - {i}"
      using A(4) dist ys by (auto simp: S_def free_set_def)
    then have "pending (coalesce_right i t) xs i zs bins' (r # unused)"
      using A adj no_adjacent_cong [of xs "coalesce_right i t" t] no_adjacent_cong [of zs "coalesce_right i t" t]
        no_adjacent_ConsD(1) [of t r zs] ys
      by (simp add: pending_def)
    moreover have "zs \<noteq> [] \<Longrightarrow> \<not> is_free (blocks (coalesce_right i t) (hd zs))"
      using no_adjacent_ConsD(2) [of t r zs] adj(2) ys fr A(4) [of "hd zs"] by simp
    ultimately show ?thesis using A(5) by (rule that)
  qed
qed

lemma coalesce_left_ok:
  assumes P: "pending t xs i ys bins unused" and right: "ys \<noteq> [] \<Longrightarrow> \<not> is_free (blocks t (hd ys))"
  obtains xs' s t' bins' unused' where "coalesce_left i t = (s, t')" and "pending t' xs' s ys bins' unused'"
    and "ys \<noteq> [] \<Longrightarrow> \<not> is_free (blocks t' (hd ys))" and "xs' \<noteq> [] \<Longrightarrow> \<not> is_free (blocks t' (last xs'))"
    and "carries t i t' s"
proof -
  have core: "core_ok t (xs @ i # ys) unused []" and fi: "is_free (blocks t i)"
    and bins: "bins_ok t bins (free_set t (xs @ i # ys) - {i})"
    and adj: "no_adjacent_free t xs" "no_adjacent_free t ys"
    using P by (auto simp: pending_def)
  note D = core_okD [OF core]
  have dist: "distinct (xs @ i # ys)" using D(3) by auto
  have at: "block_at t i = blocks t i" using D(15) [of i] by (simp add: block_at_blocks)
  have pv: "prev_physical (blocks t i) = last (BLOCK_INDEX_NONE # xs)" by (rule dseg_links(1) [OF D(8)])
  show ?thesis
  proof (cases "xs \<noteq> [] \<and> is_free (blocks t (last xs))")
    case False
    have "coalesce_left i t = (i, t)"
      using False pv D(15) [of "last xs"]
      by (cases "xs = []") (auto simp: coalesce_left_def at block_at_blocks is_free_def Let_def)
    then show ?thesis using False P right by (intro that) auto
  next
    case True
    then obtain l zs where xs: "xs = zs @ [l]" and fl: "is_free (blocks t l)" by (cases xs rule: rev_cases) auto
    define S where "S = free_set t (xs @ i # ys) - {i}"
    define t' where "t' = absorb_block l i (iree_hal_memory_tlsf_remove_free_block l t)"
    have l: "l < block_capacity t" "l \<noteq> BLOCK_INDEX_NONE" using D(15) [of l] xs by auto
    have cl: "coalesce_left i t = (l, t')"
      using pv l fl xs by (simp add: coalesce_left_def at block_at_blocks is_free_def Let_def t'_def)
    have lS: "l \<in> S" and S: "S - {l} \<subseteq> set zs \<union> set ys" "S \<subseteq> set (zs @ l # i # ys)"
      using xs fl dist by (auto simp: S_def free_set_def)
    have core': "core_ok t (zs @ l # i # ys) unused []" using core xs by simp
    obtain bins' where A: "core_ok t' (zs @ l # ys) (i # unused) []" "bins_ok t' bins' (S - {l})" "is_free (blocks t' l)"
      "\<And>j. j \<in> set zs \<union> set ys \<Longrightarrow> is_free (blocks t' j) = is_free (blocks t j)" "carries t i t' l"
      using remove_absorb_ok [OF core' fl fi bins [folded S_def] lS S, folded t'_def] by metis
    have "S - {l} = free_set t' (zs @ l # ys) - {l}"
      using A(4) dist xs by (auto simp: S_def free_set_def)
    then have "pending t' zs l ys bins' (i # unused)"
      using A adj no_adjacent_cong [of zs t' t] no_adjacent_cong [of ys t' t] no_adjacent_snocD(1) [of t zs l] xs
      by (simp add: pending_def)
    moreover have "zs \<noteq> [] \<Longrightarrow> \<not> is_free (blocks t' (last zs))"
      using no_adjacent_snocD(2) [of t zs l] adj(1) xs fl A(4) [of "last zs"] by simp
    moreover have "ys \<noteq> [] \<Longrightarrow> \<not> is_free (blocks t' (hd ys))"
      using right A(4) [of "hd ys"] by simp
    ultimately show ?thesis using A(5) cl by (intro that)
  qed
qed

lemma insert_core:
  assumes core: "core_ok t phys unused held" and bins: "bins_ok t bins S" and S: "S \<subseteq> set phys"
    and i: "i \<in> set phys" "i \<notin> S"
  defines "t' \<equiv> iree_hal_memory_tlsf_insert_free_block i t"
  obtains bins' where "core_ok t' phys unused held" and "bins_ok t' bins' (insert i S)"
    and "\<And>j. relinked (blocks t j) (blocks t' j)" and "core_view t' = core_view t"
proof -
  note D = core_okD [OF core]
  obtain fl sl where cl: "class_of (blocks t i) = (fl, sl)" by fastforce
  have icap: "i < block_capacity t" and len: "block_length (blocks t i) \<noteq> 0"
    using D(15) [OF i(1)] D(10) [OF i(1)] by (auto simp: block_ok_def)
  note I = insert_free_block_ok [OF D(1) bins icap i(2) len cl, folded t'_def]
  have cv: "core_view t' = core_view t" by (simp add: t'_def)
  have "core_ok t' phys unused held"
  proof (rule core_ok_relinked [OF core I(2) cv I(3)])
    show "blocks t' j = blocks t j" if "j \<notin> set phys" for j
      by (rule I(4)) (use that S i in auto)
  qed
  then show ?thesis using that I(1,3) cv by blast
qed

lemma insert_pending_ok:
  assumes P: "pending t xs i ys bins unused" and right: "ys \<noteq> [] \<Longrightarrow> \<not> is_free (blocks t (hd ys))"
    and left: "xs \<noteq> [] \<Longrightarrow> \<not> is_free (blocks t (last xs))"
  defines "t' \<equiv> iree_hal_memory_tlsf_insert_free_block i t"
  obtains bins' where "tlsf_ok t' (xs @ i # ys) bins' unused" and "carries t i t' i"
proof -
  have core: "core_ok t (xs @ i # ys) unused []" and fi: "is_free (blocks t i)"
    and bins: "bins_ok t bins (free_set t (xs @ i # ys) - {i})"
    and adj: "no_adjacent_free t xs" "no_adjacent_free t ys"
    using P by (auto simp: pending_def)
  obtain bins' where I: "core_ok t' (xs @ i # ys) unused []"
    "bins_ok t' bins' (insert i (free_set t (xs @ i # ys) - {i}))"
    "\<And>j. relinked (blocks t j) (blocks t' j)" "core_view t' = core_view t"
  proof (rule insert_core [OF core bins, of i, folded t'_def])
    show "free_set t (xs @ i # ys) - {i} \<subseteq> set (xs @ i # ys)" by (auto simp: free_set_def)
  qed (auto intro: that)
  have fr: "is_free (blocks t' j) = is_free (blocks t j)" for j
    using I(3) [of j] by (simp add: relinked_def is_free_def)
  have "insert i (free_set t (xs @ i # ys) - {i}) = free_set t' (xs @ i # ys)"
    using fi by (auto simp: free_set_def fr)
  moreover have "no_adjacent_free t' (xs @ i # ys)"
    using adj left right fi no_adjacent_cong [of "xs @ i # ys" t' t] fr by (simp add: no_adjacent_append)
  ultimately have "tlsf_ok t' (xs @ i # ys) bins' unused"
    using I(1,2) by (simp add: tlsf_ok_def)
  moreover have "carries t i t' i"
    using I(4) covers_relinked [OF I(3)] history_relinked [OF core I(1,3)] live_kept_relinked [OF core I(1,3)]
    by (simp add: carries_def core_view_def)
  ultimately show ?thesis by (rule that)
qed

section \<open>Attaching the death frontier\<close>

text \<open>A change that only concerns the dependency metadata of block \<open>i\<close>.\<close>

definition metadata_step ::
    "'u iree_hal_memory_tlsf_t \<Rightarrow> nat \<Rightarrow> 'u iree_hal_memory_tlsf_t \<Rightarrow> bool" where
  "metadata_step t i t' \<longleftrightarrow>
     (\<exists>w f. blocks t' = (blocks t)(i := (blocks t i)\<lparr>flags := w, frontier := f\<rparr>) \<and>
        has_flag FLAG_FREE w = has_flag FLAG_FREE (flags (blocks t i)) \<and>
        has_flag FLAG_LAST w = has_flag FLAG_LAST (flags (blocks t i)) \<and>
        frontier_ok f \<and> length (entries f) = frontier_capacity t \<and>
        (has_flag FLAG_TAINTED w \<longrightarrow> entry_count f = 0)) \<and>
     segments_ok t' \<and> geo_view t' = geo_view t \<and> free_lists t' = free_lists t \<and>
     sl_bitmaps t' = sl_bitmaps t \<and> fl_bitmap t' = fl_bitmap t \<and> free_block_count t' = free_block_count t"

lemma metadata_step_core:
  assumes "core_ok t phys unused held" and "i \<in> set phys" and "metadata_step t i t'"
  shows "core_ok t' phys unused held"
  using assms(3) unfolding metadata_step_def by (auto intro: core_ok_metadata [OF assms(1,2)])

lemma metadata_step_bins:
  assumes "bins_ok t bins S" and "metadata_step t i t'"
  shows "bins_ok t' bins S"
  using assms(2) unfolding metadata_step_def
  by (auto intro: bins_ok_metadata [OF assms(1)] simp: geo_view_def)

lemma metadata_step_blocks:
  assumes "metadata_step t i t'"
  shows "is_free (blocks t' j) = is_free (blocks t j)" and "in_block (blocks t' j) x = in_block (blocks t j) x"
    and "j \<noteq> i \<Longrightarrow> blocks t' j = blocks t j" and "frontier_overflow t' = frontier_overflow t"
proof -
  obtain w f where b: "blocks t' = (blocks t)(i := (blocks t i)\<lparr>flags := w, frontier := f\<rparr>)"
    and w: "has_flag FLAG_FREE w = has_flag FLAG_FREE (flags (blocks t i))" and "geo_view t' = geo_view t"
    using assms unfolding metadata_step_def by blast
  then show "frontier_overflow t' = frontier_overflow t" by (simp add: geo_view_def)
  show "is_free (blocks t' j) = is_free (blocks t j)" "in_block (blocks t' j) x = in_block (blocks t j) x"
    using w by (simp_all add: b is_free_def in_block_def)
  show "j \<noteq> i \<Longrightarrow> blocks t' j = blocks t j" by (simp add: b)
qed

lemma metadata_stepI:
  assumes "blocks t' = (blocks t)(i := (blocks t i)\<lparr>flags := w, frontier := f\<rparr>)"
    and "has_flag FLAG_FREE w = has_flag FLAG_FREE (flags (blocks t i))"
    and "has_flag FLAG_LAST w = has_flag FLAG_LAST (flags (blocks t i))"
    and "frontier_ok f" and "length (entries f) = frontier_capacity t"
    and "has_flag FLAG_TAINTED w \<longrightarrow> entry_count f = 0"
    and "segments_ok t'" "geo_view t' = geo_view t" "free_lists t' = free_lists t"
      "sl_bitmaps t' = sl_bitmaps t" "fl_bitmap t' = fl_bitmap t" "free_block_count t' = free_block_count t"
  shows "metadata_step t i t'"
  unfolding metadata_step_def using assms by blast

lemma metadata_step_trans:
  assumes "metadata_step t i t'" and "metadata_step t' i t''"
  shows "metadata_step t i t''"
proof -
  have view: "geo_view t' = geo_view t" using assms(1) by (simp add: metadata_step_def)
  then have fc: "frontier_capacity t' = frontier_capacity t" by (simp add: geo_view_def)
  obtain w f where b: "blocks t' = (blocks t)(i := (blocks t i)\<lparr>flags := w, frontier := f\<rparr>)"
    and w: "has_flag FLAG_FREE w = has_flag FLAG_FREE (flags (blocks t i))"
      "has_flag FLAG_LAST w = has_flag FLAG_LAST (flags (blocks t i))"
    using assms(1) unfolding metadata_step_def by blast
  obtain w' f' where b': "blocks t'' = (blocks t')(i := (blocks t' i)\<lparr>flags := w', frontier := f'\<rparr>)"
    and w': "has_flag FLAG_FREE w' = has_flag FLAG_FREE (flags (blocks t' i))"
      "has_flag FLAG_LAST w' = has_flag FLAG_LAST (flags (blocks t' i))"
      "frontier_ok f'" "length (entries f') = frontier_capacity t'" "has_flag FLAG_TAINTED w' \<longrightarrow> entry_count f' = 0"
    using assms(2) unfolding metadata_step_def by blast
  show ?thesis
  proof (rule metadata_stepI [where w = w' and f = f'])
    show "blocks t'' = (blocks t)(i := (blocks t i)\<lparr>flags := w', frontier := f'\<rparr>)" by (simp add: b b')
  qed (use assms w w' b fc view in \<open>simp_all add: metadata_step_def\<close>)
qed

lemma metadata_step_write:
  assumes core: "core_ok t phys unused held" and i: "i \<in> set phys"
    and w: "has_flag FLAG_FREE (flags (u (blocks t i))) = has_flag FLAG_FREE (flags (blocks t i))"
      "has_flag FLAG_LAST (flags (u (blocks t i))) = has_flag FLAG_LAST (flags (blocks t i))"
    and f: "frontier_ok (frontier (u (blocks t i)))" "length (entries (frontier (u (blocks t i)))) = frontier_capacity t"
      "has_flag FLAG_TAINTED (flags (u (blocks t i))) \<longrightarrow> entry_count (frontier (u (blocks t i))) = 0"
    and u: "u (blocks t i) = (blocks t i)\<lparr>flags := flags (u (blocks t i)), frontier := frontier (u (blocks t i))\<rparr>"
  shows "metadata_step t i (block_write i u t)"
proof -
  note D = core_okD [OF core]
  have "blocks (block_write i u t) = (blocks t)(i := u (blocks t i))"
    using D(1) D(15) [OF i] blocks_write by blast
  with u have "blocks (block_write i u t) =
      (blocks t)(i := (blocks t i)\<lparr>flags := flags (u (blocks t i)), frontier := frontier (u (blocks t i))\<rparr>)"
    by metis
  then show ?thesis
    by (rule metadata_stepI) (use w f D(1) in \<open>simp_all add: geo_view_def\<close>)
qed

lemma metadata_step_merge:
  assumes core: "core_ok t phys unused held" and i: "i \<in> set phys" and s: "frontier_ok s"
  shows "metadata_step t i (iree_hal_memory_tlsf_merge_frontiers i (Some s) t)"
    and "frontier_overflow t = None \<Longrightarrow>
      covers (blocks (iree_hal_memory_tlsf_merge_frontiers i (Some s) t) i) (live s)"
proof -
  define t' where "t' = iree_hal_memory_tlsf_merge_frontiers i (Some s) t"
  obtain w f where b: "blocks t' = (blocks t)(i := (blocks t i)\<lparr>flags := w, frontier := f\<rparr>)"
    and mr: "merge_result (frontier_overflow t \<noteq> None) (frontier_capacity t) (Some s)
           (flags (blocks t i)) (frontier (blocks t i)) w f"
    and v: "segments_ok t'" "geo_view t' = geo_view t" "free_lists t' = free_lists t"
      "sl_bitmaps t' = sl_bitmaps t" "fl_bitmap t' = fl_bitmap t" "free_block_count t' = free_block_count t"
    using merge_frontiers_effect [OF core i, of "Some s", folded t'_def] s by (metis option.sel)
  show "metadata_step t i (iree_hal_memory_tlsf_merge_frontiers i (Some s) t)"
    unfolding t'_def [symmetric]
    by (rule metadata_stepI [OF b]) (use mr v in \<open>auto simp: merge_result_def\<close>)
  show "covers (blocks (iree_hal_memory_tlsf_merge_frontiers i (Some s) t) i) (live s)"
    if "frontier_overflow t = None"
    using covers_merge_source [of "frontier_capacity t" s "blocks t i" w f "live s"] mr that b
    by (simp add: t'_def [symmetric])
qed

lemma attach_death_frontier_ok:
  assumes core: "core_ok t phys unused held" and i: "i \<in> set phys"
    and death: "\<forall>d. death = Some d \<longrightarrow> frontier_ok d"
  defines "t' \<equiv> attach_death_frontier i death t"
  shows "metadata_step t i t'"
    and "frontier_overflow t = None \<Longrightarrow> death = Some d \<Longrightarrow> covers (blocks t' i) (live d)"
proof -
  note D = core_okD [OF core]
  have icap: "i < block_capacity t" using D(15) [OF i] by simp
  define t1 where "t1 = block_write i (\<lambda>b. b\<lparr>flags := flags b AND NOT FLAG_TAINTED\<rparr>) t"
  define t2 where "t2 = block_write i (\<lambda>b. b\<lparr>frontier := iree_async_frontier_initialize (frontier b) 0\<rparr>) t1"
  have bi: "frontier_ok (frontier (blocks t i))" "length (entries (frontier (blocks t i))) = frontier_capacity t"
    using D(10) [OF i] D(11) [OF icap] by (auto simp: block_ok_def)
  have s1: "metadata_step t i t1" unfolding t1_def
    by (rule metadata_step_write [OF core i]) (use bi in auto)
  note core1 = metadata_step_core [OF core i s1]
  have b1: "blocks t1 = (blocks t)(i := (blocks t i)\<lparr>flags := flags (blocks t i) AND NOT FLAG_TAINTED\<rparr>)"
    and fc: "frontier_capacity t1 = frontier_capacity t" "frontier_overflow t1 = frontier_overflow t"
    using D(1) icap by (auto simp: t1_def blocks_write)
  have s2: "metadata_step t1 i t2" unfolding t2_def
    by (rule metadata_step_write [OF core1 i])
      (use bi in \<open>auto simp: b1 fc iree_async_frontier_initialize_def frontier_ok_def live_def\<close>)
  note core2 = metadata_step_core [OF core1 i s2]
  have "metadata_step t i t' \<and> (frontier_overflow t = None \<longrightarrow> (\<forall>d. death = Some d \<longrightarrow> covers (blocks t' i) (live d)))"
  proof (cases "\<exists>d. death = Some d \<and> entry_count d > 0")
    case False
    then have "t' = t2"
      by (auto simp: t'_def attach_death_frontier_def t1_def [symmetric] t2_def [symmetric] Let_def split: option.split)
    then show ?thesis
      using metadata_step_trans [OF s1 s2] False by (auto simp: covers_def live_def)
  next
    case True
    then obtain d where d: "death = Some d" "entry_count d > 0" by blast
    have fd: "frontier_ok d" using death d(1) by blast
    show ?thesis
    proof (cases "entry_count d \<le> frontier_capacity t")
      case fits: True
      let ?u = "\<lambda>b. b\<lparr>frontier := frontier_copy (frontier b) d\<rparr>"
      have t': "t' = block_write i ?u t1"
        using d fits fc by (simp add: t'_def attach_death_frontier_def t1_def Let_def)
      note live_d = frontier_copy(1) [OF fd, of "frontier (blocks t i)"]
      have "metadata_step t1 i (block_write i ?u t1)"
      proof (rule metadata_step_write [OF core1 i])
        show "frontier_ok (frontier (?u (blocks t1 i)))" by (simp add: frontier_copy(2) [OF fd])
        show "length (entries (frontier (?u (blocks t1 i)))) = frontier_capacity t1"
          using bi(2) fits frontier_copy(3) [OF fd] by (simp add: b1 fc)
      qed (simp_all add: b1)
      moreover have "blocks (block_write i ?u t1) = (blocks t1)(i := ?u (blocks t1 i))"
        using core_okD(1) [OF core1] core_okD(15) [OF core1 i] blocks_write by blast
      ultimately show ?thesis
        using metadata_step_trans [OF s1] live_d d(1) t' by (simp add: covers_def b1)
    next
      case False
      then have t': "t' = iree_hal_memory_tlsf_merge_frontiers i (Some d) t2"
        using d fc by (simp add: t'_def attach_death_frontier_def t1_def t2_def Let_def)
      have "frontier_overflow t2 = frontier_overflow t" using fc by (simp add: t2_def)
      with metadata_step_merge [OF core2 i fd] metadata_step_trans [OF metadata_step_trans [OF s1 s2]] d(1) t'
      show ?thesis by auto
    qed
  qed
  then show "metadata_step t i t'"
    and "frontier_overflow t = None \<Longrightarrow> death = Some d \<Longrightarrow> covers (blocks t' i) (live d)"
    by auto
qed

section \<open>The whole release\<close>

definition mark_free :: "nat \<Rightarrow> 'u iree_hal_memory_tlsf_t \<Rightarrow> 'u iree_hal_memory_tlsf_t" where
  "mark_free i t =
     (let len = block_length (block_at t i);
          t = t\<lparr>bytes_allocated := bytes_allocated t - len\<rparr>;
          t = t\<lparr>bytes_free := bytes_free t + len\<rparr>;
          t = t\<lparr>allocation_count := allocation_count t - 1\<rparr>
      in block_write i (\<lambda>b. b\<lparr>flags := flags b OR FLAG_FREE\<rparr>) t)"

lemma free_impl_unfold:
  "iree_hal_memory_tlsf_free_impl i death keep t =
     (let t1 = mark_free i t;
          t2 = (if keep then t1 else attach_death_frontier i death t1);
          (s, t4) = coalesce_left i (coalesce_right i t2)
      in iree_hal_memory_tlsf_insert_free_block s t4)"
  by (simp add: iree_hal_memory_tlsf_free_impl_def mark_free_def Let_def)

lemma mark_free_ok:
  assumes ok: "tlsf_ok t (xs @ i # ys) bins unused" and used: "\<not> is_free (blocks t i)"
  shows "pending (mark_free i t) xs i ys bins unused"
    and "blocks (mark_free i t) = (blocks t)(i := (blocks t i)\<lparr>flags := flags (blocks t i) OR FLAG_FREE\<rparr>)"
    and "frontier_overflow (mark_free i t) = frontier_overflow t"
    and "history_at (mark_free i t) x c = history_at t x c"
    and "j \<in> set (xs @ i # ys) \<Longrightarrow> j \<noteq> i \<Longrightarrow> \<not> is_free (blocks t j) \<Longrightarrow>
           \<not> is_free (blocks (mark_free i t) j) \<and> blocks (mark_free i t) j = blocks t j"
proof -
  have core: "core_ok t (xs @ i # ys) unused []" and bins: "bins_ok t bins (free_set t (xs @ i # ys))"
    and adj: "no_adjacent_free t (xs @ i # ys)"
    using ok by (auto simp: tlsf_ok_def)
  note D = core_okD [OF core]
  let ?t = "mark_free i t"
  have i: "i \<in> set (xs @ i # ys)" by simp
  have icap: "i < block_capacity t" using D(15) [OF i] by simp
  have dist: "i \<notin> set xs" "i \<notin> set ys" using D(3) by auto
  show b: "blocks ?t = (blocks t)(i := (blocks t i)\<lparr>flags := flags (blocks t i) OR FLAG_FREE\<rparr>)"
    using D(1) icap by (simp add: mark_free_def Let_def blocks_write)
  show fo: "frontier_overflow ?t = frontier_overflow t" by (simp add: mark_free_def Let_def)
  have seg: "segments_ok ?t" using D(1) by (simp add: mark_free_def Let_def)
  have core': "core_ok ?t (xs @ i # ys) unused []"
    by (rule core_ok_mark [OF core i seg b])
      (use used icap in \<open>simp_all add: mark_free_def Let_def block_at_blocks is_free_def\<close>)
  have fr: "is_free (blocks ?t j) = is_free (blocks t j)" if "j \<noteq> i" for j using that by (simp add: b)
  show "\<not> is_free (blocks ?t j) \<and> blocks ?t j = blocks t j" if "j \<noteq> i" "\<not> is_free (blocks t j)" for j
    using that by (simp add: b)
  have "free_set ?t (xs @ i # ys) - {i} = free_set t (xs @ i # ys)"
    using used by (auto simp: free_set_def b)
  moreover have "bins_ok ?t bins (free_set t (xs @ i # ys))"
  proof (rule bins_ok_frame [OF bins])
    show "prev_free (blocks ?t j) = prev_free (blocks t j) \<and> next_free (blocks ?t j) = next_free (blocks t j) \<and>
        block_length (blocks ?t j) = block_length (blocks t j)" for j
      by (simp add: b)
  qed (simp_all add: mark_free_def Let_def)
  moreover have "no_adjacent_free ?t xs = no_adjacent_free t xs" "no_adjacent_free ?t ys = no_adjacent_free t ys"
    by (rule no_adjacent_cong; use fr dist in metis)+
  ultimately show "pending ?t xs i ys bins unused"
    using core' adj by (simp add: pending_def no_adjacent_append) (simp add: b is_free_def)
  have "covers (blocks ?t j) c = covers (blocks t j) c \<and> in_block (blocks ?t j) x = in_block (blocks t j) x" for j
    by (simp add: b covers_def in_block_def)
  then show "history_at ?t x c = history_at t x c"
    unfolding history_at_core [OF core] history_at_core [OF core'] by blast
qed

lemma pending_metadata:
  assumes P: "pending t xs i ys bins unused" and m: "metadata_step t i t'"
  shows "pending t' xs i ys bins unused"
proof -
  note b = metadata_step_blocks [OF m]
  have "free_set t' (xs @ i # ys) = free_set t (xs @ i # ys)" by (auto simp: free_set_def b)
  moreover have "no_adjacent_free t' zs = no_adjacent_free t zs" for zs
    by (rule no_adjacent_cong) (simp add: b)
  ultimately show ?thesis
    using P metadata_step_core [OF _ _ m] metadata_step_bins [OF _ m] by (auto simp: pending_def b)
qed

lemma free_impl_ok:
  fixes keep :: bool
  assumes ok: "tlsf_ok t phys bins unused" and i: "i \<in> set phys" and used: "\<not> is_free (blocks t i)"
    and death: "\<forall>d. death = Some d \<longrightarrow> frontier_ok d"
  defines "t' \<equiv> iree_hal_memory_tlsf_free_impl i death keep t"
  shows "tlsf_inv t'"
    and "frontier_overflow t = None \<Longrightarrow> history_at t x c \<Longrightarrow> keep \<or> \<not> in_block (blocks t i) x \<Longrightarrow> history_at t' x c"
    and "frontier_overflow t = None \<Longrightarrow> \<not> keep \<Longrightarrow> death = Some d \<Longrightarrow> in_block (blocks t i) x \<Longrightarrow>
           history_at t' x (live d)"
    and "j \<in> set phys \<Longrightarrow> j \<noteq> i \<Longrightarrow> \<not> is_free (blocks t j) \<Longrightarrow>
           j \<in> set (physical_blocks t') \<and> same_geometry_at (blocks t j) (blocks t' j)"
proof -
  obtain xs ys where phys: "phys = xs @ i # ys" using i by (meson split_list)
  define t1 where "t1 = mark_free i t"
  note M = mark_free_ok [OF ok [unfolded phys] used, folded t1_def]
  define t2 where "t2 = (if keep then t1 else attach_death_frontier i death t1)"
  have core1: "core_ok t1 (xs @ i # ys) unused []" using M(1) by (simp add: pending_def)
  have mem: "i \<in> set (xs @ i # ys)" by simp
  note A = attach_death_frontier_ok [OF core1 mem death]
  have P2: "pending t2 xs i ys bins unused" and fo2: "frontier_overflow t2 = frontier_overflow t"
    using M(1,3) pending_metadata [OF M(1) A(1)] metadata_step_blocks(4) [OF A(1)] by (auto simp: t2_def)
  have core2: "core_ok t2 (xs @ i # ys) unused []" using P2 by (simp add: pending_def)
  have inb: "in_block (blocks t2 j) x = in_block (blocks t j) x" for j x
    using metadata_step_blocks(2) [OF A(1), of j x] by (simp add: t2_def M(2) in_block_def)
  obtain ys' bins3 unused3 where R: "pending (coalesce_right i t2) xs i ys' bins3 unused3"
    "ys' \<noteq> [] \<Longrightarrow> \<not> is_free (blocks (coalesce_right i t2) (hd ys'))" "carries t2 i (coalesce_right i t2) i"
    using coalesce_right_ok [OF P2] by metis
  obtain xs' s t4 bins4 unused4 where L: "coalesce_left i (coalesce_right i t2) = (s, t4)"
    "pending t4 xs' s ys' bins4 unused4" "ys' \<noteq> [] \<Longrightarrow> \<not> is_free (blocks t4 (hd ys'))"
    "xs' \<noteq> [] \<Longrightarrow> \<not> is_free (blocks t4 (last xs'))" "carries (coalesce_right i t2) i t4 s"
    using coalesce_left_ok [OF R(1,2)] by metis
  have t': "t' = iree_hal_memory_tlsf_insert_free_block s t4"
    by (simp add: t'_def free_impl_unfold Let_def t1_def [symmetric] t2_def [symmetric] L(1))
  obtain bins5 where F: "tlsf_ok t' (xs' @ s # ys') bins5 unused4" "carries t4 s t' s"
    using insert_pending_ok [OF L(2-4)] unfolding t' by metis
  then show "tlsf_inv t'" unfolding tlsf_inv_def by blast
  have car: "carries t2 i t' s" using carries_trans [OF carries_trans [OF R(3) L(5)] F(2)] .
  have core': "core_ok t' (xs' @ s # ys') unused4 []" using F(1) by (simp add: tlsf_ok_def)
  show "j \<in> set (physical_blocks t') \<and> same_geometry_at (blocks t j) (blocks t' j)"
    if j: "j \<in> set phys" "j \<noteq> i" "\<not> is_free (blocks t j)" for j
  proof -
    have "blocks t2 j = blocks t j"
      using metadata_step_blocks(3) [OF A(1) j(2)] M(5) j phys by (simp add: t2_def)
    then show ?thesis
      using car j phys physical_blocks_eq [OF core2] by (auto simp: carries_def live_kept_def same_geometry_at_def)
  qed
  show "history_at t' x c" if none: "frontier_overflow t = None" and h: "history_at t x c"
    and k: "keep \<or> \<not> in_block (blocks t i) x" for x c
  proof -
    have "history_at t2 x c"
    proof (cases keep)
      case False
      have "history_at t1 x c" using h M(4) by simp
      then obtain j where j: "j \<in> set (xs @ i # ys)" "in_block (blocks t1 j) x" "covers (blocks t1 j) c"
        using history_at_core [OF core1] by blast
      have ne: "j \<noteq> i" using False k j(2) M(2) by (auto simp: in_block_def)
      have "blocks t2 j = blocks t1 j" using metadata_step_blocks(3) [OF A(1) ne] False by (simp add: t2_def)
      then have "in_block (blocks t2 j) x" "covers (blocks t2 j) c" using j(2,3) by simp_all
      then show ?thesis using j(1) history_at_core [OF core2] by blast
    qed (use h M(4) t2_def in simp)
    with car none fo2 show ?thesis by (simp add: carries_def)
  qed
  show "history_at t' x (live d)" if none: "frontier_overflow t = None" and "\<not> keep" and d: "death = Some d"
    and x: "in_block (blocks t i) x" for x d
  proof -
    have "covers (blocks t2 i) (live d)" using A(2) none M(3) d that(2) by (simp add: t2_def)
    then have "in_block (blocks t' s) x" "covers (blocks t' s) (live d)"
      using car none fo2 x inb by (auto simp: carries_def)
    then show ?thesis using history_at_core [OF core'] by auto
  qed
qed

end
