(* ===== verification/TLSF_Allocate.thy ===== *)
theory TLSF_Allocate
  imports TLSF_Free
begin

text \<open>
  Allocation in the TLSF allocator: committing a selected block, with or without a split, keeps the
  invariant, hands out exactly the aligned length and keeps the causal history of every byte; metadata
  growth publishes a new segment without moving a node.
\<close>

section \<open>Marking a block as allocated\<close>

definition mark_used ::
    "nat \<Rightarrow> iree_device_size_t \<Rightarrow> 'u iree_hal_memory_tlsf_t \<Rightarrow>
     iree_hal_memory_tlsf_allocation_t \<times> 'u iree_hal_memory_tlsf_t" where
  "mark_used i len t =
     (let t = t\<lparr>bytes_free := bytes_free t - len\<rparr>;
          t = block_write i (\<lambda>b. b\<lparr>flags := flags b AND NOT FLAG_FREE\<rparr>) t;
          block = block_at t i;
          t = t\<lparr>bytes_allocated := bytes_allocated t + block_length block\<rparr>;
          t = t\<lparr>allocation_count := allocation_count t + 1\<rparr>
      in (\<lparr>alloc_offset = offset block, alloc_length = block_length block, alloc_block_index = i,
           alloc_death_frontier = optional_frontier (frontier block), alloc_block_flags = flags block\<rparr>, t))"

lemma allocate_block_unfold:
  "iree_hal_memory_tlsf_allocate_block i a t =
     (let m = block_length (block_at t i) - a
      in if m \<ge> alignment t \<and> fst (iree_hal_memory_tlsf_alloc_node t) \<noteq> BLOCK_INDEX_NONE then
           let (r, t1) = iree_hal_memory_tlsf_alloc_node t;
               t2 = iree_hal_memory_tlsf_remove_free_block i t1;
               t3 = split_links i r a m t2
           in mark_used i a (iree_hal_memory_tlsf_insert_free_block r t3)
         else
           let t1 = (if m \<ge> alignment t then snd (iree_hal_memory_tlsf_alloc_node t) else t);
               t2 = iree_hal_memory_tlsf_remove_free_block i t1
           in mark_used i (block_length (block_at t2 i)) t2)"
  by (auto simp: iree_hal_memory_tlsf_allocate_block_def mark_used_def split_block_def Let_def
      split: prod.splits)

text \<open>A free block that is out of the matrix becomes allocated.\<close>

lemma mark_used_ok:
  fixes t :: "'u iree_hal_memory_tlsf_t"
  assumes core: "core_ok t phys unused []" and bins: "bins_ok t bins (free_set t phys - {i})"
    and i: "i \<in> set phys" and free: "is_free (blocks t i)"
    and adj: "\<And>t' :: 'u iree_hal_memory_tlsf_t. (\<And>j. is_free (blocks t' j) = (j \<noteq> i \<and> is_free (blocks t j))) \<Longrightarrow> no_adjacent_free t' phys"
    and len: "len = block_length (blocks t i)"
  obtains al t' where "mark_used i len t = (al, t')" and "tlsf_ok t' phys bins unused"
    and "alloc_offset al = offset (blocks t i)" "alloc_length al = len" "alloc_block_index al = i"
      "alloc_death_frontier al = optional_frontier (frontier (blocks t i))"
      "alloc_block_flags al = flags (blocks t i) AND NOT FLAG_FREE"
    and "blocks t' = (blocks t)(i := (blocks t i)\<lparr>flags := flags (blocks t i) AND NOT FLAG_FREE\<rparr>)"
    and "frontier_overflow t' = frontier_overflow t"
proof -
  note D = core_okD [OF core]
  have icap: "i < block_capacity t" using D(15) [OF i] by simp
  obtain al t' where m: "mark_used i len t = (al, t')" by fastforce
  have b: "blocks t' = (blocks t)(i := (blocks t i)\<lparr>flags := flags (blocks t i) AND NOT FLAG_FREE\<rparr>)"
    using m D(1) icap by (auto simp: mark_used_def Let_def blocks_write)
  have seg: "segments_ok t'" using m D(1) by (auto simp: mark_used_def Let_def)
  have at: "block_at (block_write i (\<lambda>b. b\<lparr>flags := flags b AND NOT FLAG_FREE\<rparr>) (t\<lparr>bytes_free := w\<rparr>)) i =
      (blocks t i)\<lparr>flags := flags (blocks t i) AND NOT FLAG_FREE\<rparr>" for w
    using D(1) icap by (subst block_at_blocks) (simp_all add: blocks_write)
  have v: "range_length t' = range_length t" "alignment t' = alignment t"
      "frontier_capacity t' = frontier_capacity t" "frontier_overflow t' = frontier_overflow t"
      "block_capacity t' = block_capacity t" "unused_node_head t' = unused_node_head t"
      "bytes_free t' = bytes_free t - len" "bytes_allocated t' = bytes_allocated t + len"
      "allocation_count t' = allocation_count t + 1"
      "free_lists t' = free_lists t" "sl_bitmaps t' = sl_bitmaps t" "fl_bitmap t' = fl_bitmap t"
      "free_block_count t' = free_block_count t"
    using m len by (auto simp: mark_used_def Let_def at)
  have core': "core_ok t' phys unused []"
    by (rule core_ok_mark [OF core i seg b]) (use v free len in \<open>simp_all add: is_free_def\<close>)
  have fr: "is_free (blocks t' j) = (j \<noteq> i \<and> is_free (blocks t j))" for j by (simp add: b is_free_def)
  have fs: "free_set t' phys = free_set t phys - {i}" by (auto simp: free_set_def fr)
  have "bins_ok t' bins (free_set t' phys)"
    unfolding fs by (rule bins_ok_frame [OF bins]) (use v in \<open>simp_all add: b\<close>)
  with core' adj [OF fr] have "tlsf_ok t' phys bins unused" by (simp add: tlsf_ok_def)
  moreover have "alloc_offset al = offset (blocks t i)" "alloc_length al = len" "alloc_block_index al = i"
      "alloc_death_frontier al = optional_frontier (frontier (blocks t i))"
      "alloc_block_flags al = flags (blocks t i) AND NOT FLAG_FREE"
    using m len by (auto simp: mark_used_def Let_def at)
  ultimately show ?thesis using that m b v(4) by blast
qed

section \<open>Committing a selected block\<close>

text \<open>What an allocation of \<open>i\<close> promises: exactly \<open>a\<close> bytes at the block's offset, and no loss.\<close>

definition allocated ::
    "'u iree_hal_memory_tlsf_t \<Rightarrow> nat \<Rightarrow> iree_device_size_t \<Rightarrow> iree_hal_memory_tlsf_allocation_t \<Rightarrow>
     'u iree_hal_memory_tlsf_t \<Rightarrow> bool" where
  "allocated t i a al t' \<longleftrightarrow>
     tlsf_inv t' \<and> live_kept t t' \<and> i \<in> set (physical_blocks t') \<and> \<not> is_free (blocks t' i) \<and>
     offset (blocks t' i) = offset (blocks t i) \<and> block_length (blocks t' i) = a \<and>
     alloc_offset al = offset (blocks t i) \<and> alloc_length al = a \<and> alloc_block_index al = i \<and>
     alloc_death_frontier al = optional_frontier (frontier (blocks t i)) \<and>
     (has_flag FLAG_TAINTED (alloc_block_flags al) \<longleftrightarrow> has_flag FLAG_TAINTED (flags (blocks t i))) \<and>
     (\<forall>x c. history_at t x c \<longrightarrow> history_at t' x c) \<and> frontier_overflow t' = frontier_overflow t"

lemma no_adjacent_used:
  assumes "no_adjacent_free t phys" and "\<And>j. j \<in> set phys \<Longrightarrow> is_free (blocks t' j) \<Longrightarrow> is_free (blocks t j)"
  shows "no_adjacent_free t' phys"
  using assms(1) unfolding no_adjacent_free_def by (rule successively_mono) (use assms(2) in auto)

lemma allocate_whole_block:
  fixes t :: "'u iree_hal_memory_tlsf_t"
  assumes ok: "tlsf_ok t phys bins unused" and i: "i \<in> set phys" and free: "is_free (blocks t i)"
    and len: "block_length (blocks t i) = a" and small: "\<not> alignment t \<le> block_length (blocks t i) - a"
  obtains al t' where "iree_hal_memory_tlsf_allocate_block i a t = (al, t')" and "allocated t i a al t'"
proof -
  have core: "core_ok t phys unused []" and bins: "bins_ok t bins (free_set t phys)" and adj: "no_adjacent_free t phys"
    using ok by (auto simp: tlsf_ok_def)
  note D = core_okD [OF core]
  have icap: "i < block_capacity t" using D(15) [OF i] by simp
  define t2 where "t2 = iree_hal_memory_tlsf_remove_free_block i t"
  have sub: "free_set t phys \<subseteq> set phys" and mem: "i \<in> free_set t phys" using i free by (auto simp: free_set_def)
  obtain bins2 where R: "core_ok t2 phys unused []" "bins_ok t2 bins2 (free_set t phys - {i})"
    "\<And>j. relinked (blocks t j) (blocks t2 j)" "frontier_overflow t2 = frontier_overflow t"
    using remove_core [OF core bins sub mem, folded t2_def] by metis
  have fr: "is_free (blocks t2 j) = is_free (blocks t j)" for j
    using R(3) [of j] by (simp add: relinked_def is_free_def)
  have fs: "free_set t2 phys = free_set t phys" by (auto simp: free_set_def fr)
  have len2: "block_length (blocks t2 i) = a" "block_at t2 i = blocks t2 i"
    using R(3) [of i] len core_okD(15) [OF R(1) i] by (auto simp: relinked_def block_at_blocks)
  obtain al t' where M: "mark_used i a t2 = (al, t')" "tlsf_ok t' phys bins2 unused"
    "alloc_offset al = offset (blocks t2 i)" "alloc_length al = a" "alloc_block_index al = i"
    "alloc_death_frontier al = optional_frontier (frontier (blocks t2 i))"
    "alloc_block_flags al = flags (blocks t2 i) AND NOT FLAG_FREE"
    "blocks t' = (blocks t2)(i := (blocks t2 i)\<lparr>flags := flags (blocks t2 i) AND NOT FLAG_FREE\<rparr>)"
    "frontier_overflow t' = frontier_overflow t2"
  proof (rule mark_used_ok [OF R(1) R(2) [folded fs] i])
    show "is_free (blocks t2 i)" using free fr by simp
    show "no_adjacent_free t'' phys" if "\<And>j. is_free (blocks t'' j) = (j \<noteq> i \<and> is_free (blocks t2 j))" for t'' :: "'u iree_hal_memory_tlsf_t"
      by (rule no_adjacent_used [OF adj]) (use that fr in auto)
  qed (use len2 in auto)
  have alloc: "iree_hal_memory_tlsf_allocate_block i a t = (al, t')"
    using small len icap M(1) by (simp add: allocate_block_unfold Let_def block_at_blocks t2_def [symmetric] len2)
  have core': "core_ok t' phys unused []" using M(2) by (simp add: tlsf_ok_def)
  have same: "offset (blocks t' j) = offset (blocks t j) \<and> block_length (blocks t' j) = block_length (blocks t j) \<and>
      frontier (blocks t' j) = frontier (blocks t j) \<and>
      has_flag FLAG_TAINTED (flags (blocks t' j)) = has_flag FLAG_TAINTED (flags (blocks t j))" for j
    using R(3) [of j] by (auto simp: M(8) relinked_def)
  have "live_kept t t'"
    by (rule live_keptI [OF core core']) (use same fr M(8) free in \<open>auto simp: same_geometry_at_def\<close>)
  moreover have "history_at t' x c = history_at t x c" for x c
    unfolding history_at_core [OF core] history_at_core [OF core'] using same by (simp add: in_block_def covers_def)
  moreover have "tlsf_inv t'" unfolding tlsf_inv_def using M(2) by blast
  moreover have "i \<in> set (physical_blocks t')" using physical_blocks_eq [OF core'] i by simp
  moreover have "\<not> is_free (blocks t' i)" by (simp add: M(8) is_free_def)
  ultimately have "allocated t i a al t'"
    using M(3-7,9) R(3) [of i] R(4) same [of i] len by (simp add: allocated_def relinked_def)
  with alloc show ?thesis by (rule that)
qed

lemma split_links_history:
  assumes core: "core_ok t (xs @ i # ys) unused [r]" and free: "is_free (blocks t i)"
    and am: "unat a + unat m = unat (block_length (blocks t i))" "a \<noteq> 0" "m \<noteq> 0"
      "unat (alignment t) dvd unat a" "unat (alignment t) dvd unat m"
  shows "history_at t x c \<Longrightarrow> history_at (split_links i r a m t) x c"
    and "live_kept t (split_links i r a m t)"
proof -
  let ?t = "split_links i r a m t"
  note S = split_links_ok [OF core free am]
  have off: "unat (offset (blocks ?t r)) = unat (offset (blocks t i)) + unat a"
    using block_range_no_wrap [OF core, of i] am(1) unat_u64_lt [of "range_length t"] S(17)
    by (simp add: unat_add_no_wrap)
  show "history_at ?t x c" if h: "history_at t x c"
  proof -
    obtain j where j: "j \<in> set (xs @ i # ys)" "in_block (blocks t j) x" "covers (blocks t j) c"
      using h history_at_core [OF core] by blast
    show ?thesis
    proof (cases "j = i")
      case True
      have "covers (blocks ?t i) c" "covers (blocks ?t r) c"
        using j(3) True S(15,16,18,19) by (simp_all add: covers_def)
      moreover have "in_block (blocks ?t i) x \<or> in_block (blocks ?t r) x"
        using j(2) True S(4,5,14) off am(1) by (auto simp: in_block_def)
      ultimately show ?thesis unfolding history_at_core [OF S(1)] by auto
    next
      case False
      then have o: "j \<in> set xs \<union> set ys" using j(1) by auto
      have "covers (blocks ?t j) c" "in_block (blocks ?t j) x"
        using j(2,3) S(6) [OF o] S(7) [OF o] by (simp_all add: covers_def in_block_def)
      with o show ?thesis unfolding history_at_core [OF S(1)] by auto
    qed
  qed
  show "live_kept t ?t"
  proof (rule live_keptI [OF core S(1)])
    fix j assume "j \<in> set (xs @ i # ys)" "\<not> is_free (blocks t j)"
    with free have o: "j \<in> set xs \<union> set ys" by auto
    then show "j \<in> set (xs @ i # r # ys) \<and> same_geometry_at (blocks t j) (blocks ?t j)"
      using S(6) [OF o] S(7) [OF o] by (auto simp: same_geometry_at_def)
  qed
qed

lemma allocate_split_block:
  fixes t :: "'u iree_hal_memory_tlsf_t"
  assumes ok: "tlsf_ok t (xs @ i # ys) bins (u # us)" and free: "is_free (blocks t i)"
    and a: "a \<noteq> 0" "a \<le> block_length (blocks t i)" "unat (alignment t) dvd unat a"
    and big: "alignment t \<le> block_length (blocks t i) - a"
  obtains al t' where "iree_hal_memory_tlsf_allocate_block i a t = (al, t')" and "allocated t i a al t'"
proof -
  let ?phys = "xs @ i # ys" and ?phys' = "xs @ i # u # ys"
  define m where "m = block_length (blocks t i) - a"
  have core: "core_ok t ?phys (u # us) []" and bins: "bins_ok t bins (free_set t ?phys)" and adj: "no_adjacent_free t ?phys"
    using ok by (auto simp: tlsf_ok_def)
  note D = core_okD [OF core]
  have icap: "i < block_capacity t" and u: "u \<noteq> BLOCK_INDEX_NONE" and nu: "u \<notin> set ?phys" "u \<noteq> i"
    using D(15) [of i] D(16) [of u] D(3) by auto
  have sub: "free_set t ?phys \<subseteq> set ?phys" and mem: "i \<in> free_set t ?phys" using free by (auto simp: free_set_def)
  obtain t1 where A: "iree_hal_memory_tlsf_alloc_node t = (u, t1)" "core_ok t1 ?phys us [u]"
    "bins_ok t1 bins (free_set t ?phys)" "blocks t1 = (blocks t)(u := zero_block (frontier_capacity t))"
    "core_view t1 = core_view (t\<lparr>unused_node_head := next_free (blocks t u)\<rparr>)"
    using alloc_node_ok [OF core bins sub] by blast
  define t2 where "t2 = iree_hal_memory_tlsf_remove_free_block i t1"
  obtain bins2 where R: "core_ok t2 ?phys us [u]" "bins_ok t2 bins2 (free_set t ?phys - {i})"
    "\<And>j. relinked (blocks t1 j) (blocks t2 j)" "core_view t2 = core_view t1"
    using remove_core [OF A(2,3) sub mem, folded t2_def] by metis
  have rel: "relinked (blocks t j) (blocks t2 j)" if "j \<in> set ?phys" for j
    using R(3) [of j] A(4) nu(1) that by (auto simp: relinked_def)
  have al2: "alignment t2 = alignment t" using R(4) A(5) by (simp add: core_view_def)
  have ii: "i \<in> set ?phys" by simp
  have free2: "is_free (blocks t2 i)" and len2: "block_length (blocks t2 i) = block_length (blocks t i)"
    using rel [OF ii] free by (auto simp: relinked_def is_free_def)
  have am: "unat a + unat m = unat (block_length (blocks t2 i))" "a \<noteq> 0" "m \<noteq> 0"
      "unat (alignment t2) dvd unat a" "unat (alignment t2) dvd unat m"
  proof -
    have um: "unat m = unat (block_length (blocks t i)) - unat a" using a(2) by (simp add: m_def unat_sub_no_wrap)
    have le: "unat a \<le> unat (block_length (blocks t i))" using a(2) by (simp add: word_le_nat_alt)
    show "unat a + unat m = unat (block_length (blocks t2 i))" using um le len2 by simp
    show "a \<noteq> 0" by (rule a(1))
    have "0 < alignment t" using D(2) by (auto simp: config_ok_def IREE_HAL_MEMORY_TLSF_MIN_ALIGNMENT_def word_gt_0)
    then show "m \<noteq> 0" using big by (auto simp: m_def)
    show "unat (alignment t2) dvd unat a" using a(3) al2 by simp
    show "unat (alignment t2) dvd unat m"
      using um a(3) D(10) [OF ii] al2 by (simp add: block_ok_def dvd_diff_nat)
  qed
  define t3 where "t3 = split_links i u a m t2"
  note S = split_links_ok [OF R(1) free2 am, folded t3_def] and SH = split_links_history [OF R(1) free2 am, folded t3_def]
  have out: "is_free (blocks t3 j) = is_free (blocks t j)" if "j \<in> set xs \<union> set ys" for j
    using S(6) [OF that] rel [of j] that by (auto simp: relinked_def is_free_def)
  have bins3: "bins_ok t3 bins2 (free_set t ?phys - {i})"
  proof (rule bins_ok_frame [OF R(2)])
    show "block_capacity t3 = block_capacity t2" using S(13) by (simp add: core_view_def)
    show "prev_free (blocks t3 j) = prev_free (blocks t2 j) \<and> next_free (blocks t3 j) = next_free (blocks t2 j) \<and>
        block_length (blocks t3 j) = block_length (blocks t2 j)" if "j \<in> free_set t ?phys - {i}" for j
    proof -
      have o: "j \<in> set xs \<union> set ys" and "j \<noteq> i" "j \<noteq> u" using that nu(1) by (auto simp: free_set_def)
      then show ?thesis using S(6) [OF o] S(8) [of j] by simp
    qed
  qed (use S(9-12) in auto)
  have sub3: "free_set t ?phys - {i} \<subseteq> set ?phys'" "u \<notin> free_set t ?phys - {i}" "u \<in> set ?phys'"
    using nu by (auto simp: free_set_def)
  define t4 where "t4 = iree_hal_memory_tlsf_insert_free_block u t3"
  obtain bins4 where I: "core_ok t4 ?phys' us []" "bins_ok t4 bins4 (insert u (free_set t ?phys - {i}))"
    "\<And>j. relinked (blocks t3 j) (blocks t4 j)" "core_view t4 = core_view t3"
    using insert_core [OF S(1) bins3 sub3(1,3,2), folded t4_def] by metis
  have fr4: "is_free (blocks t4 j) = is_free (blocks t3 j)" for j
    using I(3) [of j] by (simp add: relinked_def is_free_def)
  have fs: "insert u (free_set t ?phys - {i}) = free_set t4 ?phys' - {i}"
    using S(3) out nu by (auto simp: free_set_def fr4)
  have ii': "i \<in> set ?phys'" by simp
  obtain al t' where M: "mark_used i a t4 = (al, t')" "tlsf_ok t' ?phys' bins4 us"
    "alloc_offset al = offset (blocks t4 i)" "alloc_length al = a" "alloc_block_index al = i"
    "alloc_death_frontier al = optional_frontier (frontier (blocks t4 i))"
    "alloc_block_flags al = flags (blocks t4 i) AND NOT FLAG_FREE"
    "blocks t' = (blocks t4)(i := (blocks t4 i)\<lparr>flags := flags (blocks t4 i) AND NOT FLAG_FREE\<rparr>)"
    "frontier_overflow t' = frontier_overflow t4"
  proof (rule mark_used_ok [OF I(1) I(2) [unfolded fs] ii'])
    show "is_free (blocks t4 i)" using S(2) fr4 by simp
    show "a = block_length (blocks t4 i)" using S(4) I(3) [of i] by (simp add: relinked_def)
    fix t'' :: "'u iree_hal_memory_tlsf_t"
    assume f: "\<And>j. is_free (blocks t'' j) = (j \<noteq> i \<and> is_free (blocks t4 j))"
    have o: "is_free (blocks t'' j) \<Longrightarrow> is_free (blocks t j)" if "j \<in> set xs \<union> set ys" for j
      using f fr4 out that by simp
    have "no_adjacent_free t'' xs" "no_adjacent_free t'' ys" "ys \<noteq> [] \<longrightarrow> \<not> is_free (blocks t'' (hd ys))"
      using adj free o no_adjacent_used [of t xs t''] no_adjacent_used [of t ys t''] by (auto simp: no_adjacent_append)
    moreover have "\<not> is_free (blocks t'' i)" using f by simp
    ultimately show "no_adjacent_free t'' ?phys'"
      unfolding no_adjacent_append [of t'' xs i] using no_adjacent_append [of t'' "[]" u ys]
      by (simp add: no_adjacent_free_def)
  qed auto
  have alloc: "iree_hal_memory_tlsf_allocate_block i a t = (al, t')"
    using big icap M(1) u A(1)
    by (simp add: allocate_block_unfold Let_def block_at_blocks m_def [symmetric] t2_def [symmetric]
        t3_def [symmetric] t4_def [symmetric])
  have core': "core_ok t' ?phys' us []" using M(2) by (simp add: tlsf_ok_def)
  have h12: "history_at t2 x c = history_at t x c" for x c
    unfolding history_at_core [OF core] history_at_core [OF R(1)] using covers_relinked [OF rel] by blast
  have same4: "in_block (blocks t' j) x = in_block (blocks t4 j) x" "covers (blocks t' j) c = covers (blocks t4 j) c" for j x c
    by (simp_all add: M(8) in_block_def covers_def)
  have h4: "history_at t' x c = history_at t4 x c" for x c
    unfolding history_at_core [OF I(1)] history_at_core [OF core'] same4 ..
  have hist: "history_at t x c \<longrightarrow> history_at t' x c" for x c
    using SH(1) h12 h4 history_relinked [OF S(1) I(1,3)] by auto
  have k2: "live_kept t t2"
    by (rule live_keptI [OF core R(1)]) (use rel in \<open>auto simp: relinked_def same_geometry_at_def is_free_def\<close>)
  have k4: "live_kept t4 t'"
    by (rule live_keptI [OF I(1) core']) (use S(2) fr4 in \<open>auto simp: M(8) same_geometry_at_def is_free_def\<close>)
  have kept: "live_kept t t'"
    using live_kept_trans [OF live_kept_trans [OF k2 SH(2)] live_kept_trans [OF live_kept_relinked [OF S(1) I(1,3)] k4]] .
  have "tlsf_inv t'" unfolding tlsf_inv_def using M(2) by blast
  moreover have "i \<in> set (physical_blocks t')" using physical_blocks_eq [OF core'] by simp
  moreover have "\<not> is_free (blocks t' i)" by (simp add: M(8) is_free_def)
  moreover have "frontier_overflow t' = frontier_overflow t"
    using M(9) I(4) S(13) R(4) A(5) by (simp add: core_view_def)
  ultimately have "allocated t i a al t'"
    using M(3-8) I(3) [of i] S(4,14-16) rel [OF ii] hist kept by (simp add: allocated_def relinked_def)
  with alloc show ?thesis by (rule that)
qed

end
