(* ===== verification/TLSF_Growth.thy ===== *)
theory TLSF_Growth
  imports TLSF_Allocate
begin

text \<open>
  Metadata growth of the TLSF allocator: the published segment doubles the handle space up to the
  32-bit limit, existing handles resolve to the same nodes, and the new nodes join the unused list.
\<close>

section \<open>The shape after publication\<close>

definition grow_count :: "'u iree_hal_memory_tlsf_t \<Rightarrow> nat" where
  "grow_count t = min (block_capacity t) (UINT32_MAX - block_capacity t)"

definition publish ::
    "iree_hal_memory_tlsf_block_t list \<Rightarrow> nat \<Rightarrow> 'u iree_hal_memory_tlsf_t \<Rightarrow> 'u iree_hal_memory_tlsf_t" where
  "publish storage head t =
     t\<lparr>block_segments := block_segments t @ [storage], block_segment_count := block_segment_count t + 1,
       block_capacity := block_capacity t + length storage, unused_node_head := head\<rparr>"

lemma growable_capacity:
  assumes ok: "segments_ok t" and room: "0 < grow_count t"
  defines "k \<equiv> initial_block_shift t + length (block_segments t) - 1"
  shows "initial_block_capacity t \<noteq> UINT32_MAX" and "block_capacity t = 2 ^ k" and "k \<le> 31"
    and "grow_count t = segment_length (initial_block_shift t) (length (block_segments t))"
    and "block_capacity t + grow_count t = min (2 ^ Suc k) UINT32_MAX"
proof -
  have lt: "block_capacity t < UINT32_MAX" using room by (simp add: grow_count_def)
  show c: "initial_block_capacity t \<noteq> UINT32_MAX" using ok lt by (auto simp: segments_ok_def)
  then show cap: "block_capacity t = 2 ^ k" using ok lt by (auto simp: segments_ok_def k_def min_def split: if_splits)
  have "(2::nat) ^ k < 2 ^ 32" using lt cap by (simp add: UINT32_MAX_def)
  then have "k < 32" by (rule power_less_imp_less_exp [rotated]) simp
  then show "k \<le> 31" by simp
  show "grow_count t = segment_length (initial_block_shift t) (length (block_segments t))"
    using cap by (simp add: grow_count_def segment_length_def k_def)
  have "c + min c (m - c) = min (2 * c) m" if "c < m" for c m :: nat
    using that by (auto simp: min_def)
  from this [OF lt] show "block_capacity t + grow_count t = min (2 ^ Suc k) UINT32_MAX"
    by (simp add: grow_count_def cap)
qed

lemma segments_ok_publish:
  assumes ok: "segments_ok t" and room: "0 < grow_count t" and len: "length storage = grow_count t"
  shows "segments_ok (publish storage head t)"
proof -
  note G = growable_capacity [OF ok room]
  let ?n = "length (block_segments t)"
  have ne: "block_segments t \<noteq> []" using ok by (simp add: segments_ok_def)
  have "length ((block_segments t @ [storage]) ! k) = segment_length (initial_block_shift t) k"
    if "0 < k" "k < Suc ?n" for k
    using that ok G(1,4) len by (cases "k = ?n") (auto simp: segments_ok_def nth_append split: if_splits)
  then show ?thesis
    using ok G ne len unfolding segments_ok_def publish_def by (auto simp: nth_append Suc_diff_le)
qed

lemma block_at_publish:
  assumes ok: "segments_ok t" and room: "0 < grow_count t" and len: "length storage = grow_count t"
  shows "i < block_capacity t \<Longrightarrow> block_at (publish storage head t) i = block_at t i"
    and "j < grow_count t \<Longrightarrow> block_at (publish storage head t) (block_capacity t + j) = storage ! j"
proof -
  note G = growable_capacity [OF ok room]
  let ?loc = "block_locate (initial_block_capacity t) (initial_block_shift t)"
  let ?n = "length (block_segments t)"
  show "block_at (publish storage head t) i = block_at t i" if i: "i < block_capacity t"
  proof -
    obtain s k where loc: "?loc i = (s, k)" by fastforce
    with locate_in_bounds [OF ok i loc] show ?thesis
      by (simp add: iree_hal_memory_tlsf_block_at_def publish_def nth_append)
  qed
  show "block_at (publish storage head t) (block_capacity t + j) = storage ! j" if j: "j < grow_count t"
  proof -
    define k where "k = initial_block_shift t + ?n - 1"
    have cap: "block_capacity t = 2 ^ k" using G(2) by (simp add: k_def)
    have ini: "initial_block_capacity t = 2 ^ initial_block_shift t" and ne: "0 < ?n"
      using ok G(1) by (auto simp: segments_ok_def)
    have sk: "initial_block_shift t \<le> k" using ne unfolding k_def by linarith
    have jk: "j < 2 ^ k" "2 ^ k + j \<le> UINT32_MAX" using j cap by (auto simp: grow_count_def)
    have hb: "highest_bit (2 ^ k + j) = k" by (rule highest_bit_unique) (use jk in auto)
    have "initial_block_capacity t \<le> 2 ^ k + j"
      using ini power_increasing [OF sk, of "2::nat"] by linarith
    then have "?loc (2 ^ k + j) = (k - initial_block_shift t + 1, j)"
      using block_locate_eq [of "initial_block_capacity t" "2 ^ k + j" "initial_block_shift t"] jk ini hb by simp
    moreover have "k - initial_block_shift t + 1 = ?n" using ne unfolding k_def by linarith
    ultimately show ?thesis by (simp add: iree_hal_memory_tlsf_block_at_def publish_def cap)
  qed
qed

lemma blocks_publish:
  assumes "segments_ok t" and "0 < grow_count t" and "length storage = grow_count t"
  shows "i < block_capacity t \<Longrightarrow> blocks (publish storage head t) i = blocks t i"
    and "j < grow_count t \<Longrightarrow> blocks (publish storage head t) (block_capacity t + j) = storage ! j"
  using block_at_publish(1) [OF assms] block_at_publish(2) [OF assms] assms(3)
  by (simp_all add: blocks_def store_contents_def valid_index_def publish_def [THEN arg_cong [where f = block_capacity]])

section \<open>The prepared chain\<close>

definition chain_storage :: "nat \<Rightarrow> nat \<Rightarrow> nat \<Rightarrow> nat \<Rightarrow> iree_hal_memory_tlsf_block_t list" where
  "chain_storage cap first count tail =
     map (\<lambda>i. (zero_block cap)\<lparr>next_free := (if i \<noteq> 0 then first + i - 1 else tail)\<rparr>) [0..<count]"

lemma chain_new_nodes:
  assumes "\<And>j. j < count \<Longrightarrow> nxt (first + j) = (if j \<noteq> 0 then first + j - 1 else tail)" and "0 < count"
    and rest: "chain nxt tail unused n"
  shows "chain nxt (first + count - 1) (rev [first..<first + count] @ unused) n"
  using assms
proof (induction count)
  case (Suc c)
  show ?case
  proof (cases "c = 0")
    case True
    with Suc.prems(1) [of 0] rest show ?thesis by simp
  next
    case False
    then have "chain nxt (first + c - 1) (rev [first..<first + c] @ unused) n"
      using Suc by simp
    with False Suc.prems(1) [of c] show ?thesis by simp
  qed
qed simp

lemma publish_ok:
  assumes ok: "tlsf_ok t phys bins unused" and room: "0 < grow_count t"
  defines "t' \<equiv> publish (chain_storage (frontier_capacity t) (block_capacity t) (grow_count t) (unused_node_head t))
                  (block_capacity t + grow_count t - 1) t"
  shows "tlsf_ok t' phys bins (rev [block_capacity t..<block_capacity t + grow_count t] @ unused)"
    and "i < block_capacity t \<Longrightarrow> blocks t' i = blocks t i"
proof -
  have core: "core_ok t phys unused []" and bins: "bins_ok t bins (free_set t phys)" and adj: "no_adjacent_free t phys"
    using ok by (auto simp: tlsf_ok_def)
  note D = core_okD [OF core]
  let ?c = "block_capacity t" and ?g = "grow_count t"
  let ?s = "chain_storage (frontier_capacity t) ?c ?g (unused_node_head t)"
  have len: "length ?s = ?g" by (simp add: chain_storage_def)
  have old: "blocks t' i = blocks t i" if "i < ?c" for i
    unfolding t'_def by (rule blocks_publish(1) [OF D(1) room len that])
  show "i < ?c \<Longrightarrow> blocks t' i = blocks t i" by (rule old)
  have new: "blocks t' (?c + j) = (zero_block (frontier_capacity t))\<lparr>next_free :=
      (if j \<noteq> 0 then ?c + j - 1 else unused_node_head t)\<rparr>" if "j < ?g" for j
    using blocks_publish(2) [OF D(1) room len that] that by (simp add: t'_def chain_storage_def)
  have v: "range_length t' = range_length t" "alignment t' = alignment t" "frontier_capacity t' = frontier_capacity t"
    "frontier_overflow t' = frontier_overflow t" "block_capacity t' = ?c + ?g"
    "unused_node_head t' = ?c + ?g - 1" "bytes_allocated t' = bytes_allocated t" "bytes_free t' = bytes_free t"
    "allocation_count t' = allocation_count t" "free_lists t' = free_lists t" "sl_bitmaps t' = sl_bitmaps t"
    "fl_bitmap t' = fl_bitmap t" "free_block_count t' = free_block_count t"
    using len by (simp_all add: t'_def publish_def)
  have ph: "blocks t' i = blocks t i" if "i \<in> set phys" for i using old D(15) [OF that] by blast
  have un: "blocks t' i = blocks t i" if "i \<in> set unused" for i using old D(16) [OF that] by blast
  let ?u = "rev [?c..<?c + ?g] @ unused"
  have ch: "chain (\<lambda>i. next_free (blocks t' i)) (?c + ?g - 1) ?u BLOCK_INDEX_NONE"
  proof (rule chain_new_nodes [where tail = "unused_node_head t"])
    show "chain (\<lambda>i. next_free (blocks t' i)) (unused_node_head t) unused BLOCK_INDEX_NONE"
      using D(7) un by (subst chain_cong) auto
  qed (use new room in auto)
  have "dseg (\<lambda>i. prev_physical (blocks t' i)) (\<lambda>i. next_physical (blocks t' i)) BLOCK_INDEX_NONE 0 phys BLOCK_INDEX_NONE"
    using D(8) ph by (subst dseg_cong) auto
  moreover have "tiles (blocks t') 0 phys (unat (range_length t))"
    using D(9) ph by (subst tiles_cong) auto
  moreover have "\<forall>i\<in>set phys. block_ok (alignment t) (i = last phys) (blocks t' i)" using D(10) ph by simp
  moreover have "length (entries (frontier (blocks t' i))) = frontier_capacity t" if "i < ?c + ?g" for i
  proof (cases "i < ?c")
    case False
    with that new [of "i - ?c"] show ?thesis by (simp add: zero_block_def)
  qed (use old D(11) in simp)
  moreover have "distinct (phys @ ?u @ [])"
    using D(3) D(15) D(16) by (fastforce simp: disjoint_iff)
  moreover have "set (phys @ ?u @ []) = {..<?c + ?g}"
  proof -
    have "set phys \<union> set unused = {..<?c}" using D(4) by simp
    moreover have "{..<?c} \<union> {?c..<?c + ?g} = {..<?c + ?g}" by auto
    ultimately show ?thesis by auto
  qed
  moreover have sums: "filter (\<lambda>i. Q (is_free (blocks t' i))) phys = filter (\<lambda>i. Q (is_free (blocks t i))) phys"
    "(\<Sum>i\<leftarrow>filter (\<lambda>i. Q (is_free (blocks t' i))) phys. block_length (blocks t' i)) =
     (\<Sum>i\<leftarrow>filter (\<lambda>i. Q (is_free (blocks t i))) phys. block_length (blocks t i))" for Q
    using free_sums_cong [of phys "blocks t'" "blocks t"] ph by auto
  moreover have "config_ok t'" using D(2) by (simp add: config_ok_def v)
  moreover have "segments_ok t'" unfolding t'_def by (rule segments_ok_publish [OF D(1) room len])
  ultimately have "core_ok t' phys ?u []"
    unfolding core_ok_def v using D(5,6,12-14) ch sums [of "\<lambda>x. x"] sums [of Not] by simp
  moreover have fs: "free_set t' phys = free_set t phys" using ph by (auto simp: free_set_def)
  moreover have "bins_ok t' bins (free_set t phys)"
  proof -
    have S: "free_set t phys \<subseteq> set phys" by (auto simp: free_set_def)
    note B = bins_okD [OF bins]
    have "dseg (\<lambda>i. prev_free (blocks t' i)) (\<lambda>i. next_free (blocks t' i)) BLOCK_INDEX_NONE
        (free_lists t fl sl) (bins fl sl) BLOCK_INDEX_NONE" for fl sl
      using B(1,3) [of fl sl] ph S by (subst dseg_cong) auto
    then show ?thesis
      unfolding bins_ok_def v using B ph S by (auto simp: subset_iff)
  qed
  moreover have "no_adjacent_free t' phys" using adj ph no_adjacent_cong [of phys t' t] by simp
  ultimately show "tlsf_ok t' phys bins ?u" by (simp add: tlsf_ok_def)
qed

section \<open>Growth on the allocation path\<close>

lemma prepare_apply_growth:
  assumes room: "0 < grow_count t"
    and g: "growth = \<lparr>growth_storage = [], growth_block_stride = block_stride t,
        growth_first_block = block_capacity t, growth_block_count = grow_count t\<rparr>"
    and prep: "iree_hal_memory_tlsf_prepare_growth (frontier_capacity t) growth allocator = Inr prepared"
  shows "fst (snd (iree_hal_memory_tlsf_apply_growth t prepared)) =
    publish (chain_storage (frontier_capacity t) (block_capacity t) (grow_count t) (unused_node_head t))
      (block_capacity t + grow_count t - 1) t"
proof -
  let ?s = "chain_storage (frontier_capacity t) (block_capacity t) (grow_count t)"
  have p: "prepared = growth\<lparr>growth_storage := ?s BLOCK_INDEX_NONE\<rparr>"
    using prep room by (auto simp: iree_hal_memory_tlsf_prepare_growth_def g chain_storage_def
        split: iree_status_code_t.splits)
  have "(?s BLOCK_INDEX_NONE)[0 := (?s BLOCK_INDEX_NONE ! 0)\<lparr>next_free := unused_node_head t\<rparr>] = ?s (unused_node_head t)"
    using room by (auto simp: chain_storage_def nth_list_update intro!: nth_equalityI)
  then show ?thesis
    by (simp add: iree_hal_memory_tlsf_apply_growth_def p g publish_def Let_def chain_storage_def)
qed

lemma allocated_publish:
  assumes ok: "tlsf_ok t phys bins unused" and room: "0 < grow_count t" and i: "i \<in> set phys"
  defines "t1 \<equiv> publish (chain_storage (frontier_capacity t) (block_capacity t) (grow_count t) (unused_node_head t))
                  (block_capacity t + grow_count t - 1) t"
  assumes al: "allocated t1 i a al t'"
  shows "allocated t i a al t'"
proof -
  note P = publish_ok [OF ok room, folded t1_def]
  have core: "core_ok t phys unused []" "core_ok t1 phys (rev [block_capacity t..<block_capacity t + grow_count t] @ unused) []"
    using ok P(1) by (auto simp: tlsf_ok_def)
  have same: "blocks t1 j = blocks t j" if "j \<in> set phys" for j
    using P(2) core_okD(15) [OF core(1) that] by simp
  have "history_at t1 x c = history_at t x c" for x c
    unfolding history_at_core [OF core(1)] history_at_core [OF core(2)] using same by simp
  moreover have "live_kept t t1"
    by (rule live_keptI [OF core]) (use same in \<open>auto simp: same_geometry_at_def\<close>)
  moreover have "frontier_overflow t1 = frontier_overflow t" by (simp add: t1_def publish_def)
  ultimately show ?thesis
    using al same [OF i] live_kept_trans [of t t1 t'] by (simp add: allocated_def)
qed

section \<open>Allocation\<close>

definition aligned_size :: "iree_device_size_t \<Rightarrow> iree_device_size_t \<Rightarrow> nat" where
  "aligned_size len align = round_up (unat len) (unat align)"

lemma config_alignment:
  assumes "config_ok t"
  shows "0 < unat (alignment t)"
  using assms by (auto simp: config_ok_def iree_device_size_is_power_of_two_def unat_pos)

lemma aligned_length_ok:
  assumes cfg: "config_ok t" and len: "len \<noteq> 0" and fits: "\<not> len > NOT 0 - (alignment t - 1)"
  defines "a \<equiv> iree_device_align len (alignment t)"
  shows "unat a = aligned_size len (alignment t)" and "a \<noteq> 0" and "unat (alignment t) dvd unat a"
    and "\<not> a < alignment t" and "len \<le> a"
proof -
  show u: "unat a = aligned_size len (alignment t)"
    unfolding a_def aligned_size_def
    using device_align_round_up [of "alignment t" len] cfg fits by (auto simp: config_ok_def)
  note R = round_up [OF config_alignment [OF cfg], of "unat len"]
  show d: "unat (alignment t) dvd unat a" using u R(1) by (simp add: aligned_size_def)
  show le: "len \<le> a" using u R(2) by (simp add: aligned_size_def word_le_nat_alt)
  then show nz: "a \<noteq> 0" using len by auto
  show "\<not> a < alignment t" using dvd_imp_le [OF d] nz by (auto simp: word_less_nat_alt unat_pos)
qed

lemma exact_fit:
  assumes "unat g dvd unat (n :: u64)" "unat g dvd unat a" "a \<le> n" "\<not> g \<le> n - a"
  shows "n = a"
proof -
  have "unat (n - a) = unat n - unat a" using assms(3) by (rule unat_sub_no_wrap)
  moreover have "unat g dvd unat n - unat a" using assms(1,2) by (rule dvd_diff_nat)
  moreover have "unat (n - a) < unat g" using assms(4) by (simp add: word_le_nat_alt)
  ultimately have "unat n - unat a = 0" by (metis dvd_imp_le neq0_conv not_le)
  then show ?thesis using assms(3) by (simp add: word_le_nat_alt word_unat_eq_iff)
qed

text \<open>Committing the block that the search selected, once the node for a split is available.\<close>

lemma allocate_block_ok:
  assumes ok: "tlsf_ok t phys bins unused" and i: "i \<in> set phys" "is_free (blocks t i)"
    and a: "a \<noteq> 0" "a \<le> block_length (blocks t i)" "unat (alignment t) dvd unat a"
    and node: "alignment t \<le> block_length (blocks t i) - a \<Longrightarrow> unused \<noteq> []"
  obtains al t' where "iree_hal_memory_tlsf_allocate_block i a t = (al, t')" and "allocated t i a al t'"
proof (cases "alignment t \<le> block_length (blocks t i) - a")
  case True
  obtain xs ys where phys: "phys = xs @ i # ys" using i(1) by (meson split_list)
  obtain u us where un: "unused = u # us" using node [OF True] by (cases unused) auto
  show ?thesis by (rule allocate_split_block [OF ok [unfolded phys un] i(2) a True]) (rule that)
next
  case False
  have "core_ok t phys unused []" using ok by (simp add: tlsf_ok_def)
  from core_okD(10) [OF this i(1)] have "unat (alignment t) dvd unat (block_length (blocks t i))"
    by (simp add: block_ok_def)
  from exact_fit [OF this a(3,2) False] have len: "block_length (blocks t i) = a" .
  show ?thesis by (rule allocate_whole_block [OF ok i len False]) (rule that)
qed

definition grow_then_allocate ::
    "'u iree_hal_memory_tlsf_t \<Rightarrow> nat \<Rightarrow> iree_device_size_t \<Rightarrow>
     iree_hal_memory_tlsf_allocation_t option iree_result \<times> 'u iree_hal_memory_tlsf_t" where
  "grow_then_allocate t i a =
     (let growth = iree_hal_memory_tlsf_query_growth t i a
      in case (if growth_first_block growth \<noteq> 0 then
                 (case iree_hal_memory_tlsf_prepare_growth (frontier_capacity t) growth (host_allocator t) of
                    Inl e \<Rightarrow> Inl e
                  | Inr prepared \<Rightarrow> Inr (fst (snd (iree_hal_memory_tlsf_apply_growth t prepared))))
               else Inr t) of
           Inl e \<Rightarrow> (Inl e, t)
         | Inr t1 \<Rightarrow> let (al, t2) = iree_hal_memory_tlsf_allocate_block i a t1 in (Inr (Some al), t2))"

lemma try_allocate_unfold:
  assumes cfg: "config_ok t" and len: "len \<noteq> 0" and fits: "\<not> len > NOT 0 - (alignment t - 1)"
  defines "a \<equiv> iree_device_align len (alignment t)"
  shows "iree_hal_memory_tlsf_try_allocate len t =
    (let i = iree_hal_memory_tlsf_find_suitable_block t a
     in if i = BLOCK_INDEX_NONE then (Inr None, t) else grow_then_allocate t i a)"
  using len fits aligned_length_ok(4) [OF cfg len fits, folded a_def]
  unfolding iree_hal_memory_tlsf_try_allocate_def grow_then_allocate_def
  by (simp add: Let_def a_def [symmetric])

lemma unused_head_none: "core_ok t phys unused held \<Longrightarrow> unused_node_head t = BLOCK_INDEX_NONE \<longleftrightarrow> unused = []"
  using core_okD(7) [of t phys unused held] core_okD(16) [of t phys unused held] by (cases unused) auto

lemma query_growth_eq:
  assumes core: "core_ok t phys unused []" and i: "i \<in> set phys"
  shows "iree_hal_memory_tlsf_query_growth t i a =
    (if unused = [] \<and> alignment t \<le> block_length (blocks t i) - a
     then \<lparr>growth_storage = [], growth_block_stride = block_stride t,
            growth_first_block = block_capacity t, growth_block_count = grow_count t\<rparr>
     else \<lparr>growth_storage = [], growth_block_stride = 0, growth_first_block = 0, growth_block_count = 0\<rparr>)"
  using unused_head_none [OF core] core_okD(15) [OF core i]
  by (auto simp: iree_hal_memory_tlsf_query_growth_def block_at_blocks grow_count_def not_le)

lemma grow_then_allocate_cases:
  fixes t :: "'u iree_hal_memory_tlsf_t"
  assumes inv: "tlsf_ok t phys bins unused" and i: "i \<in> set phys" "is_free (blocks t i)"
    and a: "a \<noteq> 0" "a \<le> block_length (blocks t i)" "unat (alignment t) dvd unat a"
  obtains (failed) e where "unused = []" "grow_then_allocate t i a = (Inl e, t)"
      "iree_hal_memory_tlsf_prepare_growth (frontier_capacity t) (iree_hal_memory_tlsf_query_growth t i a)
         (host_allocator t) = Inl e"
  | (success) al t' where "grow_then_allocate t i a = (Inr (Some al), t')" "allocated t i a al t'"
proof -
  have core: "core_ok t phys unused []" using inv by (simp add: tlsf_ok_def)
  note D = core_okD [OF core] and Q = query_growth_eq [OF core i(1), of a]
  define g where "g = iree_hal_memory_tlsf_query_growth t i a"
  show ?thesis
  proof (cases "unused = [] \<and> alignment t \<le> block_length (blocks t i) - a")
    case False
    then have "growth_first_block g = 0" by (auto simp: Q g_def)
    then have eq: "grow_then_allocate t i a =
        (let (al, t2) = iree_hal_memory_tlsf_allocate_block i a t in (Inr (Some al), t2))"
      by (simp add: grow_then_allocate_def g_def)
    obtain al t' where "iree_hal_memory_tlsf_allocate_block i a t = (al, t')" "allocated t i a al t'"
      using False by (auto intro: allocate_block_ok [OF inv i a])
    then show ?thesis using eq success [where al = al and t' = t'] by simp
  next
    case grow: True
    then have g: "g = \<lparr>growth_storage = [], growth_block_stride = block_stride t,
        growth_first_block = block_capacity t, growth_block_count = grow_count t\<rparr>"
      by (simp add: Q g_def)
    have first: "growth_first_block g \<noteq> 0" using segments_ok_capacity [OF D(1)] by (simp add: g)
    show ?thesis
    proof (cases "iree_hal_memory_tlsf_prepare_growth (frontier_capacity t) g (host_allocator t)")
      case (Inl e)
      then show ?thesis using failed [of e] grow first by (simp add: grow_then_allocate_def g_def [symmetric])
    next
      case (Inr prepared)
      have room: "0 < grow_count t" using Inr by (auto simp: iree_hal_memory_tlsf_prepare_growth_def g split: if_splits)
      define t1 where "t1 = publish (chain_storage (frontier_capacity t) (block_capacity t) (grow_count t)
          (unused_node_head t)) (block_capacity t + grow_count t - 1) t"
      note P = publish_ok [OF inv room, folded t1_def]
      have b1: "blocks t1 i = blocks t i" "alignment t1 = alignment t"
        using P(2) D(15) [OF i(1)] by (auto simp: t1_def publish_def)
      obtain al t' where al: "iree_hal_memory_tlsf_allocate_block i a t1 = (al, t')" "allocated t1 i a al t'"
        by (rule allocate_block_ok [OF P(1) i(1) _ a(1), unfolded b1, OF i(2) a(2,3)]) (use room in auto)
      have "grow_then_allocate t i a = (Inr (Some al), t')"
        using first Inr prepare_apply_growth [OF room g Inr, folded t1_def] al(1)
        by (simp add: grow_then_allocate_def g_def [symmetric])
      then show ?thesis
        using success allocated_publish [OF inv room i(1), folded t1_def, OF al(2)] by blast
    qed
  qed
qed

text \<open>
  Every outcome of an allocation attempt with a valid length: no suitable block, a growth failure
  with the state untouched, or an allocation.
\<close>

lemma try_allocate_cases:
  fixes t :: "'u iree_hal_memory_tlsf_t"
  assumes inv: "tlsf_ok t phys bins unused" and len: "len \<noteq> 0" and fits: "\<not> len > NOT 0 - (alignment t - 1)"
  defines "a \<equiv> iree_device_align len (alignment t)"
  defines "i \<equiv> iree_hal_memory_tlsf_find_suitable_block t a"
  obtains (exhausted) "i = BLOCK_INDEX_NONE" "iree_hal_memory_tlsf_try_allocate len t = (Inr None, t)"
  | (growth_failed) e where "i \<noteq> BLOCK_INDEX_NONE" "unused = []" "iree_hal_memory_tlsf_try_allocate len t = (Inl e, t)"
      "iree_hal_memory_tlsf_prepare_growth (frontier_capacity t) (iree_hal_memory_tlsf_query_growth t i a)
         (host_allocator t) = Inl e"
  | (success) al t' where "i \<in> set phys" "is_free (blocks t i)" "a \<le> block_length (blocks t i)"
      "iree_hal_memory_tlsf_try_allocate len t = (Inr (Some al), t')" "allocated t i a al t'"
proof (cases "i = BLOCK_INDEX_NONE")
  case True
  have "config_ok t" using inv core_okD(2) by (auto simp: tlsf_ok_def)
  from try_allocate_unfold [OF this len fits] True show ?thesis
    using exhausted by (simp add: a_def i_def)
next
  case False
  have core: "core_ok t phys unused []" and bins: "bins_ok t bins (free_set t phys)" using inv by (auto simp: tlsf_ok_def)
  note D = core_okD [OF core] and A = aligned_length_ok [OF core_okD(2) [OF core] len fits, folded a_def]
  have f: "i \<in> set phys" "is_free (blocks t i)" "a \<le> block_length (blocks t i)"
    using find_suitable_block_fits [OF D(1) bins A(2) _ False] by (auto simp: i_def free_set_def)
  have try_eq: "iree_hal_memory_tlsf_try_allocate len t = grow_then_allocate t i a"
    using try_allocate_unfold [OF D(2) len fits] False by (simp add: a_def i_def)
  show ?thesis
    by (rule grow_then_allocate_cases [OF inv f(1,2) A(2) f(3) A(3)])
      (use growth_failed success False f try_eq in auto)
qed

end
