(* ===== verification/TLSF_Initialize.thy ===== *)
theory TLSF_Initialize
  imports TLSF_Growth
begin

text \<open>
  Initialization of the TLSF allocator: a successful \<^verbatim>\<open>iree_hal_memory_tlsf_initialize\<close> yields a state
  that satisfies the invariant, with one free block that covers the aligned range.
\<close>

section \<open>The first segment\<close>

lemma highest_bit_exp: "highest_bit (2 ^ k) = k"
  by (rule highest_bit_unique) auto

lemma rounded_initial_capacity_cases:
  assumes "r \<noteq> 0" and "unat r \<le> UINT32_MAX"
  obtains (clipped) "rounded_initial_capacity r = UINT32_MAX"
  | (power) s where "s \<le> 31" and "rounded_initial_capacity r = 2 ^ s" and "unat r \<le> 2 ^ s"
proof -
  have p31: "unat (push_bit 31 1 :: u64) = 2 ^ 31" using unat_power_of_two [of 31] by (simp add: push_bit_eq_mult)
  consider (big) "r > push_bit 31 1" | (mid) "\<not> r > push_bit 31 1" "r > 1" | (one) "r = 1"
    using assms(1) by (metis linorder_neqE word_less_1)
  then show ?thesis
  proof cases
    case big
    then show ?thesis using clipped by (simp add: rounded_initial_capacity_def)
  next
    case mid
    define n where "n = unat r - 1"
    have ur: "1 < unat r" "unat r \<le> 2 ^ 31" using mid p31 by (auto simp: word_less_nat_alt)
    have "unat (ucast r :: u32) = unat r" using ur by (simp add: unsigned_ucast_eq take_bit_nat_eq_self)
    moreover from this have "(ucast r :: u32) \<noteq> 0" using ur(1) by (metis less_nat_zero_code unsigned_0)
    ultimately have un: "unat (ucast r - 1 :: u32) = n" by (simp add: unat_minus_one n_def)
    have n: "0 < n" "n < 2 ^ 31" using ur by (auto simp: n_def)
    then have "(ucast r - 1 :: u32) \<noteq> 0" using un by (metis less_nat_zero_code unsigned_0)
    moreover have hb: "highest_bit n < 31" using highest_bit_less [OF n] .
    ultimately have "32 - iree_math_count_leading_zeros_u32 (ucast r - 1) = Suc (highest_bit n)"
      by (simp add: iree_math_count_leading_zeros_u32_def un)
    then have "rounded_initial_capacity r = 2 ^ Suc (highest_bit n)"
      using mid by (simp add: rounded_initial_capacity_def)
    moreover have "unat r \<le> 2 ^ Suc (highest_bit n)" using highest_bit_bounds [OF n(1)] ur(1) unfolding n_def by linarith
    ultimately show ?thesis using power [of "Suc (highest_bit n)"] hb by simp
  next
    case one
    then show ?thesis using power [of 0] by (simp add: rounded_initial_capacity_def)
  qed
qed

definition first_shape :: "nat \<Rightarrow> bool" where
  "first_shape c \<longleftrightarrow> c = UINT32_MAX \<or> (\<exists>s\<le>31. c = 2 ^ s)"

lemma first_shape_shift:
  assumes "first_shape c"
  shows "0 < c" and "c \<le> UINT32_MAX"
    and "31 - iree_math_count_leading_zeros_u32 (of_nat c) = highest_bit c" and "highest_bit c \<le> 31"
    and "c \<noteq> UINT32_MAX \<Longrightarrow> c = 2 ^ highest_bit c" and "c = UINT32_MAX \<Longrightarrow> highest_bit c = 31"
proof -
  have pw: "(2::nat) ^ s \<le> 2 ^ 31" if "s \<le> 31" for s using that by (intro power_increasing) auto
  show pos: "0 < c" and le: "c \<le> UINT32_MAX"
    using assms pw by (force simp: first_shape_def UINT32_MAX_def)+
  show "31 - iree_math_count_leading_zeros_u32 (of_nat c) = highest_bit c" by (rule index_shift [OF pos le])
  have "highest_bit c < 32" by (rule highest_bit_less [OF pos]) (use le in \<open>simp add: UINT32_MAX_def\<close>)
  then show "highest_bit c \<le> 31" by simp
  show "c \<noteq> UINT32_MAX \<Longrightarrow> c = 2 ^ highest_bit c" using assms by (auto simp: first_shape_def highest_bit_exp)
  show "c = UINT32_MAX \<Longrightarrow> highest_bit c = 31" by (rule highest_bit_unique) (simp_all add: UINT32_MAX_def)
qed

section \<open>The unused chain\<close>

text \<open>\<open>t'\<close> is \<open>t\<close> with the nodes \<open>1 ..< c\<close> chained.\<close>

definition unused_linked :: "nat \<Rightarrow> 'u iree_hal_memory_tlsf_t \<Rightarrow> 'u iree_hal_memory_tlsf_t \<Rightarrow> bool" where
  "unused_linked c t t' \<longleftrightarrow>
     segments_ok t' \<and>
     chain (\<lambda>j. next_free (blocks t' j)) (unused_node_head t') (rev [1..<c]) BLOCK_INDEX_NONE \<and>
     (\<forall>j. blocks t' j = (blocks t j)\<lparr>next_free := next_free (blocks t' j)\<rparr>) \<and>
     t' = t\<lparr>block_segments := block_segments t', unused_node_head := unused_node_head t'\<rparr>"

lemma unused_linked_step:
  assumes l: "unused_linked c t1 t'" and b: "blocks t1 = (blocks t)(i := (blocks t i)\<lparr>next_free := h\<rparr>)"
    and v: "t1 = t\<lparr>block_segments := segs, unused_node_head := i\<rparr>"
  shows "unused_linked c t t'"
proof -
  have "blocks t' j = (blocks t j)\<lparr>next_free := next_free (blocks t' j)\<rparr>" for j
  proof -
    have "blocks t' j = (blocks t1 j)\<lparr>next_free := next_free (blocks t' j)\<rparr>" using l by (simp add: unused_linked_def)
    also have "\<dots> = (blocks t j)\<lparr>next_free := next_free (blocks t' j)\<rparr>" by (simp add: b)
    finally show ?thesis .
  qed
  moreover have "t' = t\<lparr>block_segments := block_segments t', unused_node_head := unused_node_head t'\<rparr>"
  proof -
    have "t' = t1\<lparr>block_segments := block_segments t', unused_node_head := unused_node_head t'\<rparr>"
      using l by (simp add: unused_linked_def)
    also have "\<dots> = t\<lparr>block_segments := block_segments t', unused_node_head := unused_node_head t'\<rparr>" by (simp add: v)
    finally show ?thesis .
  qed
  ultimately show ?thesis using l by (simp add: unused_linked_def)
qed

lemma link_unused_from_ok:
  assumes "segments_ok t" and "c = block_capacity t" and "1 \<le> i" and "i \<le> c"
    and "chain (\<lambda>j. next_free (blocks t j)) (unused_node_head t) (rev [1..<i]) BLOCK_INDEX_NONE"
  shows "unused_linked c t (link_unused_from i c t)"
  using assms
proof (induction i c t rule: link_unused_from.induct)
  case (1 i c t)
  show ?case
  proof (cases "i < c")
    case False
    with 1 have "i = c" by simp
    with 1 show ?thesis by (subst link_unused_from.simps) (simp add: unused_linked_def)
  next
    case True
    define t0 where "t0 = block_write i (\<lambda>b. b\<lparr>next_free := unused_node_head t\<rparr>) t"
    define t1 where "t1 = t0\<lparr>unused_node_head := i\<rparr>"
    have step: "link_unused_from i c t = link_unused_from (Suc i) c t1"
      using True by (subst link_unused_from.simps) (simp add: t1_def t0_def)
    have b1: "blocks t1 = (blocks t)(i := (blocks t i)\<lparr>next_free := unused_node_head t\<rparr>)"
      using 1 True by (simp add: t1_def t0_def blocks_write)
    have "chain (\<lambda>j. next_free (blocks t1 j)) (unused_node_head t) (rev [1..<i]) BLOCK_INDEX_NONE"
      using 1(6) by (subst chain_cong) (auto simp: b1)
    then have "chain (\<lambda>j. next_free (blocks t1 j)) (unused_node_head t1) (rev [1..<Suc i]) BLOCK_INDEX_NONE"
      using 1(4) by (simp add: b1) (simp add: t1_def)
    moreover have "segments_ok t1" "c = block_capacity t1" using 1 by (simp_all add: t1_def t0_def)
    ultimately have "unused_linked c t1 (link_unused_from (Suc i) c t1)"
      using 1(1) [OF True t0_def t1_def] True by simp
    moreover have "t1 = t\<lparr>block_segments := block_segments t1, unused_node_head := i\<rparr>"
      by (simp add: t1_def t0_def block_write_def split: prod.split)
    ultimately show ?thesis unfolding step by (rule unused_linked_step [OF _ b1])
  qed
qed

section \<open>The initial state\<close>

definition fresh ::
    "'u \<Rightarrow> u64 \<Rightarrow> u64 \<Rightarrow> nat \<Rightarrow> u64 \<Rightarrow> nat \<Rightarrow> iree_allocator_t \<Rightarrow> 'u iree_hal_memory_tlsf_t" where
  "fresh user rng align fc stride c allocator =
     \<lparr>range_length = rng, alignment = align, fl_min = iree_math_count_trailing_zeros_u64 align,
      frontier_capacity = fc, frontier_overflow = None, frontier_overflow_user_data = user,
      block_segment_count = 1, initial_block_shift = 31 - iree_math_count_leading_zeros_u32 (of_nat c),
      fl_bitmap = 0, sl_bitmaps = (\<lambda>_. 0), free_lists = (\<lambda>_ _. BLOCK_INDEX_NONE),
      block_segments = [replicate c (zero_block fc)], block_stride = stride,
      initial_block_capacity = c, block_capacity = c, unused_node_head = BLOCK_INDEX_NONE,
      bytes_allocated = 0, bytes_free = rng, allocation_count = 0, free_block_count = 0,
      tainted_coalesce_count = 0, host_allocator = allocator\<rparr>"

definition first_block :: "u64 \<Rightarrow> iree_async_frontier_t option \<Rightarrow> iree_hal_memory_tlsf_block_t \<Rightarrow> iree_hal_memory_tlsf_block_t" where
  "first_block rng init b = b\<lparr>offset := 0, block_length := rng, prev_physical := BLOCK_INDEX_NONE,
     next_physical := BLOCK_INDEX_NONE, prev_free := BLOCK_INDEX_NONE, next_free := BLOCK_INDEX_NONE,
     flags := FLAG_FREE OR FLAG_LAST,
     frontier := (case init of Some f \<Rightarrow> frontier_copy (frontier b) f
                  | None \<Rightarrow> iree_async_frontier_initialize (frontier b) 0)\<rparr>"

definition initial_frontier_ok :: "nat \<Rightarrow> iree_async_frontier_t option \<Rightarrow> bool" where
  "initial_frontier_ok fc init \<longleftrightarrow> (\<forall>f. init = Some f \<longrightarrow> frontier_ok f \<and> entry_count f \<le> fc)"

lemma block_write_twice:
  "segments_ok t \<Longrightarrow> i < block_capacity t \<Longrightarrow> block_write i g (block_write i f t) = block_write i (\<lambda>b. g (f b)) t"
proof -
  assume ok: "segments_ok t" "i < block_capacity t"
  obtain s k where loc: "block_locate (initial_block_capacity t) (initial_block_shift t) i = (s, k)" by fastforce
  from locate_in_bounds [OF ok loc] loc show ?thesis by (simp add: block_write_def)
qed

lemma fresh_ok:
  fixes user rng align fc stride c allocator
  assumes "first_shape c"
  defines "t \<equiv> fresh user rng align fc stride c allocator"
  shows "segments_ok t" and "i < c \<Longrightarrow> blocks t i = zero_block fc"
proof -
  note S = first_shape_shift [OF assms(1)]
  show "segments_ok t"
    using S by (cases "c = UINT32_MAX") (auto simp: t_def fresh_def segments_ok_def)
  show "i < c \<Longrightarrow> blocks t i = zero_block fc"
    by (simp add: t_def fresh_def blocks_def store_contents_def valid_index_def iree_hal_memory_tlsf_block_at_def block_locate_def)
qed

lemma first_block_core:
  fixes t :: "'u iree_hal_memory_tlsf_t" and rng init
  assumes c: "first_shape c" and l: "unused_linked c (fresh user rng align fc stride c allocator) t"
    and cfg: "IREE_HAL_MEMORY_TLSF_MIN_ALIGNMENT \<le> align" "iree_device_size_is_power_of_two align"
      "unat align dvd unat rng" "rng \<noteq> 0" "fc \<le> 255" and init: "initial_frontier_ok fc init"
  defines "t' \<equiv> block_write 0 (first_block rng init) t"
  shows "core_ok t' [0] (rev [1..<c]) []" and "bins_ok t' (\<lambda>_ _. []) {}" and "is_free (blocks t' 0)"
proof -
  note S = first_shape_shift [OF c]
  obtain segs h where t: "t = (fresh user rng align fc stride c allocator)\<lparr>block_segments := segs, unused_node_head := h\<rparr>"
    using l unfolding unused_linked_def by metis
  have ok: "segments_ok t" and h: "chain (\<lambda>j. next_free (blocks t j)) (unused_node_head t) (rev [1..<c]) BLOCK_INDEX_NONE"
    and b: "\<And>j. blocks t j = (blocks (fresh user rng align fc stride c allocator) j)\<lparr>next_free := next_free (blocks t j)\<rparr>"
    using l by (auto simp: unused_linked_def)
  have cap: "block_capacity t = c" by (simp add: t fresh_def)
  have fr: "frontier (blocks t j) = frontier (zero_block fc)" if "j < c" for j
    using arg_cong [OF b [of j], of frontier] fresh_ok(2) [OF c that, of user rng align fc stride allocator] by simp
  have b': "blocks t' = (blocks t)(0 := first_block rng init (blocks t 0))"
    using ok S(1) by (simp add: t'_def cap blocks_write)
  have v: "range_length t' = rng" "alignment t' = align" "frontier_capacity t' = fc" "frontier_overflow t' = None"
    "block_capacity t' = c" "unused_node_head t' = unused_node_head t" "bytes_allocated t' = 0" "bytes_free t' = rng"
    "allocation_count t' = 0" "free_block_count t' = 0" "fl_bitmap t' = 0" "sl_bitmaps t' = (\<lambda>_. 0)"
    "free_lists t' = (\<lambda>_ _. BLOCK_INDEX_NONE)" "segments_ok t'"
    using ok by (simp_all add: t'_def) (simp_all add: t fresh_def)
  let ?z = "frontier (zero_block fc)"
  have z: "length (entries ?z) = fc" by (simp add: zero_block_def)
  have f: "frontier (blocks t' 0) = (case init of Some f \<Rightarrow> frontier_copy ?z f | None \<Rightarrow> iree_async_frontier_initialize ?z 0)"
    using fr [OF S(1)] by (simp add: b' first_block_def split: option.split)
  have fok: "frontier_ok (frontier (blocks t' 0))" "length (entries (frontier (blocks t' 0))) = fc"
    using init z frontier_copy [of _ ?z] frontier_empty(1) [of ?z]
    by (auto simp: f initial_frontier_ok_def iree_async_frontier_initialize_def split: option.split)
  show free: "is_free (blocks t' 0)" by (simp add: b' first_block_def is_free_def has_flag_bit bit_or_iff flag_bits)
  have "chain (\<lambda>j. next_free (blocks t' j)) (unused_node_head t') (rev [1..<c]) BLOCK_INDEX_NONE"
    using h unfolding v by (subst chain_cong) (auto simp: b')
  moreover have "\<forall>i<c. length (entries (frontier (blocks t' i))) = fc"
    using fok(2) fr z by (auto simp: b')
  moreover have "block_ok align True (blocks t' 0)"
    using cfg fok(1) by (auto simp: block_ok_def b' first_block_def has_flag_bit bit_or_iff flag_bits)
  moreover have "set ([0] @ rev [1..<c] @ []) = {..<c}" using S(1) by auto
  moreover have "config_ok t'" using cfg by (simp add: config_ok_def v capture_ok_def)
  moreover have "segments_ok t'" by (rule v)
  ultimately show "core_ok t' [0] (rev [1..<c]) []"
    using free unfolding core_ok_def v by (simp add: b' first_block_def)
  show "bins_ok t' (\<lambda>_ _. []) {}" unfolding bins_ok_def v by simp
qed

section \<open>Initialization\<close>

lemma initialize_unfold:
  fixes t :: "'u iree_hal_memory_tlsf_t"
  assumes "iree_hal_memory_tlsf_initialize user options allocator = Inr t" and "opt_frontier_capacity options \<le> 255"
    and "\<forall>f. opt_initial_frontier options = Some f \<longrightarrow> frontier_ok f"
  obtains align rng fc stride c init t1 where "first_shape c"
    and "align = (if opt_alignment options = 0 then IREE_HAL_MEMORY_TLSF_MIN_ALIGNMENT else opt_alignment options)"
    and "IREE_HAL_MEMORY_TLSF_MIN_ALIGNMENT \<le> align" "iree_device_size_is_power_of_two align"
    and "rng = opt_range_length options AND NOT (align - 1)" "unat align dvd unat rng" "rng \<noteq> 0"
    and "fc \<le> 255" "init = opt_initial_frontier options" "initial_frontier_ok fc init"
    and "unused_linked c (fresh user rng align fc stride c allocator) t1"
    and "t = iree_hal_memory_tlsf_insert_free_block 0 (block_write 0 (first_block rng init) t1)"
    and "unat rng = unat (opt_range_length options) div unat align * unat align"
    and "c = rounded_initial_capacity (if opt_initial_block_capacity options = 0
           then IREE_HAL_MEMORY_TLSF_DEFAULT_INITIAL_BLOCK_CAPACITY else opt_initial_block_capacity options)"
proof -
  define align where "align = (if opt_alignment options = 0 then IREE_HAL_MEMORY_TLSF_MIN_ALIGNMENT else opt_alignment options)"
  define rng where "rng = opt_range_length options AND NOT (align - 1)"
  define fc where "fc = (if opt_frontier_capacity options = 0 then IREE_HAL_MEMORY_TLSF_DEFAULT_FRONTIER_CAPACITY
      else opt_frontier_capacity options)"
  define req where "req = (if opt_initial_block_capacity options = 0 then IREE_HAL_MEMORY_TLSF_DEFAULT_INITIAL_BLOCK_CAPACITY
      else opt_initial_block_capacity options)"
  define c where "c = rounded_initial_capacity req"
  define init where "init = opt_initial_frontier options"
  note unf = assms(1) [unfolded iree_hal_memory_tlsf_initialize_def Let_def, folded align_def, folded rng_def fc_def req_def, folded c_def init_def]
  have g: "IREE_HAL_MEMORY_TLSF_MIN_ALIGNMENT \<le> align" "iree_device_size_is_power_of_two align"
    "align \<le> opt_range_length options" "\<not> (case init of None \<Rightarrow> False | Some f \<Rightarrow> entry_count f > fc)"
    using unf by (auto split: if_splits)
  obtain stride offs where st: "unat req \<le> UINT32_MAX" and
    t: "t = iree_hal_memory_tlsf_insert_free_block 0
          (block_write 0 (\<lambda>b. b\<lparr>frontier := (case init of Some f \<Rightarrow> frontier_copy (frontier b) f
                   | None \<Rightarrow> iree_async_frontier_initialize (frontier b) 0)\<rparr>)
            (block_write 0 (\<lambda>b. b\<lparr>offset := 0, block_length := rng,
                  prev_physical := BLOCK_INDEX_NONE, next_physical := BLOCK_INDEX_NONE,
                  prev_free := BLOCK_INDEX_NONE, next_free := BLOCK_INDEX_NONE,
                  flags := FLAG_FREE OR FLAG_LAST\<rparr>)
              (link_unused_from 1 c (fresh user rng align fc stride c allocator))))"
    using unf by (auto simp: fresh_def not_less split: if_splits sum.splits prod.splits iree_status_code_t.splits)
  have "req \<noteq> 0" by (simp add: req_def IREE_HAL_MEMORY_TLSF_DEFAULT_INITIAL_BLOCK_CAPACITY_def)
  then have c: "first_shape c"
    using rounded_initial_capacity_cases [OF _ st] by (metis c_def first_shape_def)
  define t1 where "t1 = link_unused_from 1 c (fresh user rng align fc stride c allocator)"
  have l: "unused_linked c (fresh user rng align fc stride c allocator) t1"
    unfolding t1_def by (rule link_unused_from_ok [OF fresh_ok(1) [OF c]])
      (use first_shape_shift(1) [OF c] in \<open>simp_all add: fresh_def\<close>)
  then obtain segs h where "t1 = (fresh user rng align fc stride c allocator)\<lparr>block_segments := segs, unused_node_head := h\<rparr>"
    and ok1: "segments_ok t1" unfolding unused_linked_def by metis
  then have cap1: "0 < block_capacity t1" using first_shape_shift(1) [OF c] by (simp add: fresh_def)
  obtain k where k: "k < 64" "align = 2 ^ k" "unat align = 2 ^ k" using power_of_two_value [OF g(2)] .
  have u: "unat rng = unat (opt_range_length options) div unat align * unat align"
    using unat_clear_low [OF k(1)] k by (simp add: rng_def)
  have "0 < unat (opt_range_length options) div unat align"
    using g(3) k(3) by (simp add: word_le_nat_alt div_greater_zero_iff)
  then have "rng \<noteq> 0" using u k(3) by (metis mult_eq_0_iff neq0_conv power_not_zero unsigned_0 zero_neq_numeral)
  moreover have "initial_frontier_ok fc init"
    using g(4) assms(3) by (auto simp: initial_frontier_ok_def init_def not_less split: option.splits)
  moreover have "fc \<le> 255" using assms(2) by (simp add: fc_def IREE_HAL_MEMORY_TLSF_DEFAULT_FRONTIER_CAPACITY_def)
  moreover have "t = iree_hal_memory_tlsf_insert_free_block 0 (block_write 0 (first_block rng init) t1)"
    unfolding t t1_def [symmetric] block_write_twice [OF ok1 cap1] first_block_def
    by (rule arg_cong [where f = "iree_hal_memory_tlsf_insert_free_block 0"], rule arg_cong [where f = "\<lambda>f. block_write 0 f t1"])
      (simp add: fun_eq_iff split: option.split)
  ultimately show ?thesis using that [OF c align_def g(1,2) rng_def _ _ _ init_def _ l] u c_def req_def by simp
qed

lemma initialize_ok:
  fixes t :: "'u iree_hal_memory_tlsf_t"
  assumes "iree_hal_memory_tlsf_initialize user options allocator = Inr t" and "opt_frontier_capacity options \<le> 255"
    and "\<forall>f. opt_initial_frontier options = Some f \<longrightarrow> frontier_ok f"
  shows "\<exists>bins. tlsf_ok t [0] bins (rev [1..<block_capacity t])" and "is_free (blocks t 0)"
    and "block_capacity t = rounded_initial_capacity (if opt_initial_block_capacity options = 0
           then IREE_HAL_MEMORY_TLSF_DEFAULT_INITIAL_BLOCK_CAPACITY else opt_initial_block_capacity options)"
    and "alignment t = (if opt_alignment options = 0 then IREE_HAL_MEMORY_TLSF_MIN_ALIGNMENT else opt_alignment options)"
    and "offset (blocks t 0) = 0" "block_length (blocks t 0) = range_length t"
    and "\<forall>f. opt_initial_frontier options = Some f \<longrightarrow> live (frontier (blocks t 0)) = live f"
    and "range_length t = opt_range_length options AND NOT (alignment t - 1)"
    and "unat (range_length t) = unat (opt_range_length options) div unat (alignment t) * unat (alignment t)"
    and "allocation_count t = 0" and "bytes_free t = range_length t" and "frontier_overflow t = None"
proof -
  obtain align rng fc stride c init t1 where I: "first_shape c"
    "align = (if opt_alignment options = 0 then IREE_HAL_MEMORY_TLSF_MIN_ALIGNMENT else opt_alignment options)"
    "IREE_HAL_MEMORY_TLSF_MIN_ALIGNMENT \<le> align" "iree_device_size_is_power_of_two align"
    "rng = opt_range_length options AND NOT (align - 1)" "unat align dvd unat rng" "rng \<noteq> 0"
    "fc \<le> 255" "init = opt_initial_frontier options" "initial_frontier_ok fc init"
    "unused_linked c (fresh user rng align fc stride c allocator) t1"
    "t = iree_hal_memory_tlsf_insert_free_block 0 (block_write 0 (first_block rng init) t1)"
    "unat rng = unat (opt_range_length options) div unat align * unat align"
    "c = rounded_initial_capacity (if opt_initial_block_capacity options = 0
           then IREE_HAL_MEMORY_TLSF_DEFAULT_INITIAL_BLOCK_CAPACITY else opt_initial_block_capacity options)"
    by (rule initialize_unfold [OF assms])
  define t2 where "t2 = block_write 0 (first_block rng init) t1"
  note C = first_block_core [OF I(1,11,3,4,6,7,8,10), folded t2_def]
  obtain bins where B: "core_ok t [0] (rev [1..<c]) []" "bins_ok t bins (insert 0 {})"
    "\<And>j. relinked (blocks t2 j) (blocks t j)" "core_view t = core_view t2"
    using insert_core [OF C(1,2), of 0] I(12) by (auto simp: t2_def)
  show fr: "is_free (blocks t 0)" using B(3) [of 0] C(3) by (simp add: relinked_def is_free_def)
  have "free_set t [0] = {0}" using fr by (auto simp: free_set_def)
  then have "tlsf_ok t [0] bins (rev [1..<c])" using B by (simp add: tlsf_ok_def no_adjacent_free_def)
  moreover obtain segs h where t1: "t1 = (fresh user rng align fc stride c allocator)\<lparr>block_segments := segs, unused_node_head := h\<rparr>"
    using I(11) unfolding unused_linked_def by metis
  have v: "range_length t = rng" "alignment t = align" "allocation_count t = 0" "bytes_free t = rng"
    "frontier_overflow t = None" "block_capacity t = c"
    using B(4) by (simp_all add: core_view_def t2_def) (simp_all add: t1 fresh_def)
  ultimately show "\<exists>bins. tlsf_ok t [0] bins (rev [1..<block_capacity t])" by blast
  have "segments_ok t1" "0 < block_capacity t1"
    using I(11) first_shape_shift(1) [OF I(1)] by (auto simp: unused_linked_def t1 fresh_def)
  then have b0: "blocks t2 0 = first_block rng init (blocks t1 0)" by (simp add: t2_def blocks_write)
  show "offset (blocks t 0) = 0" "block_length (blocks t 0) = range_length t"
    using B(3) [of 0] b0 v(1) by (simp_all add: relinked_def first_block_def)
  show "\<forall>f. opt_initial_frontier options = Some f \<longrightarrow> live (frontier (blocks t 0)) = live f"
    using B(3) [of 0] b0 I(9) assms(3) frontier_copy(1) by (auto simp: relinked_def first_block_def)
  show "range_length t = opt_range_length options AND NOT (alignment t - 1)"
    "unat (range_length t) = unat (opt_range_length options) div unat (alignment t) * unat (alignment t)"
    "allocation_count t = 0" "bytes_free t = range_length t" "frontier_overflow t = None"
    "block_capacity t = rounded_initial_capacity (if opt_initial_block_capacity options = 0
           then IREE_HAL_MEMORY_TLSF_DEFAULT_INITIAL_BLOCK_CAPACITY else opt_initial_block_capacity options)"
    "alignment t = (if opt_alignment options = 0 then IREE_HAL_MEMORY_TLSF_MIN_ALIGNMENT else opt_alignment options)"
    using v I(2,5,13,14) by simp_all
qed

end
