(* ===== verification/TLSF_Queries.thy ===== *)
theory TLSF_Queries
  imports TLSF_Initialize
begin

text \<open>
  The read-only and whole-range operations of the TLSF allocator: the candidate query walks the free
  blocks bin by bin and always returns; a fully free range is recognised exactly; resetting it or
  merging a frontier into it keeps the invariant; the largest-block query is within one size class.
\<close>

section \<open>Walking one bin\<close>

definition first_fit :: "(nat \<Rightarrow> iree_hal_memory_tlsf_block_t) \<Rightarrow> iree_device_size_t \<Rightarrow> nat list \<Rightarrow> nat" where
  "first_fit g m xs = (case filter (\<lambda>i. m \<le> block_length (g i)) xs of [] \<Rightarrow> BLOCK_INDEX_NONE | i # _ \<Rightarrow> i)"

lemma first_fit_simps:
  "first_fit g m [] = BLOCK_INDEX_NONE"
  "first_fit g m (i # xs) = (if m \<le> block_length (g i) then i else first_fit g m xs)"
  by (simp_all add: first_fit_def)

lemma first_fit_none:
  "BLOCK_INDEX_NONE \<notin> set xs \<Longrightarrow>
   first_fit g m xs = BLOCK_INDEX_NONE \<longleftrightarrow> (\<forall>i\<in>set xs. \<not> m \<le> block_length (g i))"
  by (induction xs) (auto simp: first_fit_simps)

lemma first_fit_append:
  "BLOCK_INDEX_NONE \<notin> set xs \<Longrightarrow>
   first_fit g m (xs @ ys) = (if first_fit g m xs = BLOCK_INDEX_NONE then first_fit g m ys else first_fit g m xs)"
  by (induction xs) (auto simp: first_fit_simps)

lemma first_fit_some:
  "first_fit g m xs = i \<Longrightarrow> i \<noteq> BLOCK_INDEX_NONE \<Longrightarrow>
   \<exists>ys zs. xs = ys @ i # zs \<and> m \<le> block_length (g i) \<and> (\<forall>j\<in>set ys. \<not> m \<le> block_length (g j))"
proof (induction xs)
  case (Cons a xs)
  show ?case
  proof (cases "m \<le> block_length (g a)")
    case True
    with Cons.prems show ?thesis by (intro exI [of _ "[]"] exI [of _ xs]) (simp add: first_fit_simps)
  next
    case False
    with Cons obtain ys zs where "xs = ys @ i # zs" "m \<le> block_length (g i)" "\<forall>j\<in>set ys. \<not> m \<le> block_length (g j)"
      by (auto simp: first_fit_simps)
    with False show ?thesis by (intro exI [of _ "a # ys"] exI [of _ zs]) auto
  qed
qed (simp add: first_fit_simps)

lemma scan_bin_eq:
  assumes "dseg prv (\<lambda>i. next_free (blocks t i)) p h xs BLOCK_INDEX_NONE" and "length xs < n"
    and "\<And>i. i \<in> set xs \<Longrightarrow> i < block_capacity t \<and> i \<noteq> BLOCK_INDEX_NONE"
  shows "scan_bin n t m h = Some (first_fit (blocks t) m xs)"
  using assms
proof (induction xs arbitrary: p h n)
  case Nil
  then show ?case by (cases n) (auto simp: first_fit_simps)
next
  case (Cons i xs)
  then obtain k where n: "n = Suc k" by (cases n) auto
  have at: "block_at t i = blocks t i" using Cons.prems(3) [of i] block_at_blocks by auto
  show ?case
  proof (cases "m \<le> block_length (blocks t i)")
    case False
    have "scan_bin k t m (next_free (blocks t i)) = Some (first_fit (blocks t) m xs)"
      by (rule Cons.IH) (use Cons.prems n in auto)
    with False Cons.prems n at show ?thesis by (auto simp: first_fit_simps)
  qed (use Cons.prems n at in \<open>auto simp: first_fit_simps\<close>)
qed

section \<open>Advancing to the next bin\<close>

text \<open>Bins are numbered by first level, then second level.\<close>

definition bin_at :: "(nat \<Rightarrow> nat \<Rightarrow> nat list) \<Rightarrow> nat \<Rightarrow> nat list" where
  "bin_at bins n = bins (n div 32) (n mod 32)"

definition later_bins :: "(nat \<Rightarrow> nat \<Rightarrow> nat list) \<Rightarrow> nat \<Rightarrow> nat list" where
  "later_bins bins n = concat (map (bin_at bins) [Suc n..<2048])"

lemma later_bins_skip:
  assumes "n < k" and "k < 2048" and "\<And>m. n < m \<Longrightarrow> m < k \<Longrightarrow> bin_at bins m = []"
  shows "later_bins bins n = bin_at bins k @ later_bins bins k"
proof -
  have "[Suc n..<2048] = [Suc n..<k] @ k # [Suc k..<2048]"
    using upt_add_eq_append [of "Suc n" k "2048 - k"] upt_conv_Cons [OF assms(2)] assms(1,2) by simp
  moreover have "concat (map (bin_at bins) [Suc n..<k]) = []" using assms(3) by auto
  ultimately show ?thesis by (simp add: later_bins_def)
qed

lemma later_bins_none:
  assumes "\<And>m. n < m \<Longrightarrow> m < 2048 \<Longrightarrow> bin_at bins m = []"
  shows "later_bins bins n = []"
  using assms by (auto simp: later_bins_def)

lemma bin_order:
  assumes "sl < 32"
  shows "fl * 32 + sl < m \<longleftrightarrow> fl < m div 32 \<or> fl = m div 32 \<and> sl < m mod (32::nat)"
    and "m < fl * 32 + sl \<longleftrightarrow> m div 32 < fl \<or> m div 32 = fl \<and> m mod (32::nat) < sl"
proof -
  define q where "q = m div 32"
  define r where "r = m mod 32"
  have m: "m div 32 = q" "m mod 32 = r" "m = q * 32 + r" "r < 32" by (simp_all add: q_def r_def)
  show "fl * 32 + sl < m \<longleftrightarrow> fl < m div 32 \<or> fl = m div 32 \<and> sl < m mod 32"
    and "m < fl * 32 + sl \<longleftrightarrow> m div 32 < fl \<or> m div 32 = fl \<and> m mod 32 < sl"
    unfolding m(1,2) using m(3,4) assms by (cases fl q rule: linorder_cases; auto)+
qed

lemma next_bin_ok:
  assumes bins: "bins_ok t bins S" and fl: "fl < 64" and sl: "sl < 32"
  shows "case next_bin t fl sl of
      None \<Rightarrow> later_bins bins (fl * 32 + sl) = []
    | Some (fl', sl') \<Rightarrow> fl' < 64 \<and> sl' < 32 \<and> fl * 32 + sl < fl' * 32 + sl' \<and>
        later_bins bins (fl * 32 + sl) = bins fl' sl' @ later_bins bins (fl' * 32 + sl')"
proof -
  note D = bins_okD [OF bins]
  let ?sm = "sl_bitmaps t fl AND NOT (iree_shr_u32 (NOT 0) (31 - sl))"
  let ?fm = "fl_bitmap t AND NOT (iree_shr_u64 (NOT 0) (63 - fl))"
  have sbit: "bit ?sm s \<longleftrightarrow> bins fl s \<noteq> [] \<and> sl < s" if "s < 32" for s
    unfolding bit_and_iff mask_above_u32 [OF sl] using D(4) that by blast
  have fbit: "bit ?fm f \<longleftrightarrow> sl_bitmaps t f \<noteq> 0 \<and> fl < f" if "f < 64" for f
    unfolding bit_and_iff mask_above_u64 [OF fl] using D(5) that by blast
  have same: "bins fl s = []" if "?sm = 0" "sl < s" "s < 32" for s using sbit [OF that(3)] that by simp
  have empty: "bins f s = []" if "sl_bitmaps t f = 0" for f s using D(4) [of f s] that by simp
  have max: "m div 32 < 64" if "m < 2048" for m :: nat using that by simp
  consider (sl) "?sm \<noteq> 0" | (fl) "?sm = 0" "?fm \<noteq> 0" | (none) "?sm = 0" "?fm = 0" by blast
  then show ?thesis
  proof cases
    case sl: sl
    define s where "s = iree_math_count_trailing_zeros_u32 ?sm"
    note c = ctz_u32_bit [OF sl, folded s_def]
    have s32: "s < 32" using bit_imp_le_length [OF c(1)] by simp
    have hit: "sl < s" using sbit [OF s32] c(1) by blast
    have "bin_at bins m = []" if "fl * 32 + sl < m" "m < fl * 32 + s" for m
    proof -
      have "m div 32 = fl" "sl < m mod 32" "m mod 32 < s"
        using that unfolding bin_order [OF s32] bin_order [OF \<open>sl < 32\<close>] by auto
      then show ?thesis using c(2) sbit [of "m mod 32"] s32 by (auto simp: bin_at_def)
    qed
    then have "later_bins bins (fl * 32 + sl) = bin_at bins (fl * 32 + s) @ later_bins bins (fl * 32 + s)"
      using hit s32 \<open>fl < 64\<close> by (intro later_bins_skip) auto
    moreover have "next_bin t fl sl = Some (fl, s)" using sl by (simp add: next_bin_def s_def Let_def)
    ultimately show ?thesis using hit s32 \<open>fl < 64\<close> by (simp add: bin_at_def)
  next
    case fl: fl
    define f where "f = iree_math_count_trailing_zeros_u64 ?fm"
    define s where "s = iree_math_count_trailing_zeros_u32 (sl_bitmaps t f)"
    note c = ctz_u64_bit [OF fl(2), folded f_def]
    have f64: "f < 64" using bit_imp_le_length [OF c(1)] by simp
    have hit: "fl < f" "sl_bitmaps t f \<noteq> 0" using fbit [OF f64] c(1) by blast+
    note d = ctz_u32_bit [OF hit(2), folded s_def]
    have s32: "s < 32" using bit_imp_le_length [OF d(1)] by simp
    have "bin_at bins m = []" if m: "fl * 32 + sl < m" "m < f * 32 + s" for m
    proof -
      consider "m div 32 = fl" "sl < m mod 32" | "fl < m div 32" "m div 32 < f" | "m div 32 = f" "m mod 32 < s"
        using m unfolding bin_order [OF s32] bin_order [OF \<open>sl < 32\<close>] by blast
      then show ?thesis
      proof cases
        case 1
        then show ?thesis using same [OF fl(1)] by (simp add: bin_at_def)
      next
        case 2
        then show ?thesis using c(2) fbit [of "m div 32"] f64 empty by (auto simp: bin_at_def)
      next
        case 3
        then show ?thesis using d(2) D(4) by (auto simp: bin_at_def)
      qed
    qed
    then have "later_bins bins (fl * 32 + sl) = bin_at bins (f * 32 + s) @ later_bins bins (f * 32 + s)"
      using hit s32 f64 \<open>sl < 32\<close> by (intro later_bins_skip) auto
    moreover have "next_bin t fl sl = Some (f, s)" using fl by (simp add: next_bin_def f_def s_def Let_def)
    ultimately show ?thesis using hit s32 f64 \<open>sl < 32\<close> by (simp add: bin_at_def)
  next
    case none
    have "bin_at bins m = []" if "fl * 32 + sl < m" "m < 2048" for m
    proof (cases "m div 32 = fl")
      case True
      then have "sl < m mod 32" using that(1) unfolding bin_order [OF \<open>sl < 32\<close>] by auto
      then show ?thesis using same [OF none(1)] True by (simp add: bin_at_def)
    next
      case False
      have "fl < m div 32" "m div 32 < 64"
        using False that(1) max [OF that(2)] unfolding bin_order [OF \<open>sl < 32\<close>] by auto
      then show ?thesis using none(2) fbit [of "m div 32"] empty by (auto simp: bin_at_def)
    qed
    then show ?thesis using none later_bins_none by (simp add: next_bin_def)
  qed
qed

section \<open>The whole query\<close>

definition candidate_at :: "'u iree_hal_memory_tlsf_t \<Rightarrow> nat \<Rightarrow> iree_hal_memory_tlsf_candidate_t" where
  "candidate_at t i = (if i = BLOCK_INDEX_NONE then no_candidate else candidate_of t i)"

lemma scan_bins_eq:
  assumes bins: "bins_ok t bins S" and seg: "segments_ok t" and "fl < 64" and "sl < 32" and "2047 - (fl * 32 + sl) < fuel"
    and "bins fl sl = ys @ xs"
    and "dseg prv (\<lambda>i. next_free (blocks t i)) p h xs BLOCK_INDEX_NONE"
  shows "scan_bins fuel t m fl sl h = Some (candidate_at t (first_fit (blocks t) m (xs @ later_bins bins (fl * 32 + sl))))"
  using assms(3-)
proof (induction fuel arbitrary: fl sl xs ys p h prv)
  case (Suc fuel)
  note H = bins_head(3) [OF bins seg]
  have "card (set (bins fl sl)) \<le> card {..<block_capacity t}" by (rule card_mono) (use H in auto)
  then have "length (bins fl sl) \<le> block_capacity t" using bins_okD(2) [OF bins] by (simp add: distinct_card)
  then have len: "length xs < Suc (block_capacity t)" using Suc.prems(4) by simp
  have mem: "i < block_capacity t \<and> i \<noteq> BLOCK_INDEX_NONE" if "i \<in> set xs" for i
    using H [of i fl sl] that Suc.prems(4) by auto
  have nn: "BLOCK_INDEX_NONE \<notin> set xs" using mem by blast
  note scan = scan_bin_eq [OF Suc.prems(5) len mem, of m]
  note nb = next_bin_ok [OF bins Suc.prems(1,2)]
  show ?case
  proof (cases "first_fit (blocks t) m xs = BLOCK_INDEX_NONE")
    case False
    then show ?thesis
      using scan by (simp add: first_fit_append [OF nn] candidate_at_def del: scan_bin.simps)
  next
    case True
    show ?thesis
    proof (cases "next_bin t fl sl")
      case None
      with nb True scan show ?thesis
        by (simp add: first_fit_append [OF nn] first_fit_simps candidate_at_def del: scan_bin.simps)
    next
      case (Some c)
      obtain fl' sl' where c: "c = (fl', sl')" by fastforce
      have n: "fl' < 64" "sl' < 32" "fl * 32 + sl < fl' * 32 + sl'"
        "later_bins bins (fl * 32 + sl) = bins fl' sl' @ later_bins bins (fl' * 32 + sl')"
        using nb Some c by auto
      have "scan_bins fuel t m fl' sl' (free_lists t fl' sl') =
          Some (candidate_at t (first_fit (blocks t) m (bins fl' sl' @ later_bins bins (fl' * 32 + sl'))))"
        by (rule Suc.IH [OF n(1,2) _ _ bins_okD(1) [OF bins], of "[]"]) (use n Suc.prems(3) in auto)
      with n Some c True scan show ?thesis
        by (simp add: first_fit_append [OF nn] del: scan_bin.simps)
    qed
  qed
qed simp

text \<open>The free blocks in the order in which the query visits them, from the class of \<open>m\<close> on.\<close>

definition visit_order :: "(nat \<Rightarrow> nat \<Rightarrow> nat list) \<Rightarrow> nat \<times> nat \<Rightarrow> nat list" where
  "visit_order bins c = bins (fst c) (snd c) @ later_bins bins (fst c * 32 + snd c)"

lemma mapping_class_bounds:
  assumes "m \<noteq> 0" and "iree_hal_memory_tlsf_mapping_insert m = (fl, sl)"
  shows "size_class (unat m) = (fl, sl)" and "fl < 64" and "sl < 32"
proof -
  show c: "size_class (unat m) = (fl, sl)" using assms mapping_insert_eq by simp
  have pos: "0 < unat m" using assms(1) by (simp add: unat_pos)
  show "fl < 64" using c highest_bit_u64_less [OF assms(1)] by (auto simp: size_class_def Let_def)
  show "sl < 32" using proper_size_class [OF pos c] by (simp add: proper_class_def)
qed

lemma visit_order_complete:
  assumes bins: "bins_ok t bins S" and m: "m \<noteq> 0" and i: "i \<in> S" "m \<le> block_length (blocks t i)"
  shows "i \<in> set (visit_order bins (iree_hal_memory_tlsf_mapping_insert m))"
proof -
  obtain fl sl where c: "iree_hal_memory_tlsf_mapping_insert m = (fl, sl)" by fastforce
  obtain f s where d: "class_of (blocks t i) = (f, s)" by fastforce
  note M = mapping_class_bounds [OF m c]
  have nz: "block_length (blocks t i) \<noteq> 0" by (rule bins_okD(9) [OF bins i(1)])
  note C = mapping_class_bounds [OF nz d [unfolded class_of_def]]
  have mem: "i \<in> set (bins f s)" using bins_okD(3) [OF bins] i(1) d by auto
  have pos: "0 < unat m" and le: "unat m \<le> unat (block_length (blocks t i))"
    using m i(2) by (simp_all add: unat_pos word_le_nat_alt)
  have "class_le (fl, sl) (f, s)"
    using size_class_mono [OF pos le] M(1) C(1) by simp
  then have "(f, s) = (fl, sl) \<or> fl * 32 + sl < f * 32 + s" using M(3) C(3) by (auto simp: class_le_def)
  moreover have "f * 32 + s < 2048" using C(2,3) by simp
  moreover have "bin_at bins (f * 32 + s) = bins f s" using C(3) by (simp add: bin_at_def)
  ultimately have "(f, s) = (fl, sl) \<or> i \<in> set (later_bins bins (fl * 32 + sl))"
    using mem by (auto simp: later_bins_def intro!: bexI [of _ "f * 32 + s"])
  then show ?thesis using mem by (auto simp: visit_order_def c)
qed

lemma query_free_block_first:
  assumes seg: "segments_ok t" and bins: "bins_ok t bins S" and m: "m \<noteq> 0"
  shows "iree_hal_memory_tlsf_query_free_block t m BLOCK_INDEX_NONE =
    Some (candidate_at t (first_fit (blocks t) m (visit_order bins (iree_hal_memory_tlsf_mapping_insert m))))"
proof -
  obtain fl sl where c: "iree_hal_memory_tlsf_mapping_insert m = (fl, sl)" by fastforce
  note M = mapping_class_bounds [OF m c]
  have "2047 - (fl * 32 + sl) < 2049" by simp
  from scan_bins_eq [OF bins seg M(2,3) this, where ys = "[]", OF _ bins_okD(1) [OF bins]] show ?thesis
    by (simp add: iree_hal_memory_tlsf_query_free_block_def c visit_order_def)
qed

text \<open>Resuming after a free block continues right behind it.\<close>

lemma query_free_block_after:
  assumes seg: "segments_ok t" and bins: "bins_ok t bins S" and i: "i \<in> S"
  obtains ys xs where "bins (fst (class_of (blocks t i))) (snd (class_of (blocks t i))) = ys @ i # xs"
    and "iree_hal_memory_tlsf_query_free_block t m i = Some (candidate_at t (first_fit (blocks t) m
        (xs @ later_bins bins (fst (class_of (blocks t i)) * 32 + snd (class_of (blocks t i))))))"
proof -
  obtain fl sl where c: "class_of (blocks t i) = (fl, sl)" by fastforce
  have nz: "block_length (blocks t i) \<noteq> 0" by (rule bins_okD(9) [OF bins i])
  note M = mapping_class_bounds [OF nz c [unfolded class_of_def]]
  obtain ys xs where s: "bins fl sl = ys @ i # xs" using bin_split [OF seg bins i c] by metis
  have d: "dseg (\<lambda>i. prev_free (blocks t i)) (\<lambda>i. next_free (blocks t i)) i (next_free (blocks t i)) xs BLOCK_INDEX_NONE"
    using bins_okD(1) [OF bins, of fl sl] unfolding s dseg_append by auto
  have cap: "i < block_capacity t" "i \<noteq> BLOCK_INDEX_NONE" using bins_head(3) [OF bins seg, of i fl sl] s by auto
  have "2047 - (fl * 32 + sl) < 2049" by simp
  from scan_bins_eq [OF bins seg M(2,3) this _ d, of "ys @ [i]" m] s cap c that [of ys xs] show ?thesis
    by (simp add: iree_hal_memory_tlsf_query_free_block_def block_at_blocks class_of_def)
qed

section \<open>Enumerating all candidates\<close>

text \<open>The caller's loop: query, then resume after the candidate, until there is none.\<close>

fun candidates_after :: "nat \<Rightarrow> 'u iree_hal_memory_tlsf_t \<Rightarrow> iree_device_size_t \<Rightarrow> nat \<Rightarrow> nat list option" where
  "candidates_after 0 t m after = None"
| "candidates_after (Suc fuel) t m after =
     (case iree_hal_memory_tlsf_query_free_block t m after of
        None \<Rightarrow> None
      | Some c \<Rightarrow>
          if cand_block_index c = BLOCK_INDEX_NONE then Some []
          else map_option ((#) (cand_block_index c)) (candidates_after fuel t m (cand_block_index c)))"

lemma later_bins_split:
  assumes "n < k" and "k < 2048"
  shows "later_bins bins n = concat (map (bin_at bins) [Suc n..<k]) @ bin_at bins k @ later_bins bins k"
proof -
  have "[Suc n..<2048] = [Suc n..<k] @ k # [Suc k..<2048]"
    using upt_add_eq_append [of "Suc n" k "2048 - k"] upt_conv_Cons [OF assms(2)] assms(1,2) by simp
  then show ?thesis by (simp add: later_bins_def)
qed

lemma mem_later_bins: "i \<in> set (later_bins bins n) \<longleftrightarrow> (\<exists>k. n < k \<and> k < 2048 \<and> i \<in> set (bin_at bins k))"
  by (auto simp: later_bins_def Suc_le_eq)

lemma visit_order_members:
  assumes "bins_ok t bins S"
  shows "set (visit_order bins c) \<subseteq> S"
  using bins_okD(3) [OF assms] by (auto simp: visit_order_def later_bins_def bin_at_def)

lemma visit_order_at:
  assumes bins: "bins_ok t bins S" and i: "i \<in> set (visit_order bins (fl, sl))" and b: "fl < 64" "sl < 32"
    and cl: "class_of (blocks t i) = (f, s)" and s: "bins f s = ys @ i # xs"
  obtains zs where "visit_order bins (fl, sl) = zs @ i # xs @ later_bins bins (f * 32 + s)"
proof (cases "i \<in> set (bins fl sl)")
  case True
  then have "(f, s) = (fl, sl)" using bins_okD(3) [OF bins] cl by auto
  then show ?thesis using that [of ys] s by (simp add: visit_order_def)
next
  case False
  then obtain k where k: "fl * 32 + sl < k" "k < 2048" "i \<in> set (bin_at bins k)"
    using i by (auto simp: visit_order_def mem_later_bins)
  then have "(k div 32, k mod 32) = (f, s)" using bins_okD(3) [OF bins] cl by (auto simp: bin_at_def)
  then have "k = f * 32 + s" "bin_at bins k = ys @ i # xs" using s by (auto simp: bin_at_def)
  then show ?thesis
    using that later_bins_split [OF k(1,2), of bins] by (simp add: visit_order_def)
qed

lemma bin_at_unique:
  assumes "bins_ok t bins S" and "i \<in> set (bin_at bins k)" and "i \<in> set (bin_at bins l)"
  shows "k = l"
proof -
  have "k div 32 = l div 32" "k mod 32 = l mod 32"
    using assms bins_okD(3) [OF assms(1)] by (auto simp: bin_at_def)
  then show ?thesis by (metis div_mult_mod_eq)
qed

lemma later_bins_distinct:
  assumes bins: "bins_ok t bins S"
  shows "distinct (later_bins bins n)"
proof (induction "2048 - n" arbitrary: n)
  case (Suc d)
  show ?case
  proof (cases "Suc n < 2048")
    case True
    then have "later_bins bins n = bin_at bins (Suc n) @ later_bins bins (Suc n)"
      using later_bins_split [of n "Suc n"] by simp
    moreover have "distinct (later_bins bins (Suc n))" using Suc by simp
    moreover have "set (bin_at bins (Suc n)) \<inter> set (later_bins bins (Suc n)) = {}"
      using bin_at_unique [OF bins, of _ "Suc n"] by (auto simp: mem_later_bins disjoint_iff)
    ultimately show ?thesis using bins_okD(2) [OF bins] by (simp add: bin_at_def)
  qed (simp add: later_bins_def)
qed (simp add: later_bins_def)

lemma visit_order_distinct:
  assumes bins: "bins_ok t bins S" and "fl < 64" and "sl < 32"
  shows "distinct (visit_order bins (fl, sl))"
proof -
  have "bins fl sl = bin_at bins (fl * 32 + sl)" using assms(3) by (simp add: bin_at_def)
  then have "set (bins fl sl) \<inter> set (later_bins bins (fl * 32 + sl)) = {}"
    using bin_at_unique [OF bins, of _ "fl * 32 + sl"] by (auto simp: mem_later_bins disjoint_iff)
  then show ?thesis
    using bins_okD(2) [OF bins] later_bins_distinct [OF bins] by (simp add: visit_order_def)
qed

lemma split_unique:
  assumes "distinct (xs @ i # ys)" and "xs @ i # ys = us @ i # vs"
  shows "ys = vs"
proof -
  have "i \<notin> set xs" "i \<notin> set ys" using assms(1) by simp_all
  from append_Cons_eq_iff [OF this] assms(2) show ?thesis by blast
qed

lemma candidates_after_eq:
  assumes seg: "segments_ok t" and bins: "bins_ok t bins S" and b: "fl < 64" "sl < 32"
    and "visit_order bins (fl, sl) = zs @ xs" and "length xs < fuel"
    and "iree_hal_memory_tlsf_query_free_block t m after = Some (candidate_at t (first_fit (blocks t) m xs))"
  shows "candidates_after fuel t m after = Some (filter (\<lambda>i. m \<le> block_length (blocks t i)) xs)"
  using assms(5-)
proof (induction fuel arbitrary: zs xs after)
  case (Suc fuel)
  let ?i = "first_fit (blocks t) m xs"
  have mem: "set (visit_order bins (fl, sl)) \<subseteq> S" by (rule visit_order_members [OF bins])
  have nn: "BLOCK_INDEX_NONE \<notin> S" using none_not_valid [OF seg] bins_okD(7) [OF bins] by blast
  show ?case
  proof (cases "?i = BLOCK_INDEX_NONE")
    case True
    have "BLOCK_INDEX_NONE \<notin> set xs" using Suc.prems(1) mem nn by auto
    from first_fit_none [OF this] True have "filter (\<lambda>i. m \<le> block_length (blocks t i)) xs = []" by (auto simp: filter_empty_conv)
    then show ?thesis using Suc.prems(3) True by (simp add: candidate_at_def no_candidate_def)
  next
    case False
    obtain ps qs where s: "xs = ps @ ?i # qs" "m \<le> block_length (blocks t ?i)" "\<forall>j\<in>set ps. \<not> m \<le> block_length (blocks t j)"
      using first_fit_some [OF refl False] by metis
    have vi: "?i \<in> set (visit_order bins (fl, sl))"
      using arg_cong [OF Suc.prems(1), of set] arg_cong [OF s(1), of set] by auto
    then have iS: "?i \<in> S" using mem by blast
    obtain f s' where c: "class_of (blocks t ?i) = (f, s')" by fastforce
    obtain ys us where q: "bins f s' = ys @ ?i # us"
      "iree_hal_memory_tlsf_query_free_block t m ?i = Some (candidate_at t (first_fit (blocks t) m (us @ later_bins bins (f * 32 + s'))))"
      using query_free_block_after [OF seg bins iS, of m] c by auto
    obtain ws where w: "visit_order bins (fl, sl) = ws @ ?i # us @ later_bins bins (f * 32 + s')"
      by (rule visit_order_at [OF bins vi b c q(1)])
    have "visit_order bins (fl, sl) = (zs @ ps) @ ?i # qs" using Suc.prems(1) s(1) by (metis append.assoc)
    then have "qs = us @ later_bins bins (f * 32 + s')"
      using visit_order_distinct [OF bins b] w split_unique by metis
    moreover have "visit_order bins (fl, sl) = (ws @ [?i]) @ us @ later_bins bins (f * 32 + s')" using w by simp
    ultimately have "candidates_after fuel t m ?i = Some (filter (\<lambda>i. m \<le> block_length (blocks t i)) qs)"
      using Suc.IH [OF _ _ q(2)] Suc.prems(2) arg_cong [OF s(1), of length] by simp
    moreover have "filter (\<lambda>i. m \<le> block_length (blocks t i)) xs = ?i # filter (\<lambda>i. m \<le> block_length (blocks t i)) qs"
      by (subst s(1)) (use s(2,3) in \<open>simp add: filter_empty_conv\<close>)
    ultimately show ?thesis
      using Suc.prems(3) False by (simp add: candidate_at_def candidate_of_def Let_def)
  qed
qed simp

section \<open>The fully free range\<close>

lemma all_free_single:
  assumes "no_adjacent_free t phys" and "\<forall>i\<in>set phys. is_free (blocks t i)"
  shows "length phys \<le> 1"
proof (cases phys)
  case (Cons i xs)
  then show ?thesis using assms by (cases xs) (auto simp: no_adjacent_free_def)
qed simp

lemma full_free_iff:
  assumes ok: "tlsf_ok t phys bins unused"
  shows "iree_hal_memory_tlsf_query_full_free_block t \<noteq> None \<longleftrightarrow> phys = [0] \<and> is_free (blocks t 0)"
proof -
  have core: "core_ok t phys unused []" and bins: "bins_ok t bins (free_set t phys)" and adj: "no_adjacent_free t phys"
    using ok by (auto simp: tlsf_ok_def)
  note D = core_okD [OF core]
  have "card (set phys) \<le> card {..<block_capacity t}" by (rule card_mono) (use D(15) in auto)
  then have len: "length phys \<le> UINT32_MAX" using D(3) segments_ok_capacity [OF D(1)] by (simp add: distinct_card)
  have used: "allocation_count t = 0 \<longleftrightarrow> (\<forall>i\<in>set phys. is_free (blocks t i))"
  proof -
    let ?n = "length (filter (\<lambda>i. \<not> is_free (blocks t i)) phys)"
    have "?n \<le> length phys" by (rule length_filter_le)
    then have "?n < 2 ^ 32" using len unfolding UINT32_MAX_def by (rule le_less_trans [OF order_trans]) simp
    then have "(of_nat ?n :: u32) = 0 \<longleftrightarrow> ?n = 0"
      by (simp add: word_unat_eq_iff unat_of_nat)
    then show ?thesis by (simp add: D(14) filter_empty_conv)
  qed
  show ?thesis
  proof
    assume "iree_hal_memory_tlsf_query_full_free_block t \<noteq> None"
    then have all: "\<forall>i\<in>set phys. is_free (blocks t i)"
      using used by (auto simp: iree_hal_memory_tlsf_query_full_free_block_def split: if_splits)
    then have "phys = [0]" using all_free_single [OF adj all] D(5,6) by (cases phys) auto
    with all show "phys = [0] \<and> is_free (blocks t 0)" by simp
  next
    assume p: "phys = [0] \<and> is_free (blocks t 0)"
    then have "free_set t phys = {0}" by (auto simp: free_set_def)
    then have "free_block_count t = 1" using bins_okD(6) [OF bins] by simp
    moreover have "bytes_free t = range_length t" using D(9,12) p by (simp add: word_unat_eq_iff)
    ultimately show "iree_hal_memory_tlsf_query_full_free_block t \<noteq> None"
      using used p by (simp add: iree_hal_memory_tlsf_query_full_free_block_def)
  qed
qed

lemma metadata_step_ok:
  assumes ok: "tlsf_ok t phys bins unused" and i: "i \<in> set phys" and m: "metadata_step t i t'"
  shows "tlsf_ok t' phys bins unused"
proof -
  note b = metadata_step_blocks [OF m]
  have "free_set t' phys = free_set t phys" by (auto simp: free_set_def b)
  moreover have "no_adjacent_free t' phys = no_adjacent_free t phys" by (simp add: no_adjacent_free_def b)
  ultimately show ?thesis
    using ok metadata_step_core [OF _ i m] metadata_step_bins [OF _ m] by (simp add: tlsf_ok_def)
qed

lemma merge_full_free_ok:
  assumes ok: "tlsf_ok t phys bins unused" and f: "frontier_ok f"
  shows "tlsf_ok (iree_hal_memory_tlsf_merge_full_free_frontier (Some f) t) phys bins unused"
    and "frontier_overflow t = None \<Longrightarrow>
      covers (blocks (iree_hal_memory_tlsf_merge_full_free_frontier (Some f) t) 0) (live f)"
proof -
  have core: "core_ok t phys unused []" using ok by (simp add: tlsf_ok_def)
  have z: "0 \<in> set phys" using core_okD(5,6) [OF core] hd_in_set by metis
  note M = metadata_step_merge [OF core z f]
  show "tlsf_ok (iree_hal_memory_tlsf_merge_full_free_frontier (Some f) t) phys bins unused"
    using metadata_step_ok [OF ok z M(1)] by (simp add: iree_hal_memory_tlsf_merge_full_free_frontier_def)
  show "frontier_overflow t = None \<Longrightarrow>
      covers (blocks (iree_hal_memory_tlsf_merge_full_free_frontier (Some f) t) 0) (live f)"
    using M(2) by (simp add: iree_hal_memory_tlsf_merge_full_free_frontier_def)
qed

lemma tlsf_ok_taint_count: "tlsf_ok (t\<lparr>tainted_coalesce_count := n\<rparr>) phys bins unused = tlsf_ok t phys bins unused"
  by (simp add: tlsf_ok_def core_ok_def bins_ok_def no_adjacent_free_def free_set_def config_ok_def)

lemma reset_ok:
  assumes ok: "tlsf_ok t [0] bins unused" and free: "is_free (blocks t 0)"
    and f: "\<forall>f. initial = Some f \<longrightarrow> frontier_ok f \<and> entry_count f \<le> frontier_capacity t"
  defines "t' \<equiv> iree_hal_memory_tlsf_reset initial t"
  shows "tlsf_ok t' [0] bins unused"
    and "\<not> has_flag FLAG_TAINTED (flags (blocks t' 0))"
    and "live (frontier (blocks t' 0)) = (case initial of None \<Rightarrow> [] | Some f \<Rightarrow> live f)"
proof -
  have core: "core_ok t [0] unused []" using ok by (simp add: tlsf_ok_def)
  note D = core_okD [OF core]
  have cap: "0 < block_capacity t" using segments_ok_capacity [OF D(1)] by simp
  define u where "u b = b\<lparr>flags := FLAG_FREE OR FLAG_LAST, frontier := (case initial of
      Some f \<Rightarrow> frontier_copy (frontier b) f | None \<Rightarrow> iree_async_frontier_initialize (frontier b) 0)\<rparr>" for b :: iree_hal_memory_tlsf_block_t
  have t': "t' = (block_write 0 u t)\<lparr>tainted_coalesce_count := 0\<rparr>"
  proof -
    have "(\<lambda>b. (b\<lparr>flags := FLAG_FREE OR FLAG_LAST\<rparr>)\<lparr>frontier := (case initial of
         Some f \<Rightarrow> frontier_copy (frontier (b\<lparr>flags := FLAG_FREE OR FLAG_LAST\<rparr>)) f
       | None \<Rightarrow> iree_async_frontier_initialize (frontier (b\<lparr>flags := FLAG_FREE OR FLAG_LAST\<rparr>)) 0)\<rparr>) = u"
      by (simp add: u_def fun_eq_iff split: option.split)
    then show ?thesis
      by (simp add: t'_def iree_hal_memory_tlsf_reset_def Let_def block_write_twice [OF D(1) cap])
  qed
  have fr: "frontier_ok (frontier (u b)) \<and> length (entries (frontier (u b))) = frontier_capacity t \<and>
      live (frontier (u b)) = (case initial of None \<Rightarrow> [] | Some f \<Rightarrow> live f)"
    if "length (entries (frontier b)) = frontier_capacity t" for b
    using f that frontier_copy [of _ "frontier b"] frontier_empty [of "frontier b"]
    by (auto simp: u_def iree_async_frontier_initialize_def split: option.split)
  have b0: "block_ok (alignment t) True (blocks t 0)" "length (entries (frontier (blocks t 0))) = frontier_capacity t"
    using D(10) [of 0] D(11) [OF cap] by auto
  have fl: "has_flag FLAG_FREE (FLAG_FREE OR FLAG_LAST)" "has_flag FLAG_LAST (FLAG_FREE OR FLAG_LAST)"
    "\<not> has_flag FLAG_TAINTED (FLAG_FREE OR FLAG_LAST)"
    by (simp_all add: has_flag_bit bit_or_iff flag_bits)
  have uf: "flags (u b) = FLAG_FREE OR FLAG_LAST" for b by (simp add: u_def)
  have uu: "u b = b\<lparr>flags := flags (u b), frontier := frontier (u b)\<rparr>" for b by (simp add: u_def)
  have "metadata_step t 0 (block_write 0 u t)"
  proof (rule metadata_step_write [OF core])
    show "u (blocks t 0) = (blocks t 0)\<lparr>flags := flags (u (blocks t 0)), frontier := frontier (u (blocks t 0))\<rparr>"
      by (rule uu)
  qed (use fl uf b0 fr [OF b0(2)] free in \<open>auto simp: is_free_def block_ok_def\<close>)
  from metadata_step_ok [OF ok _ this] show "tlsf_ok t' [0] bins unused"
    by (simp add: t' tlsf_ok_taint_count)
  have "blocks t' 0 = u (blocks t 0)" using D(1) cap by (simp add: t' blocks_write)
  then show "\<not> has_flag FLAG_TAINTED (flags (blocks t' 0))"
    "live (frontier (blocks t' 0)) = (case initial of None \<Rightarrow> [] | Some f \<Rightarrow> live f)"
    using fl uf fr [OF b0(2)] by simp_all
qed

section \<open>The largest free block\<close>

lemma largest_free_block_bound:
  assumes seg: "segments_ok t" and bins: "bins_ok t bins S" and i: "i \<in> S"
  shows "\<exists>j\<in>S. iree_hal_memory_tlsf_largest_free_block t = block_length (blocks t j) \<and>
    class_le (class_of (blocks t i)) (class_of (blocks t j))"
proof -
  note D = bins_okD [OF bins]
  obtain f s where c: "class_of (blocks t i) = (f, s)" by fastforce
  have mem: "i \<in> set (bins f s)" using D(3) i c by auto
  then have ne: "bins f s \<noteq> []" by auto
  then have b: "bit (sl_bitmaps t f) s" "bit (fl_bitmap t) f" using D(4,5) by force+
  define fl where "fl = 63 - iree_math_count_leading_zeros_u64 (fl_bitmap t)"
  have nz: "fl_bitmap t \<noteq> 0" using b(2) by auto
  have hb: "bit (fl_bitmap t) fl" "f \<le> fl" using clz_u64_bit [OF nz, folded fl_def] b(2) by auto
  have snz: "sl_bitmaps t fl \<noteq> 0" using hb(1) D(5) by blast
  define sl where "sl = 31 - iree_math_count_leading_zeros_u32 (sl_bitmaps t fl)"
  have sb: "bit (sl_bitmaps t fl) sl" "f = fl \<Longrightarrow> s \<le> sl" using clz_u32_bit [OF snz, folded sl_def] b(1) by auto
  have ne': "bins fl sl \<noteq> []" using sb(1) D(4) by blast
  define j where "j = free_lists t fl sl"
  have j: "j \<in> set (bins fl sl)" using bins_head(1) [OF bins seg, of fl sl] ne' by (simp add: j_def hd_append)
  then have jS: "j \<in> S" "class_of (blocks t j) = (fl, sl)" using D(3) by auto
  have "j < block_capacity t" using D(7) jS(1) by auto
  then have "iree_hal_memory_tlsf_largest_free_block t = block_length (blocks t j)"
    using nz by (simp add: iree_hal_memory_tlsf_largest_free_block_def Let_def fl_def [symmetric] sl_def [symmetric]
        j_def [symmetric] block_at_blocks)
  moreover have "class_le (f, s) (fl, sl)" using hb(2) sb(2) by (auto simp: class_le_def)
  ultimately show ?thesis using jS c by auto
qed

end
