(* ===== verification/TLSF_Properties.thy ===== *)
theory TLSF_Properties
  imports TLSF_Queries
begin

text \<open>
  The properties of the TLSF allocator, stated over \<^verbatim>\<open>tlsf.c\<close>'s entry points and the invariant
  \<open>tlsf_inv\<close>: initialization, allocation, release, the causal history the reuse metadata keeps, and
  every state reachable through the public operations.
\<close>

section \<open>A concrete instance\<close>

text \<open>A 4 KiB range with 64-byte granules, two initial nodes, room for two frontier entries; the range comes with a pending frontier.\<close>

definition demo_options :: iree_hal_memory_tlsf_options_t where
  "demo_options = \<lparr>opt_range_length = 4096, opt_alignment = 64, opt_initial_block_capacity = 2,
     opt_frontier_capacity = 2, opt_initial_frontier = Some frontier_f2\<rparr>"

definition demo_allocator :: iree_allocator_t where
  "demo_allocator = \<lparr>ctl = Some (\<lambda>_ _. IREE_STATUS_OK)\<rparr>"

definition demo_state :: "unit iree_hal_memory_tlsf_t" where
  "demo_state = projr (iree_hal_memory_tlsf_initialize () demo_options demo_allocator)"

lemma demo_layout:
  "iree_struct_layout_calculate 40
     [\<lparr>count0 = 1, count1 = 1, element_size = 8, field_alignment = 8\<rparr>,
      \<lparr>count0 = 2, count1 = 1, element_size = 16, field_alignment = 0\<rparr>] = Inr (80, [40, 48])"
  by (simp add: iree_checked_align_u64_def iree_checked_add_u64_def iree_checked_mul_u64_def)

lemma demo_capacity: "rounded_initial_capacity 2 = 2"
  by (simp add: rounded_initial_capacity_def iree_math_count_leading_zeros_u32_def highest_bit.simps)

lemma demo_init: "iree_hal_memory_tlsf_initialize () demo_options demo_allocator = Inr demo_state"
proof -
  have "\<exists>t. iree_hal_memory_tlsf_initialize () demo_options demo_allocator = Inr t"
    by (simp add: iree_hal_memory_tlsf_initialize_def Let_def demo_options_def demo_allocator_def frontier_f2_def
        iree_device_size_is_power_of_two_def IREE_HAL_MEMORY_TLSF_MIN_ALIGNMENT_def UINT32_MAX_def
        demo_capacity demo_layout iree_allocator_malloc_array_def iree_allocator_malloc_def
        iree_allocator_issue_alloc_def iree_checked_mul_u64_def del: iree_struct_layout_calculate.simps)
  then show ?thesis by (auto simp: demo_state_def)
qed

lemma demo_options_ok:
  "opt_frontier_capacity demo_options \<le> 255" "\<forall>f. opt_initial_frontier demo_options = Some f \<longrightarrow> frontier_ok f"
  using frontier_f_ok(2) by (simp_all add: demo_options_def)

lemmas demo_ok = initialize_ok [OF demo_init demo_options_ok]

lemma demo_fields:
  "alignment demo_state = 64" "range_length demo_state = 4096" "block_capacity demo_state = 2"
  "frontier_overflow demo_state = None"
  using demo_ok by (simp_all add: demo_options_def demo_capacity)

lemma demo_inv: "tlsf_inv demo_state"
  unfolding tlsf_inv_def using demo_ok(1) by blast

section \<open>Initialization\<close>

lemma phys_core: "tlsf_ok t phys bins unused \<Longrightarrow> physical_blocks t = phys"
  using physical_blocks_eq by (auto simp: tlsf_ok_def)

text \<open>
  C6. Initialization establishes the allocator invariant: the range is rounded down to the alignment and
  is covered by one free block at node 0, nothing is allocated and all bytes are free.
\<close>

theorem initialize_establishes_invariant:
  assumes "iree_hal_memory_tlsf_initialize user options allocator = Inr t"
    and "opt_frontier_capacity options \<le> 255"
    and "\<forall>f. opt_initial_frontier options = Some f \<longrightarrow> frontier_ok f"
  shows "tlsf_inv t \<and> physical_blocks t = [0] \<and> is_free (blocks t 0) \<and>
    offset (blocks t 0) = 0 \<and> block_length (blocks t 0) = range_length t \<and>
    unat (range_length t) = unat (opt_range_length options) div unat (alignment t) * unat (alignment t) \<and>
    bytes_free t = range_length t \<and> allocation_count t = 0"
proof -
  note I = initialize_ok [OF assms]
  obtain bins where ok: "tlsf_ok t [0] bins (rev [1..<block_capacity t])" using I(1) by blast
  then have "tlsf_inv t" unfolding tlsf_inv_def by blast
  then show ?thesis using I phys_core [OF ok] by simp
qed

theorem initialize_establishes_invariant_witness:
  "tlsf_inv demo_state \<and> physical_blocks demo_state = [0] \<and> bytes_free demo_state = range_length demo_state"
  using initialize_establishes_invariant [OF demo_init demo_options_ok] by simp

section \<open>Allocation\<close>

text \<open>
  C3. An allocation attempt with a representable non-zero length either leaves the state untouched
  (no suitable block, or metadata growth failed) or hands out exactly the requested length rounded up to
  the alignment, from a block that is now live at the reported offset and handle; the invariant holds
  afterwards and every earlier allocation keeps its handle, offset and length.
\<close>

theorem try_allocate_correct:
  assumes "tlsf_inv t" and "len \<noteq> 0" and "len \<le> NOT 0 - (alignment t - 1)"
  shows "\<exists>r t'. iree_hal_memory_tlsf_try_allocate len t = (r, t') \<and> tlsf_inv t' \<and>
    (case r of
       Inr (Some al) \<Rightarrow>
         unat (alloc_length al) = aligned_size len (alignment t) \<and>
         alloc_block_index al \<in> set (physical_blocks t') \<and> \<not> is_free (blocks t' (alloc_block_index al)) \<and>
         offset (blocks t' (alloc_block_index al)) = alloc_offset al \<and>
         block_length (blocks t' (alloc_block_index al)) = alloc_length al \<and> live_kept t t'
     | _ \<Rightarrow> t' = t)"
proof -
  obtain phys bins unused where ok: "tlsf_ok t phys bins unused" using assms(1) by (auto simp: tlsf_inv_def)
  have fits: "\<not> len > NOT 0 - (alignment t - 1)" using assms(3) by simp
  have cfg: "config_ok t" using ok core_okD(2) by (auto simp: tlsf_ok_def)
  show ?thesis
    by (rule try_allocate_cases [OF ok assms(2) fits])
      (use assms(1) aligned_length_ok(1) [OF cfg assms(2) fits] in \<open>auto simp: allocated_def\<close>)
qed

lemma try_allocate_success:
  fixes t :: "'u iree_hal_memory_tlsf_t"
  assumes ok: "tlsf_ok t phys bins unused" and res: "iree_hal_memory_tlsf_try_allocate len t = (Inr (Some al), t')"
  defines "i \<equiv> alloc_block_index al"
  shows "i \<in> set phys" "is_free (blocks t i)" "alloc_length al \<le> block_length (blocks t i)"
    "allocated t i (alloc_length al) al t'" "len \<noteq> 0" "\<not> len > NOT 0 - (alignment t - 1)"
proof -
  show nz: "len \<noteq> 0" using res by (auto simp: iree_hal_memory_tlsf_try_allocate_def)
  show fits: "\<not> len > NOT 0 - (alignment t - 1)"
    using res nz unfolding iree_hal_memory_tlsf_try_allocate_def
    by (cases "NOT 0 - (alignment t - 1) < len") (simp_all only: if_True if_False, simp_all)
  have "i \<in> set phys \<and> is_free (blocks t i) \<and> alloc_length al \<le> block_length (blocks t i) \<and>
      allocated t i (alloc_length al) al t'"
    by (rule try_allocate_cases [OF ok nz fits]) (use res in \<open>auto simp: i_def allocated_def\<close>)
  then show "i \<in> set phys" "is_free (blocks t i)" "alloc_length al \<le> block_length (blocks t i)"
    "allocated t i (alloc_length al) al t'" by auto
qed

text \<open>What a failed search says about the free blocks.\<close>

lemma search_gap:
  assumes ok: "tlsf_ok t phys bins unused" and len: "len \<noteq> 0" and fits: "len \<le> NOT 0 - (alignment t - 1)"
    and none: "iree_hal_memory_tlsf_find_suitable_block t (iree_device_align len (alignment t)) = BLOCK_INDEX_NONE"
    and j: "j \<in> set phys" "is_free (blocks t j)"
  shows "unat (block_length (blocks t j)) \<le> aligned_size len (alignment t) + aligned_size len (alignment t) div 32"
proof -
  have fits': "\<not> len > NOT 0 - (alignment t - 1)" using fits by simp
  have core: "core_ok t phys unused []" and bins: "bins_ok t bins (free_set t phys)" using ok by (auto simp: tlsf_ok_def)
  note A = aligned_length_ok [OF core_okD(2) [OF core] len fits']
  let ?a = "iree_device_align len (alignment t)"
  have pos: "0 < unat ?a" using A(2) by (simp add: unat_pos)
  have "(2::nat) ^ (highest_bit (unat ?a) - 5) \<le> unat ?a div 32 + 1"
  proof (cases "5 \<le> highest_bit (unat ?a)")
    case True
    then have "(2::nat) ^ (highest_bit (unat ?a) - 5) * 2 ^ 5 = 2 ^ highest_bit (unat ?a)"
      by (simp only: power_add [symmetric]) simp
    then have "(2::nat) ^ (highest_bit (unat ?a) - 5) * 32 \<le> unat ?a" using highest_bit_bounds [OF pos] by simp
    then show ?thesis by (simp add: less_eq_div_iff_mult_less_eq trans_le_add1)
  qed simp
  moreover have "j \<in> free_set t phys" using j by (simp add: free_set_def)
  ultimately show ?thesis
    using find_suitable_block_none [OF core_okD(1) [OF core] bins A(2) none] A(1) by fastforce
qed

lemma try_allocate_progress:
  assumes ok: "tlsf_ok t phys bins unused" and len: "len \<noteq> 0" and fits: "len \<le> NOT 0 - (alignment t - 1)"
    and j: "j \<in> set phys" "is_free (blocks t j)" and node: "unused \<noteq> []"
    and room: "aligned_size len (alignment t) + aligned_size len (alignment t) div 32 < unat (block_length (blocks t j))"
  obtains al t' where "iree_hal_memory_tlsf_try_allocate len t = (Inr (Some al), t')"
proof -
  have some: "iree_hal_memory_tlsf_find_suitable_block t (iree_device_align len (alignment t)) \<noteq> BLOCK_INDEX_NONE"
    using search_gap [OF ok len fits _ j] room by (meson not_le)
  have fits': "\<not> len > NOT 0 - (alignment t - 1)" using fits by simp
  show ?thesis
    by (rule try_allocate_cases [OF ok len fits']) (use some node that in auto)
qed

text \<open>The concrete instance serves a request for 100 bytes.\<close>

definition demo_allocation :: iree_hal_memory_tlsf_allocation_t where
  "demo_allocation = (case iree_hal_memory_tlsf_try_allocate 100 demo_state of (r, _) \<Rightarrow> the (projr r))"

definition demo_state1 :: "unit iree_hal_memory_tlsf_t" where
  "demo_state1 = snd (iree_hal_memory_tlsf_try_allocate 100 demo_state)"

lemma demo_aligned: "aligned_size 100 64 = 128"
  by (simp add: aligned_size_def round_up_def)

lemma demo_allocates: "iree_hal_memory_tlsf_try_allocate 100 demo_state = (Inr (Some demo_allocation), demo_state1)"
proof -
  obtain bins where ok: "tlsf_ok demo_state [0] bins (rev [1..<2])" using demo_ok(1) demo_fields by auto
  obtain al t' where "iree_hal_memory_tlsf_try_allocate 100 demo_state = (Inr (Some al), t')"
  proof (rule try_allocate_progress [OF ok, of 100 0])
    show "is_free (blocks demo_state 0)" by (rule demo_ok(2))
  qed (use demo_ok(6) in \<open>simp_all add: demo_fields demo_aligned\<close>)
  then show ?thesis by (simp add: demo_allocation_def demo_state1_def)
qed

theorem try_allocate_correct_witness:
  "unat (alloc_length demo_allocation) = 128 \<and> tlsf_inv demo_state1"
  using try_allocate_correct [OF demo_inv, of 100] by (simp add: demo_fields demo_allocates demo_aligned)



text \<open>
  C5. The bytes an allocation hands out lie inside the managed range, were all free before, and
  overlap no block that was live before.
\<close>

theorem allocation_disjoint:
  assumes "tlsf_inv t" and "iree_hal_memory_tlsf_try_allocate len t = (Inr (Some al), t')"
  shows "unat (alloc_offset al) + unat (alloc_length al) \<le> unat (range_length t) \<and>
    (\<forall>j\<in>set (physical_blocks t). \<not> is_free (blocks t j) \<longrightarrow>
       unat (offset (blocks t j)) + unat (block_length (blocks t j)) \<le> unat (alloc_offset al) \<or>
       unat (alloc_offset al) + unat (alloc_length al) \<le> unat (offset (blocks t j)))"
proof -
  obtain phys bins unused where ok: "tlsf_ok t phys bins unused" using assms(1) by (auto simp: tlsf_inv_def)
  note S = try_allocate_success [OF ok assms(2)]
  have core: "core_ok t phys unused []" using ok by (simp add: tlsf_ok_def)
  let ?i = "alloc_block_index al"
  have off: "alloc_offset al = offset (blocks t ?i)" using S(4) by (simp add: allocated_def)
  have le: "unat (alloc_length al) \<le> unat (block_length (blocks t ?i))" using S(3) by (simp add: word_le_nat_alt)
  note T = core_okD(9) [OF core]
  have "unat (offset (blocks t j)) + unat (block_length (blocks t j)) \<le> unat (offset (blocks t ?i)) \<or>
      unat (offset (blocks t ?i)) + unat (block_length (blocks t ?i)) \<le> unat (offset (blocks t j))"
    if "j \<in> set phys" "\<not> is_free (blocks t j)" for j
    using tiles_disjoint [OF T that(1) S(1)] that(2) S(2) by blast
  then show ?thesis
    using tiles_bounds(2) [OF T S(1)] le off phys_core [OF ok] by fastforce
qed

theorem allocation_disjoint_witness:
  "unat (alloc_offset demo_allocation) + unat (alloc_length demo_allocation) \<le> 4096"
  using allocation_disjoint [OF demo_inv demo_allocates] by (simp add: demo_fields)

text \<open>
  C2. Reuse is causally safe: whatever clock the metadata covered for a byte before an allocation, the
  allocation that contains the byte reports it, either in its death frontier or by its TAINTED flag, and
  the metadata of all other bytes keeps what it covered.
\<close>

theorem allocation_reports_history:
  assumes "tlsf_inv t" and "iree_hal_memory_tlsf_try_allocate len t = (Inr (Some al), t')" and "history_at t x c"
  shows "(unat (alloc_offset al) \<le> x \<and> x < unat (alloc_offset al) + unat (alloc_length al) \<longrightarrow>
      has_flag FLAG_TAINTED (alloc_block_flags al) \<or>
      clock_le c (case alloc_death_frontier al of None \<Rightarrow> [] | Some f \<Rightarrow> live f)) \<and> history_at t' x c"
proof -
  obtain phys bins unused where ok: "tlsf_ok t phys bins unused" using assms(1) by (auto simp: tlsf_inv_def)
  note S = try_allocate_success [OF ok assms(2)]
  have core: "core_ok t phys unused []" using ok by (simp add: tlsf_ok_def)
  let ?i = "alloc_block_index al"
  note A = S(4) [unfolded allocated_def]
  obtain j where j: "j \<in> set phys" "in_block (blocks t j) x" "covers (blocks t j) c"
    using assms(3) history_at_core [OF core] by blast
  {
    assume x: "unat (alloc_offset al) \<le> x" "x < unat (alloc_offset al) + unat (alloc_length al)"
    have "in_block (blocks t ?i) x" using x A S(3) by (auto simp: in_block_def word_le_nat_alt)
    then have "j = ?i"
      using tiles_disjoint [OF core_okD(9) [OF core] j(1) S(1)] j(2) by (auto simp: in_block_def)
    moreover have "live (frontier (blocks t ?i)) = (case alloc_death_frontier al of None \<Rightarrow> [] | Some f \<Rightarrow> live f)"
      using A by (simp add: optional_frontier_def live_def)
    ultimately have "has_flag FLAG_TAINTED (alloc_block_flags al) \<or>
        clock_le c (case alloc_death_frontier al of None \<Rightarrow> [] | Some f \<Rightarrow> live f)"
      using A j(3) by (simp add: covers_def)
  }
  then show ?thesis using A assms(3) by blast
qed

lemma demo_history: "history_at demo_state 0 (live frontier_f2)"
proof -
  obtain bins where ok: "tlsf_ok demo_state [0] bins (rev [1..<block_capacity demo_state])" using demo_ok(1) by blast
  then have core: "core_ok demo_state [0] (rev [1..<block_capacity demo_state]) []" by (simp add: tlsf_ok_def)
  have "live (frontier (blocks demo_state 0)) = live frontier_f2" using demo_ok(7) by (simp add: demo_options_def)
  then show ?thesis
    unfolding history_at_core [OF core] using demo_ok(5,6) by (simp add: in_block_def covers_def clock_le_def demo_fields)
qed

theorem allocation_reports_history_witness: "history_at demo_state1 0 (live frontier_f2)"
  using allocation_reports_history [OF demo_inv demo_allocates demo_history] by simp




section \<open>Release\<close>

text \<open>
  C4. Releasing a live block keeps the invariant, whatever its neighbours are and whether or not its
  metadata is preserved, and every other live allocation keeps its handle, offset and length.
\<close>

theorem release_invariant:
  assumes "tlsf_inv t" and "i \<in> set (physical_blocks t)" and "\<not> is_free (blocks t i)"
    and "\<forall>d. death = Some d \<longrightarrow> frontier_ok d"
  shows "tlsf_inv (iree_hal_memory_tlsf_free i death t) \<and> tlsf_inv (iree_hal_memory_tlsf_restore i t) \<and>
    (\<forall>j\<in>set (physical_blocks t). j \<noteq> i \<and> \<not> is_free (blocks t j) \<longrightarrow>
       j \<in> set (physical_blocks (iree_hal_memory_tlsf_free i death t)) \<and>
       same_geometry_at (blocks t j) (blocks (iree_hal_memory_tlsf_free i death t) j) \<and>
       j \<in> set (physical_blocks (iree_hal_memory_tlsf_restore i t)) \<and>
       same_geometry_at (blocks t j) (blocks (iree_hal_memory_tlsf_restore i t) j))"
proof -
  obtain phys bins unused where ok: "tlsf_ok t phys bins unused" using assms(1) by (auto simp: tlsf_inv_def)
  have i: "i \<in> set phys" using assms(2) phys_core [OF ok] by simp
  note F = free_impl_ok [OF ok i assms(3,4), where keep = False, folded iree_hal_memory_tlsf_free_def]
    and R = free_impl_ok [OF ok i assms(3), where keep = True and death = None, folded iree_hal_memory_tlsf_restore_def, simplified]
  show ?thesis using F(1,4) R(1,4) phys_core [OF ok] by blast
qed

lemma demo_live:
  "tlsf_inv demo_state1" "alloc_block_index demo_allocation \<in> set (physical_blocks demo_state1)"
  "\<not> is_free (blocks demo_state1 (alloc_block_index demo_allocation))" "frontier_overflow demo_state1 = None"
proof -
  obtain bins where ok: "tlsf_ok demo_state [0] bins (rev [1..<block_capacity demo_state])" using demo_ok(1) by blast
  note A = try_allocate_success(4) [OF ok demo_allocates, unfolded allocated_def]
  then show "tlsf_inv demo_state1" "alloc_block_index demo_allocation \<in> set (physical_blocks demo_state1)"
    "\<not> is_free (blocks demo_state1 (alloc_block_index demo_allocation))" "frontier_overflow demo_state1 = None"
    by (simp_all add: demo_fields)
qed

lemma demo_bytes: "in_block (blocks demo_state1 (alloc_block_index demo_allocation)) 5"
proof -
  obtain bins where ok: "tlsf_ok demo_state [0] bins (rev [1..<block_capacity demo_state])" using demo_ok(1) by blast
  note S = try_allocate_success [OF ok demo_allocates]
  have "unat (alloc_length demo_allocation) = aligned_size 100 (alignment demo_state)"
    using try_allocate_cases [OF ok S(5,6)] aligned_length_ok(1) [OF core_okD(2) S(5,6)] ok demo_allocates
    by (fastforce simp: tlsf_ok_def allocated_def)
  then show ?thesis
    using S(1,4) demo_ok(5) by (simp add: in_block_def allocated_def demo_fields demo_aligned)
qed

theorem release_invariant_witness:
  "tlsf_inv (iree_hal_memory_tlsf_free (alloc_block_index demo_allocation) (Some frontier_f1) demo_state1)"
  using release_invariant [OF demo_live(1-3), of "Some frontier_f1"] frontier_f_ok(1) by simp

text \<open>
  C1. Release loses no causal history: the bytes of the freed block are covered by its death frontier
  (or tainted), every other byte keeps what it was covered by across coalescing, and a restore keeps the
  history of all bytes, the restored ones included. Stated for an allocator without a capture callback.
\<close>

theorem release_keeps_history:
  assumes "tlsf_inv t" and "i \<in> set (physical_blocks t)" and "\<not> is_free (blocks t i)"
    and "frontier_ok d" and "frontier_overflow t = None"
  shows "(\<forall>x. in_block (blocks t i) x \<longrightarrow> history_at (iree_hal_memory_tlsf_free i (Some d) t) x (live d)) \<and>
    (\<forall>x c. history_at t x c \<and> \<not> in_block (blocks t i) x \<longrightarrow>
       history_at (iree_hal_memory_tlsf_free i (Some d) t) x c) \<and>
    (\<forall>x c. history_at t x c \<longrightarrow> history_at (iree_hal_memory_tlsf_restore i t) x c)"
proof -
  obtain phys bins unused where ok: "tlsf_ok t phys bins unused" using assms(1) by (auto simp: tlsf_inv_def)
  have i: "i \<in> set phys" using assms(2) phys_core [OF ok] by simp
  have d: "\<forall>e. Some d = Some e \<longrightarrow> frontier_ok e" using assms(4) by simp
  note F = free_impl_ok [OF ok i assms(3) d, where keep = False, folded iree_hal_memory_tlsf_free_def]
    and R = free_impl_ok [OF ok i assms(3), where keep = True and death = None, folded iree_hal_memory_tlsf_restore_def, simplified]
  show ?thesis using F(2,3) R(2) assms(5) by blast
qed

theorem release_keeps_history_witness:
  "history_at (iree_hal_memory_tlsf_free (alloc_block_index demo_allocation) (Some frontier_f1) demo_state1) 5 (live frontier_f1)"
  using release_keeps_history [OF demo_live(1-3) frontier_f_ok(1) demo_live(4)] demo_bytes by blast

section \<open>The range\<close>



section \<open>Queries\<close>

text \<open>
  C23. The candidate query always returns, within the fuel of the model, and the caller's loop that
  resumes after each candidate visits every free block of at least the minimum length exactly once.
\<close>

theorem candidates_complete:
  assumes "tlsf_inv t" and "m \<noteq> 0" and "block_capacity t < fuel"
  shows "\<exists>found. candidates_after fuel t m BLOCK_INDEX_NONE = Some found \<and> distinct found \<and>
    set found = {i \<in> set (physical_blocks t). is_free (blocks t i) \<and> m \<le> block_length (blocks t i)}"
proof -
  obtain phys bins unused where ok: "tlsf_ok t phys bins unused" using assms(1) by (auto simp: tlsf_inv_def)
  then have core: "core_ok t phys unused []" and bins: "bins_ok t bins (free_set t phys)" by (auto simp: tlsf_ok_def)
  note seg = core_okD(1) [OF core]
  obtain fl sl where c: "iree_hal_memory_tlsf_mapping_insert m = (fl, sl)" by fastforce
  note M = mapping_class_bounds [OF assms(2) c]
  let ?v = "visit_order bins (fl, sl)"
  have d: "distinct ?v" and sub: "set ?v \<subseteq> free_set t phys"
    using visit_order_distinct [OF bins M(2,3)] visit_order_members [OF bins] by auto
  have "card (set ?v) \<le> card {..<block_capacity t}"
    by (rule card_mono) (use sub bins_okD(7) [OF bins] in auto)
  then have len: "length ?v < fuel" using d assms(3) by (simp add: distinct_card)
  have "candidates_after fuel t m BLOCK_INDEX_NONE = Some (filter (\<lambda>i. m \<le> block_length (blocks t i)) ?v)"
    by (rule candidates_after_eq [OF seg bins M(2,3) _ len, of "[]"])
      (use query_free_block_first [OF seg bins assms(2)] c in simp_all)
  moreover have "set (filter (\<lambda>i. m \<le> block_length (blocks t i)) ?v) =
      {i \<in> set phys. is_free (blocks t i) \<and> m \<le> block_length (blocks t i)}"
    using sub visit_order_complete [OF bins assms(2)] c by (auto simp: free_set_def)
  ultimately show ?thesis using d phys_core [OF ok] by simp
qed

theorem candidates_complete_witness:
  "\<exists>found. candidates_after 3 demo_state 100 BLOCK_INDEX_NONE = Some found \<and> set found = {0}"
proof -
  have "physical_blocks demo_state = [0]" using demo_ok(1) phys_core by blast
  then have "{i \<in> set (physical_blocks demo_state). is_free (blocks demo_state i) \<and>
      100 \<le> block_length (blocks demo_state i)} = {0}"
    using demo_ok(2,6) demo_fields by auto
  moreover obtain found where "candidates_after 3 demo_state 100 BLOCK_INDEX_NONE = Some found \<and> distinct found \<and>
      set found = {i \<in> set (physical_blocks demo_state). is_free (blocks demo_state i) \<and>
        100 \<le> block_length (blocks demo_state i)}"
    using candidates_complete [OF demo_inv, of 100 3] by (auto simp: demo_fields)
  ultimately show ?thesis by auto
qed

text \<open>
  C27. The largest-free-block query returns the length of a free block, and no free block is larger by
  more than one size-class step, i.e. one thirty-second of the result; with no free block it returns 0.
\<close>

theorem largest_free_block_close:
  assumes "tlsf_inv t"
  shows "(\<forall>i\<in>set (physical_blocks t). is_free (blocks t i) \<longrightarrow>
      unat (block_length (blocks t i)) \<le> unat (iree_hal_memory_tlsf_largest_free_block t) +
        unat (iree_hal_memory_tlsf_largest_free_block t) div 32) \<and>
    ((\<exists>i\<in>set (physical_blocks t). is_free (blocks t i)) \<longrightarrow>
      (\<exists>i\<in>set (physical_blocks t). is_free (blocks t i) \<and>
        block_length (blocks t i) = iree_hal_memory_tlsf_largest_free_block t)) \<and>
    ((\<forall>i\<in>set (physical_blocks t). \<not> is_free (blocks t i)) \<longrightarrow> iree_hal_memory_tlsf_largest_free_block t = 0)"
proof -
  obtain phys bins unused where ok: "tlsf_ok t phys bins unused" using assms(1) by (auto simp: tlsf_inv_def)
  then have core: "core_ok t phys unused []" and bins: "bins_ok t bins (free_set t phys)" by (auto simp: tlsf_ok_def)
  note L = largest_free_block_bound [OF core_okD(1) [OF core] bins]
  let ?l = "iree_hal_memory_tlsf_largest_free_block t"
  have "unat (block_length (blocks t i)) \<le> unat ?l + unat ?l div 32 \<and>
      (\<exists>j\<in>set phys. is_free (blocks t j) \<and> block_length (blocks t j) = ?l)"
    if i: "i \<in> set phys" "is_free (blocks t i)" for i
  proof -
    have iS: "i \<in> free_set t phys" using i by (simp add: free_set_def)
    obtain j where j: "j \<in> free_set t phys" "?l = block_length (blocks t j)"
      "class_le (class_of (blocks t i)) (class_of (blocks t j))" using L [OF iS] by blast
    have "unat (block_length (blocks t i)) \<le> unat (block_length (blocks t j)) + unat (block_length (blocks t j)) div 32"
      using class_le_size [OF _ _ j(3) [unfolded class_of_def]] bins_okD(9) [OF bins] iS j(1) by blast
    then show ?thesis using j(1,2) by (auto simp: free_set_def)
  qed
  moreover have "?l = 0" if "\<forall>i\<in>set phys. \<not> is_free (blocks t i)"
  proof -
    have "free_set t phys = {}" using that by (auto simp: free_set_def)
    then have "bins f s = []" for f s using bins_okD(3) [OF bins, of f s] by auto
    then have "fl_bitmap t = 0"
      using bins_okD(4,5) [OF bins] by (metis bit_eqI bit_0_eq bot_apply bot_bool_def)
    then show ?thesis by (simp add: iree_hal_memory_tlsf_largest_free_block_def)
  qed
  ultimately show ?thesis using phys_core [OF ok] by blast
qed

theorem largest_free_block_close_witness:
  "4096 \<le> unat (iree_hal_memory_tlsf_largest_free_block demo_state) +
     unat (iree_hal_memory_tlsf_largest_free_block demo_state) div 32"
proof -
  have "physical_blocks demo_state = [0]" using demo_ok(1) phys_core by blast
  with largest_free_block_close [OF demo_inv] demo_ok(2,6) show ?thesis by (simp add: demo_fields)
qed

text \<open>
  C28. The full-range query succeeds exactly when one free block covers everything; then merging a
  frontier into it and resetting it keep the invariant, the merged frontier is covered (without a
  capture callback), and a reset leaves exactly the given frontier and no taint.
\<close>

theorem full_range_operations:
  assumes "tlsf_inv t" and "frontier_ok f" and "entry_count f \<le> frontier_capacity t"
  shows "(iree_hal_memory_tlsf_query_full_free_block t \<noteq> None \<longleftrightarrow>
      physical_blocks t = [0] \<and> is_free (blocks t 0)) \<and>
    (iree_hal_memory_tlsf_query_full_free_block t \<noteq> None \<longrightarrow>
      tlsf_inv (iree_hal_memory_tlsf_merge_full_free_frontier (Some f) t) \<and>
      (frontier_overflow t = None \<longrightarrow>
         covers (blocks (iree_hal_memory_tlsf_merge_full_free_frontier (Some f) t) 0) (live f)) \<and>
      tlsf_inv (iree_hal_memory_tlsf_reset (Some f) t) \<and>
      \<not> has_flag FLAG_TAINTED (flags (blocks (iree_hal_memory_tlsf_reset (Some f) t) 0)) \<and>
      live (frontier (blocks (iree_hal_memory_tlsf_reset (Some f) t) 0)) = live f)"
proof -
  obtain phys bins unused where ok: "tlsf_ok t phys bins unused" using assms(1) by (auto simp: tlsf_inv_def)
  note Q = full_free_iff [OF ok] and P = phys_core [OF ok] and M = merge_full_free_ok [OF ok assms(2)]
  {
    assume "phys = [0]" "is_free (blocks t 0)"
    then have "tlsf_inv (iree_hal_memory_tlsf_reset (Some f) t) \<and>
        \<not> has_flag FLAG_TAINTED (flags (blocks (iree_hal_memory_tlsf_reset (Some f) t) 0)) \<and>
        live (frontier (blocks (iree_hal_memory_tlsf_reset (Some f) t) 0)) = live f"
      using reset_ok [of t bins unused "Some f"] ok assms(2,3) by (auto simp: tlsf_inv_def)
  }
  then show ?thesis using Q P M unfolding tlsf_inv_def by blast
qed

theorem full_range_operations_witness: "tlsf_inv (iree_hal_memory_tlsf_reset (Some frontier_f2) demo_state)"
proof -
  obtain bins where ok: "tlsf_ok demo_state [0] bins (rev [1..<block_capacity demo_state])" using demo_ok(1) by blast
  then have core: "core_ok demo_state [0] (rev [1..<block_capacity demo_state]) []" by (simp add: tlsf_ok_def)
  have "length (live (frontier (blocks demo_state 0))) = 2" using demo_ok(7) by (simp add: demo_options_def live_f)
  then have cap: "entry_count frontier_f2 \<le> frontier_capacity demo_state"
    using core_okD(11) [OF core, of 0] by (simp add: demo_fields live_def frontier_f2_def)
  from full_range_operations [OF demo_inv frontier_f_ok(2) cap] full_free_iff [OF ok] demo_ok(2) show ?thesis by simp
qed

section \<open>Reachable states\<close>





end
