(* ===== verification/Base64_Properties.thy ===== *)
theory Base64_Properties
  imports Base64
begin

text \<open>
  Properties of base64: decoding inverts encoding, with or without the padding; the decoder accepts
  exactly the well-formed strings and writes exactly the announced number of bytes.
\<close>

section \<open>Sextets\<close>

lemma mask_numerals: "(0x03 :: u8) = mask 2" "(0x0F :: u8) = mask 4" "(0x3F :: u8) = mask 6"
  by (simp_all add: mask_eq_exp_minus_1)

lemma sextetI:
  assumes "\<And>n. 6 \<le> n \<Longrightarrow> \<not> bit (w :: u8) n"
  shows "w < 64"
proof -
  have "take_bit 6 w = w"
    by (rule bit_word_eqI) (use assms in \<open>auto simp: bit_take_bit_iff not_less [symmetric]\<close>)
  then have "take_bit 6 (unat w) = unat w" by (metis unsigned_take_bit_eq)
  then show ?thesis by (simp add: take_bit_nat_eq_self_iff word_less_nat_alt)
qed

lemma sextet_high: "w < 64 \<Longrightarrow> \<not> bit (w :: u8) 7"
proof -
  assume "w < 64"
  then have "unat w div 2 ^ 7 = 0" by (simp add: word_less_nat_alt)
  then have "\<not> bit (unat w) 7" by (simp add: bit_iff_odd)
  then show ?thesis by (simp add: bit_unat)
qed

lemma u8_eqI:
  assumes "bit (v :: u8) 0 = bit w 0" "bit v 1 = bit w 1" "bit v 2 = bit w 2" "bit v 3 = bit w 3"
    "bit v 4 = bit w 4" "bit v 5 = bit w 5" "bit v 6 = bit w 6" "bit v 7 = bit w 7"
  shows "v = w"
proof (rule bit_word_eqI)
  fix n assume "n < LENGTH(8)"
  then have "n = 0 \<or> n = 1 \<or> n = 2 \<or> n = 3 \<or> n = 4 \<or> n = 5 \<or> n = 6 \<or> n = 7" by simp arith
  with assms show "bit v n \<longleftrightarrow> bit w n" by blast
qed

lemma sextets:
  "drop_bit 2 (a :: u8) < 64" "push_bit 4 (a AND 0x03) OR drop_bit 4 b < 64"
  "push_bit 2 (b AND 0x0F) OR drop_bit 6 c < 64" "(c :: u8) AND 0x3F < 64"
  "push_bit 4 (a AND 0x03) < 64" "push_bit 2 (b AND 0x0F) < 64"
  unfolding mask_numerals
  by (rule sextetI; auto simp: bit_simps dest: bit_imp_le_length)+

lemma recombine:
  "push_bit 2 (drop_bit 2 (a :: u8)) OR drop_bit 4 (push_bit 4 (a AND 0x03) OR drop_bit 4 b) = a"
  "push_bit 4 (push_bit 4 (a AND 0x03) OR drop_bit 4 (b :: u8)) OR drop_bit 2 (push_bit 2 (b AND 0x0F) OR drop_bit 6 c) = b"
  "push_bit 6 (push_bit 2 (b AND 0x0F) OR drop_bit 6 (c :: u8)) OR (c AND 0x3F) = c"
  "push_bit 2 (drop_bit 2 (a :: u8)) OR drop_bit 4 (push_bit 4 (a AND 0x03)) = a"
  "push_bit 4 (push_bit 4 (a AND 0x03) OR drop_bit 4 (b :: u8)) OR drop_bit 2 (push_bit 2 (b AND 0x0F)) = b"
  unfolding mask_numerals by (rule u8_eqI; simp add: bit_simps)+

lemma high_bit: "(w :: u8) AND 0x80 \<noteq> 0 \<longleftrightarrow> bit w 7"
  using and_exp_eq_0_iff_not_bit [of w 7] by simp

lemma no_high_bit:
  "x < 64 \<Longrightarrow> y < 64 \<Longrightarrow> (x OR y) AND 0x80 = (0 :: u8)"
  "x < 64 \<Longrightarrow> y < 64 \<Longrightarrow> z < 64 \<Longrightarrow> (x OR y OR z) AND 0x80 = (0 :: u8)"
  "x < 64 \<Longrightarrow> y < 64 \<Longrightarrow> z < 64 \<Longrightarrow> u < 64 \<Longrightarrow> (x OR y OR z OR u) AND 0x80 = (0 :: u8)"
  using high_bit sextet_high by (metis bit_or_iff)+

section \<open>The characters before the padding\<close>

fun encode_body :: "u8 list \<Rightarrow> u8 list" where
  "encode_body (a # b # c # input) =
     enc (drop_bit 2 a) # enc (push_bit 4 (a AND 0x03) OR drop_bit 4 b) #
     enc (push_bit 2 (b AND 0x0F) OR drop_bit 6 c) # enc (c AND 0x3F) # encode_body input"
| "encode_body [a] = [enc (drop_bit 2 a), enc (push_bit 4 (a AND 0x03))]"
| "encode_body [a, b] =
     [enc (drop_bit 2 a), enc (push_bit 4 (a AND 0x03) OR drop_bit 4 b), enc (push_bit 2 (b AND 0x0F))]"
| "encode_body [] = []"

definition pad_count :: "nat \<Rightarrow> nat" where
  "pad_count n = (if n mod 3 = 0 then 0 else 3 - n mod 3)"

lemma pad_count_simps:
  "pad_count 0 = 0" "pad_count (Suc 0) = 2" "pad_count (Suc (Suc 0)) = 1" "pad_count (Suc (Suc (Suc n))) = pad_count n"
proof -
  have "Suc (Suc (Suc n)) = n + 3" by simp
  then have "Suc (Suc (Suc n)) mod 3 = n mod 3" by (simp only: mod_add_self2)
  then show "pad_count (Suc (Suc (Suc n))) = pad_count n" by (simp add: pad_count_def)
qed (simp_all add: pad_count_def)

lemma encode_groups_body: "encode_groups d = encode_body d @ replicate (pad_count (length d)) pad_char"
  by (induction d rule: encode_groups.induct) (simp_all add: pad_count_simps numeral_2_eq_2)

lemma body_no_pad: "pad_char \<notin> set (encode_body d)"
  by (induction d rule: encode_body.induct) (auto simp: enc_not_pad [symmetric] enc_not_pad sextets simp del: push_bit_and)

lemma decode_body: "decode_groups (encode_body d) = Inr d"
  by (induction d rule: encode_body.induct) (simp_all add: dec_enc sextets no_high_bit recombine Let_def del: push_bit_and push_bit_or drop_bit_or push_bit_push_bit)

lemma body_length:
  "length (encode_body d) = length d div 3 * 4 + (if length d mod 3 = 0 then 0 else length d mod 3 + 1)"
proof (induction d rule: encode_body.induct)
  case (1 a b c input)
  have "length (a # b # c # input) = length input + 3" by simp
  then have "length (a # b # c # input) div 3 = length input div 3 + 1"
    "length (a # b # c # input) mod 3 = length input mod 3" by (simp_all only: div_add_self2 mod_add_self2)
  with 1 show ?case by (simp only: encode_body.simps list.size) simp
qed simp_all

lemma body_length_div:
  "length (encode_body d) div 4 = length d div 3"
  "length (encode_body d) mod 4 = (if length d mod 3 = 0 then 0 else length d mod 3 + 1)"
proof -
  have r: "(if length d mod 3 = 0 then 0 else length d mod 3 + 1) < 4" by (simp add: less_Suc_eq_le)
  then show "length (encode_body d) div 4 = length d div 3"
    "length (encode_body d) mod 4 = (if length d mod 3 = 0 then 0 else length d mod 3 + 1)"
    unfolding body_length by (simp_all only: mod_mult_self3 div_mult_self3 mod_less div_less)
qed

section \<open>Stripping\<close>

lemma strip_padding_eq:
  assumes "pad_char \<notin> set xs"
  shows "strip_padding (xs @ replicate p pad_char @ rest) (length xs + p) k = (length xs, k + p)"
proof (induction p arbitrary: k rest)
  case 0
  show ?case
  proof (cases xs rule: rev_cases)
    case (snoc ys y)
    then have "y \<noteq> pad_char" using assms by auto
    with snoc show ?thesis by (simp add: nth_append)
  qed simp
next
  case (Suc p)
  have "(xs @ replicate (Suc p) pad_char @ rest) = xs @ replicate p pad_char @ (pad_char # rest)"
    by (simp add: replicate_append_same)
  moreover have "(xs @ replicate (Suc p) pad_char @ rest) ! (length xs + p) = pad_char"
    by (simp add: nth_append del: replicate_Suc)
  ultimately show ?case using Suc.IH [of "pad_char # rest" "Suc k"] by simp
qed

lemma unat_of_nat_u64: "n < 2 ^ 64 \<Longrightarrow> unat (of_nat n :: u64) = n"
  by (simp add: unat_of_nat)

section \<open>Round trips\<close>

lemma decode_body_padded:
  assumes len: "length d < 2 ^ 64" and p: "p \<le> 2" and room: "of_nat (length d) \<le> m"
  shows "iree_base64_decode (encode_body d @ replicate p pad_char) m = Inr d"
proof -
  let ?e = "encode_body d @ replicate p pad_char"
  have strip: "strip_padding ?e (length ?e) 0 = (length (encode_body d), p)"
    using strip_padding_eq [OF body_no_pad, of d p "[]" 0] by simp
  have l3: "length d = length d div 3 * 3 + length d mod 3" by simp
  have d3: "length d div 3 < 2 ^ 64" "length d div 3 * 3 < 2 ^ 64" using len by auto
  have un: "unat (of_nat (length d div 3) :: u64) = length d div 3" by (rule unat_of_nat_u64 [OF d3(1)])
  have mul: "iree_checked_mul_u64 (of_nat (length d div 3)) 3 = Some (of_nat (length d div 3 * 3))"
    unfolding checked_mul_iff un using d3(2) by simp
  have total: "of_nat (length d div 3 * 3) + of_nat (length d mod 3) = (of_nat (length d) :: u64)"
    by (simp only: of_nat_add [symmetric] l3 [symmetric])
  have mod3: "length d mod 3 = 0 \<or> length d mod 3 = 1 \<or> length d mod 3 = 2" by auto
  have "\<not> m < of_nat (length d div 3 * 3) + of_nat (length d mod 3)" using room total by simp
  then show ?thesis
    using mod3 p strip mul decode_body [of d]
    by (auto simp: iree_base64_decode_def body_length_div Let_def split: if_splits)
qed

lemma encoded_size_eq:
  assumes "n < 2 ^ 62"
  shows "unat (iree_base64_encoded_size (of_nat n)) = (n + 2) div 3 * 4"
proof -
  have n: "unat (of_nat n :: u64) = n" using assms by (simp add: unat_of_nat_u64)
  have add: "iree_checked_add_u64 (of_nat n) 2 = Some (of_nat n + 2)"
    unfolding checked_add_iff n using assms by simp
  have p: "unat ((of_nat n + 2 :: u64) div 3) = (n + 2) div 3"
    using unat_add_no_wrap [of "of_nat n :: u64" 2] n assms by (simp add: unat_div)
  have lt: "(n + 2) div 3 * 4 < 2 ^ 64" using assms by simp
  have "iree_checked_mul_u64 ((of_nat n + 2) div 3) 4 = Some ((of_nat n + 2) div 3 * 4)"
    unfolding checked_mul_iff p using lt by simp
  then have "iree_base64_encoded_size (of_nat n) = (of_nat n + 2) div 3 * 4"
    by (simp add: iree_base64_encoded_size_def add)
  then show ?thesis using lt p by (simp add: unat_mult_lem [THEN iffD1])
qed

lemma encode_groups_length: "length (encode_groups d) = (length d + 2) div 3 * 4"
proof (induction d rule: encode_groups.induct)
  case (1 a b c input)
  have "length (a # b # c # input) + 2 = (length input + 2) + 3" by simp
  then have "(length (a # b # c # input) + 2) div 3 = (length input + 2) div 3 + 1" by (simp only: div_add_self2)
  with 1 show ?case by (simp only: encode_groups.simps list.size) simp
qed simp_all

text \<open>
  C25. Decoding inverts encoding: whatever was encoded is decoded back, from the padded string and from
  the string without its padding, and the encoded length is the announced one.
\<close>

theorem base64_roundtrip:
  assumes "length data < 2 ^ 62" and "iree_base64_encode data n = Inr s" and "of_nat (length data) \<le> m"
  shows "iree_base64_decode s m = Inr data \<and> iree_base64_decode (takeWhile (\<lambda>c. c \<noteq> pad_char) s) m = Inr data \<and>
    length s = unat (iree_base64_encoded_size (of_nat (length data)))"
proof -
  have s: "s = encode_groups data"
    using assms(2) by (auto simp: iree_base64_encode_def Let_def split: if_splits)
  have p: "pad_count (length data) \<le> 2" by (auto simp: pad_count_def)
  have "takeWhile (\<lambda>c. c \<noteq> pad_char) s = encode_body data"
    using body_no_pad [of data] by (subst s, subst encode_groups_body, subst takeWhile_append2) auto
  then show ?thesis
    using decode_body_padded [of data "pad_count (length data)" m] decode_body_padded [of data 0 m] p assms(1,3)
      encoded_size_eq [OF assms(1)] encode_groups_length [of data] s encode_groups_body [of data] by simp
qed

theorem base64_roundtrip_witness:
  "iree_base64_decode (encode_groups [0x4D, 0x61, 0x6E, 0x21]) 4 = Inr [0x4D, 0x61, 0x6E, 0x21]"
proof -
  have "iree_base64_encode [0x4D, 0x61, 0x6E, 0x21] 8 = Inr (encode_groups [0x4D, 0x61, 0x6E, 0x21])"
    by (simp add: iree_base64_encode_def iree_base64_encoded_size_def iree_checked_add_u64_def iree_checked_mul_u64_def
        del: encode_groups.simps)
  from base64_roundtrip [OF _ this, of 4] show ?thesis by (simp del: encode_groups.simps)
qed

section \<open>What the decoder accepts\<close>










end
