(* ===== verification/String_View.thy ===== *)
theory String_View
  imports Machine_Laws
begin

text \<open>
  String views of \<^verbatim>\<open>runtime/src/iree/base/string_view.{h,c}\<close>: comparison, searching, affixes, trimming,
  splitting, wildcard matching and copying to buffers. The numeric parsers of the same file follow in
  \<^verbatim>\<open>Hex_Float\<close> and \<^verbatim>\<open>String_Numbers\<close>.

  A view is the list of bytes it denotes. A view without data (\<^verbatim>\<open>data == NULL\<close>) has size 0 by the
  contract of the type, so every test of the pointer beside a test of the size is the empty list.
  Positions and sizes are natural numbers below \<open>2 ^ 64\<close>; no operation here wraps, since each
  subtraction is guarded. The sign of \<^verbatim>\<open>char\<close> does not matter: characters are only tested for equality or
  against ASCII intervals.
\<close>

type_synonym iree_string_view_t = "u8 list"

text \<open>The two wildcards, \<^verbatim>\<open>'*'\<close> and \<^verbatim>\<open>'?'\<close>.\<close>

abbreviation star_char :: u8 where
  "star_char \<equiv> 0x2A"

abbreviation any_char :: u8 where
  "any_char \<equiv> 0x3F"

abbreviation IREE_SV :: "string \<Rightarrow> iree_string_view_t" where
  "IREE_SV cstr \<equiv> map of_char cstr"

definition IREE_STRING_VIEW_NPOS :: nat where
  "IREE_STRING_VIEW_NPOS = 18446744073709551615"

definition iree_string_view_empty :: iree_string_view_t where
  "iree_string_view_empty = []"

definition iree_string_view_is_empty :: "iree_string_view_t \<Rightarrow> bool" where
  "iree_string_view_is_empty sv \<longleftrightarrow> length sv = 0"

section \<open>The C library on bytes\<close>

text \<open>
  \<^verbatim>\<open>memchr\<close> returns the position of the first match. \<^verbatim>\<open>strncmp\<close> compares unsigned bytes up to the first
  difference, the first NUL or the bound; only the sign of its result is specified. \<^verbatim>\<open>isspace\<close> is the
  one of the C locale.
\<close>

fun memchr :: "u8 list \<Rightarrow> u8 \<Rightarrow> nat option" where
  "memchr [] c = None"
| "memchr (x # xs) c = (if x = c then Some 0 else map_option Suc (memchr xs c))"

fun strncmp :: "u8 list \<Rightarrow> u8 list \<Rightarrow> nat \<Rightarrow> int" where
  "strncmp (a # as) (b # bs) (Suc n) =
     (if a \<noteq> b then (if a < b then - 1 else 1) else if a = 0 then 0 else strncmp as bs n)"
| "strncmp as bs n = 0"

definition c_isspace :: "u8 \<Rightarrow> bool" where
  "c_isspace c \<longleftrightarrow> c = 0x20 \<or> (0x09 \<le> c \<and> c \<le> 0x0D)"

section \<open>Case and comparison\<close>

definition iree_min_host_size :: "nat \<Rightarrow> nat \<Rightarrow> nat" where
  "iree_min_host_size a b = (if a < b then a else b)"

text \<open>\<^verbatim>\<open>(unsigned)c - 'A' < 26\<close> wraps below \<^verbatim>\<open>'A'\<close>, which makes it an interval test.\<close>

definition iree_isupper :: "u8 \<Rightarrow> bool" where
  "iree_isupper c \<longleftrightarrow> (signed c :: u32) - 0x41 < 26"

definition iree_tolower :: "u8 \<Rightarrow> u8" where
  "iree_tolower c = (if iree_isupper c then c OR 32 else c)"

definition iree_string_view_equal :: "iree_string_view_t \<Rightarrow> iree_string_view_t \<Rightarrow> bool" where
  "iree_string_view_equal lhs rhs =
     (if length lhs \<noteq> length rhs then False else if length lhs = 0 then True else lhs = rhs)"

fun equal_case_from :: "iree_string_view_t \<Rightarrow> iree_string_view_t \<Rightarrow> bool" where
  "equal_case_from (l # lhs) (r # rhs) =
     (if iree_tolower l \<noteq> iree_tolower r then False else equal_case_from lhs rhs)"
| "equal_case_from lhs rhs = True"

definition iree_string_view_equal_case :: "iree_string_view_t \<Rightarrow> iree_string_view_t \<Rightarrow> bool" where
  "iree_string_view_equal_case lhs rhs =
     (if length lhs \<noteq> length rhs then False else equal_case_from lhs rhs)"

definition iree_string_view_compare :: "iree_string_view_t \<Rightarrow> iree_string_view_t \<Rightarrow> int" where
  "iree_string_view_compare lhs rhs =
     (let min_size = iree_min_host_size (length lhs) (length rhs)
      in if min_size = 0
         then (if length lhs = length rhs then 0 else if length lhs < length rhs then - 1 else 1)
         else let cmp = strncmp lhs rhs min_size
              in if cmp \<noteq> 0 then cmp
                 else if length lhs = length rhs then 0
                 else if length lhs < length rhs then - 1 else 1)"

section \<open>Searching\<close>

definition iree_string_view_find_char :: "iree_string_view_t \<Rightarrow> u8 \<Rightarrow> nat \<Rightarrow> nat" where
  "iree_string_view_find_char value c pos =
     (if iree_string_view_is_empty value \<or> pos \<ge> length value then IREE_STRING_VIEW_NPOS
      else case memchr (drop pos value) c of
             Some k \<Rightarrow> pos + k
           | None \<Rightarrow> IREE_STRING_VIEW_NPOS)"

function find_from :: "iree_string_view_t \<Rightarrow> iree_string_view_t \<Rightarrow> nat \<Rightarrow> nat \<Rightarrow> nat" where
  "find_from value needle limit i =
     (if i \<le> limit
      then if take (length needle) (drop i value) = needle then i
           else find_from value needle limit (Suc i)
      else IREE_STRING_VIEW_NPOS)"
  by pat_completeness auto
termination by (relation "measure (\<lambda>(value, needle, limit, i). Suc limit - i)") auto

declare find_from.simps [simp del]

definition iree_string_view_find :: "iree_string_view_t \<Rightarrow> iree_string_view_t \<Rightarrow> nat \<Rightarrow> nat" where
  "iree_string_view_find value needle pos =
     (if length needle = 0 then (if pos \<le> length value then pos else IREE_STRING_VIEW_NPOS)
      else if length needle > length value then IREE_STRING_VIEW_NPOS
      else if pos > length value - length needle then IREE_STRING_VIEW_NPOS
      else if length needle = 1 then iree_string_view_find_char value (needle ! 0) pos
      else find_from value needle (length value - length needle) pos)"

definition lookup_table :: "iree_string_view_t \<Rightarrow> bool list" where
  "lookup_table s = fold (\<lambda>c table. table[unat c := True]) s (replicate 256 False)"

function first_of_from :: "bool list \<Rightarrow> iree_string_view_t \<Rightarrow> nat \<Rightarrow> nat" where
  "first_of_from table value i =
     (if i < length value
      then if table ! unat (value ! i) then i else first_of_from table value (Suc i)
      else IREE_STRING_VIEW_NPOS)"
  by pat_completeness auto
termination by (relation "measure (\<lambda>(table, value, i). length value - i)") auto

declare first_of_from.simps [simp del]

definition iree_string_view_find_first_of :: "iree_string_view_t \<Rightarrow> iree_string_view_t \<Rightarrow> nat \<Rightarrow> nat" where
  "iree_string_view_find_first_of value s pos =
     (if iree_string_view_is_empty value \<or> iree_string_view_is_empty s then IREE_STRING_VIEW_NPOS
      else if length s = 1 then iree_string_view_find_char value (s ! 0) pos
      else first_of_from (lookup_table s) value pos)"

fun last_of_from :: "bool list \<Rightarrow> iree_string_view_t \<Rightarrow> nat \<Rightarrow> nat" where
  "last_of_from table value (Suc i) =
     (if table ! unat (value ! i) then i else last_of_from table value i)"
| "last_of_from table value 0 = IREE_STRING_VIEW_NPOS"

definition iree_string_view_find_last_of :: "iree_string_view_t \<Rightarrow> iree_string_view_t \<Rightarrow> nat \<Rightarrow> nat" where
  "iree_string_view_find_last_of value s pos =
     (if iree_string_view_is_empty value \<or> iree_string_view_is_empty s then IREE_STRING_VIEW_NPOS
      else last_of_from (lookup_table s) value (min pos (length value - 1) + 1))"

section \<open>Prefixes, suffixes and parts\<close>

definition iree_string_view_starts_with :: "iree_string_view_t \<Rightarrow> iree_string_view_t \<Rightarrow> bool" where
  "iree_string_view_starts_with value prefix =
     (if length prefix = 0 \<or> length prefix > length value then False
      else strncmp value prefix (length prefix) = 0)"

definition iree_string_view_ends_with :: "iree_string_view_t \<Rightarrow> iree_string_view_t \<Rightarrow> bool" where
  "iree_string_view_ends_with value suffix =
     (if length suffix = 0 \<or> length suffix > length value then False
      else strncmp (drop (length value - length suffix) value) suffix (length suffix) = 0)"

definition iree_string_view_remove_prefix :: "iree_string_view_t \<Rightarrow> nat \<Rightarrow> iree_string_view_t" where
  "iree_string_view_remove_prefix value n =
     (if n \<ge> length value then iree_string_view_empty else drop n value)"

definition iree_string_view_remove_suffix :: "iree_string_view_t \<Rightarrow> nat \<Rightarrow> iree_string_view_t" where
  "iree_string_view_remove_suffix value n =
     (if n \<ge> length value then iree_string_view_empty else take (length value - n) value)"

definition iree_string_view_strip_prefix ::
  "iree_string_view_t \<Rightarrow> iree_string_view_t \<Rightarrow> iree_string_view_t" where
  "iree_string_view_strip_prefix value prefix =
     (if iree_string_view_starts_with value prefix
      then iree_string_view_remove_prefix value (length prefix) else value)"

definition iree_string_view_strip_suffix ::
  "iree_string_view_t \<Rightarrow> iree_string_view_t \<Rightarrow> iree_string_view_t" where
  "iree_string_view_strip_suffix value suffix =
     (if iree_string_view_ends_with value suffix
      then iree_string_view_remove_suffix value (length suffix) else value)"

text \<open>The consuming variants update the view in place: the result and the new view.\<close>

definition iree_string_view_consume_prefix ::
  "iree_string_view_t \<Rightarrow> iree_string_view_t \<Rightarrow> bool \<times> iree_string_view_t" where
  "iree_string_view_consume_prefix value prefix =
     (if iree_string_view_starts_with value prefix
      then (True, iree_string_view_remove_prefix value (length prefix)) else (False, value))"

definition iree_string_view_consume_prefix_char ::
  "iree_string_view_t \<Rightarrow> u8 \<Rightarrow> bool \<times> iree_string_view_t" where
  "iree_string_view_consume_prefix_char value c =
     (if length value > 0 \<and> value ! 0 = c then (True, drop 1 value) else (False, value))"

definition iree_string_view_starts_with_char :: "iree_string_view_t \<Rightarrow> u8 \<Rightarrow> bool" where
  "iree_string_view_starts_with_char value c \<longleftrightarrow> length value > 0 \<and> value ! 0 = c"

definition iree_string_view_consume_suffix ::
  "iree_string_view_t \<Rightarrow> iree_string_view_t \<Rightarrow> bool \<times> iree_string_view_t" where
  "iree_string_view_consume_suffix value suffix =
     (if iree_string_view_ends_with value suffix
      then (True, iree_string_view_remove_suffix value (length suffix)) else (False, value))"

function trim_start :: "iree_string_view_t \<Rightarrow> nat \<Rightarrow> nat" where
  "trim_start value start =
     (if start < length value \<and> c_isspace (value ! start) then trim_start value (Suc start) else start)"
  by pat_completeness auto
termination by (relation "measure (\<lambda>(value, start). length value - start)") auto

function trim_end :: "iree_string_view_t \<Rightarrow> nat \<Rightarrow> nat \<Rightarrow> nat" where
  "trim_end value start finish =
     (if finish > start \<and> c_isspace (value ! (finish - 1)) then trim_end value start (finish - 1) else finish)"
  by pat_completeness auto
termination by (relation "measure (\<lambda>(value, start, finish). finish)") auto

declare trim_start.simps [simp del] trim_end.simps [simp del]

definition iree_string_view_trim :: "iree_string_view_t \<Rightarrow> iree_string_view_t" where
  "iree_string_view_trim value =
     (if iree_string_view_is_empty value then value
      else let start = trim_start value 0; finish = trim_end value start (length value)
           in take (finish - start) (drop start value))"

definition iree_string_view_substr :: "iree_string_view_t \<Rightarrow> nat \<Rightarrow> nat \<Rightarrow> iree_string_view_t" where
  "iree_string_view_substr value pos n =
     (if iree_string_view_is_empty value then value
      else let pos = iree_min_host_size pos (length value);
               n = iree_min_host_size n (length value - pos)
           in take n (drop pos value))"

text \<open>The offset returned and the two views written to the out parameters.\<close>

definition iree_string_view_split ::
  "iree_string_view_t \<Rightarrow> u8 \<Rightarrow> int \<times> iree_string_view_t \<times> iree_string_view_t" where
  "iree_string_view_split value split_char =
     (if length value = 0 then (- 1, iree_string_view_empty, iree_string_view_empty)
      else case memchr value split_char of
             None \<Rightarrow> (- 1, value, iree_string_view_empty)
           | Some offset \<Rightarrow>
               (int offset, take offset value,
                take (length value - offset - 1) (drop (offset + 1) value)))"

text \<open>Replacement writes through the view: the bytes viewed afterwards.\<close>

function replace_char_from :: "u8 list \<Rightarrow> u8 \<Rightarrow> u8 \<Rightarrow> nat \<Rightarrow> u8 list" where
  "replace_char_from p old_char new_char i =
     (if i < length p
      then replace_char_from (if p ! i = old_char then p[i := new_char] else p) old_char new_char (Suc i)
      else p)"
  by pat_completeness auto
termination by (relation "measure (\<lambda>(p, old_char, new_char, i). length p - i)") auto

declare replace_char_from.simps [simp del]

definition iree_string_view_replace_char :: "iree_string_view_t \<Rightarrow> u8 \<Rightarrow> u8 \<Rightarrow> iree_string_view_t" where
  "iree_string_view_replace_char value old_char new_char = replace_char_from value old_char new_char 0"

text \<open>
  Copies into a caller's buffer. The buffer is at least as long as the length passed with it; appending
  requires room for the whole source, as the callers reserve it.
\<close>

definition iree_string_view_to_cstring :: "iree_string_view_t \<Rightarrow> u8 list \<Rightarrow> nat \<Rightarrow> u8 list" where
  "iree_string_view_to_cstring value buffer buffer_length =
     (if buffer_length = 0 then buffer
      else let len = min (length value) (buffer_length - 1);
               buffer = (if len > 0 then take len value @ drop len buffer else buffer)
           in buffer[len := 0])"

definition iree_string_view_append_to_buffer ::
  "iree_string_view_t \<Rightarrow> u8 list \<Rightarrow> nat \<times> iree_string_view_t \<times> u8 list" where
  "iree_string_view_append_to_buffer source_value buffer =
     (let buffer = (if length source_value > 0 then source_value @ drop (length source_value) buffer
                    else buffer)
      in (length source_value, take (length source_value) buffer, buffer))"

section \<open>Wildcard matching\<close>

text \<open>
  The matcher keeps the position of the last star and the value position it currently extends to; a
  mismatch extends the star by one byte and retries. \<^verbatim>\<open>IREE_STRING_VIEW_NPOS\<close> as the star position,
  meaning that no star was seen, is \<^term>\<open>None\<close>. The loop ends because a star only moves forward, the
  star's extension grows, and otherwise the value position grows.
\<close>

fun skip_stars :: "iree_string_view_t \<Rightarrow> nat" where
  "skip_stars (c # pattern) = (if c = star_char then Suc (skip_stars pattern) else 0)"
| "skip_stars [] = 0"

definition star_behind :: "nat option \<Rightarrow> nat \<Rightarrow> nat \<Rightarrow> nat \<Rightarrow> bool" where
  "star_behind star star_value_position value_position pattern_position \<longleftrightarrow>
     (case star of None \<Rightarrow> True | Some s \<Rightarrow> s < pattern_position \<and> star_value_position \<le> value_position)"

function match_loop ::
  "iree_string_view_t \<Rightarrow> iree_string_view_t \<Rightarrow> nat \<Rightarrow> nat \<Rightarrow> nat option \<Rightarrow> nat \<Rightarrow> bool" where
  "match_loop value pattern value_position pattern_position star star_value_position =
     (if value_position < length value
      then if pattern_position < length pattern \<and> pattern ! pattern_position = star_char
           then match_loop value pattern value_position (Suc pattern_position)
                  (Some pattern_position) value_position
           else if pattern_position < length pattern \<and>
                   (pattern ! pattern_position = any_char \<or>
                    pattern ! pattern_position = value ! value_position)
           then match_loop value pattern (Suc value_position) (Suc pattern_position)
                  star star_value_position
           else (case star of
                   None \<Rightarrow> False
                 | Some s \<Rightarrow> match_loop value pattern (Suc star_value_position) (Suc s)
                               star (Suc star_value_position))
      else pattern_position + skip_stars (drop pattern_position pattern) = length pattern)"
  by pat_completeness auto
termination
  by (relation "measures
    [\<lambda>(v, p, vp, pp, s, sv). if star_behind s sv vp pp then 0 else 1,
     \<lambda>(v, p, vp, pp, s, sv). case s of None \<Rightarrow> Suc (length p) | Some s \<Rightarrow> length p - s,
     \<lambda>(v, p, vp, pp, s, sv). length v - sv,
     \<lambda>(v, p, vp, pp, s, sv). length v - vp]")
    (auto simp: star_behind_def split: option.splits)

declare match_loop.simps [simp del]

definition iree_string_view_match_pattern :: "iree_string_view_t \<Rightarrow> iree_string_view_t \<Rightarrow> bool" where
  "iree_string_view_match_pattern value pattern = match_loop value pattern 0 0 None 0"

end
