(* ===== verification/String_View_Laws.thy ===== *)
theory String_View_Laws
  imports String_View
begin

text \<open>
  Laws of the string-view operations: the C library functions as list facts, what the searches return,
  and the declarative meaning of wildcard patterns with the invariant of the matching loop.
\<close>

section \<open>The C library\<close>

lemma memchr_Some_iff:
  "memchr xs c = Some k \<longleftrightarrow> k < length xs \<and> xs ! k = c \<and> c \<notin> set (take k xs)"
proof (induction xs arbitrary: k)
  case (Cons x xs)
  show ?case by (cases k) (auto simp: Cons.IH)
qed simp

lemma memchr_None_iff: "memchr xs c = None \<longleftrightarrow> c \<notin> set xs"
  by (induction xs) auto

text \<open>Without NUL bytes in common positions \<^const>\<open>strncmp\<close> compares whole prefixes.\<close>

lemma strncmp_zero_iff:
  assumes "n \<le> length as" and "n \<le> length bs" and "0 \<notin> set (take n bs)"
  shows "strncmp as bs n = 0 \<longleftrightarrow> take n as = take n bs"
  using assms
proof (induction as bs n rule: strncmp.induct)
  case (1 a as b bs n)
  then show ?case by auto
qed auto

text \<open>A comparison that falls back to the lengths is the lexicographic order.\<close>

lemma strncmp_lexordp:
  fixes as bs :: "u8 list"
  shows "0 \<notin> set bs \<Longrightarrow>
    (if strncmp as bs (min (length as) (length bs)) \<noteq> 0 then strncmp as bs (min (length as) (length bs))
     else if length as = length bs then 0 else if length as < length bs then - 1 else 1) =
    (if as = bs then 0 else if ord_class.lexordp as bs then - 1 else 1)"
  by (induction as bs rule: list_induct2') (auto split: if_splits)

lemma equal_case_from_iff:
  "length as = length bs \<Longrightarrow> equal_case_from as bs \<longleftrightarrow> map iree_tolower as = map iree_tolower bs"
  by (induction as bs rule: list_induct2) auto

section \<open>Characters\<close>

text \<open>A statement about one byte is checked on all 256 of them.\<close>

lemma u8_cases_list: "list_all P (map of_nat [0..<256]) \<Longrightarrow> P (c :: u8)"
  using unat_u8_lt [of c] by (force simp: list_all_iff dest: bspec [of _ _ "unat c"])

lemma isupper_list:
  "list_all (\<lambda>c. iree_isupper c \<longleftrightarrow> 0x41 \<le> c \<and> c \<le> 0x5A) (map of_nat [0..<256])"
  by code_simp

lemma isupper_iff: "iree_isupper c \<longleftrightarrow> 0x41 \<le> c \<and> c \<le> 0x5A"
  by (rule u8_cases_list [OF isupper_list])

section \<open>Searching\<close>

definition occurs_at :: "iree_string_view_t \<Rightarrow> iree_string_view_t \<Rightarrow> nat \<Rightarrow> bool" where
  "occurs_at v needle i \<longleftrightarrow> i + length needle \<le> length v \<and> take (length needle) (drop i v) = needle"

text \<open>The first position from \<open>pos\<close> and the last position up to \<open>pos\<close> with a property.\<close>

definition first_position :: "(nat \<Rightarrow> bool) \<Rightarrow> nat \<Rightarrow> nat \<Rightarrow> bool" where
  "first_position P pos r \<longleftrightarrow>
     (r = IREE_STRING_VIEW_NPOS \<and> (\<forall>i\<ge>pos. \<not> P i)) \<or>
     (pos \<le> r \<and> P r \<and> (\<forall>i. pos \<le> i \<and> i < r \<longrightarrow> \<not> P i))"

definition last_position :: "(nat \<Rightarrow> bool) \<Rightarrow> nat \<Rightarrow> nat \<Rightarrow> bool" where
  "last_position P pos r \<longleftrightarrow>
     (r = IREE_STRING_VIEW_NPOS \<and> (\<forall>i\<le>pos. \<not> P i)) \<or>
     (r \<le> pos \<and> P r \<and> (\<forall>i. r < i \<and> i \<le> pos \<longrightarrow> \<not> P i))"

lemma find_char_first:
  "first_position (\<lambda>i. i < length v \<and> v ! i = c) pos (iree_string_view_find_char v c pos)"
proof (cases "memchr (drop pos v) c")
  case None
  then have "v ! i \<noteq> c" if "pos \<le> i" "i < length v" for i
    using that in_set_conv_nth [of c "drop pos v"]
    by (auto simp: memchr_None_iff dest: spec [of _ "i - pos"])
  then show ?thesis
    using None by (auto simp: first_position_def iree_string_view_find_char_def)
next
  case (Some k)
  then have k: "pos + k < length v" "v ! (pos + k) = c" "c \<notin> set (take k (drop pos v))"
    by (auto simp: memchr_Some_iff)
  have "v ! i \<noteq> c" if "pos \<le> i" "i < pos + k" for i
  proof
    assume "v ! i = c"
    then have "take k (drop pos v) ! (i - pos) = c" using that k(1) by simp
    moreover have "i - pos < length (take k (drop pos v))" using that k(1) by auto
    ultimately show False using k(3) nth_mem by metis
  qed
  then show ?thesis
    using Some k by (auto simp: first_position_def iree_string_view_find_char_def iree_string_view_is_empty_def)
qed

lemma first_positionI_scan:
  assumes "first_position P (Suc i) r" and "\<not> P i"
  shows "first_position P i r"
  using assms unfolding first_position_def by (metis Suc_leI Suc_leD le_neq_implies_less)

lemma find_from_first:
  assumes "length needle \<le> length v" and "limit = length v - length needle"
  shows "first_position (occurs_at v needle) i (find_from v needle limit i)"
  using assms
proof (induction v needle limit i rule: find_from.induct)
  case (1 v needle limit i)
  show ?case
  proof (cases "i \<le> limit")
    case False
    then show ?thesis
      using 1 by (subst find_from.simps) (auto simp: first_position_def occurs_at_def)
  next
    case le: True
    show ?thesis
    proof (cases "take (length needle) (drop i v) = needle")
      case True
      then show ?thesis
        using le 1(2,3) by (subst find_from.simps) (auto simp: first_position_def occurs_at_def)
    next
      case False
      then have "\<not> occurs_at v needle i" by (simp add: occurs_at_def)
      then show ?thesis
        using first_positionI_scan [OF 1(1) [OF le False 1(2,3)]] le False by (subst find_from.simps) simp
    qed
  qed
qed

lemma occurs_at_single: "occurs_at v [c] i \<longleftrightarrow> i < length v \<and> v ! i = c"
  by (auto simp: occurs_at_def take_Suc hd_drop_conv_nth Suc_le_eq)

lemma find_first: "first_position (occurs_at v needle) pos (iree_string_view_find v needle pos)"
proof -
  consider "needle = []" | "needle \<noteq> []" "length v < length needle \<or> length v - length needle < pos"
    | c where "needle = [c]" "length needle \<le> length v" "pos \<le> length v - length needle"
    | "length needle > 1" "length needle \<le> length v" "pos \<le> length v - length needle"
    by (metis One_nat_def length_0_conv length_Suc_conv less_one linorder_neqE_nat not_less)
  then show ?thesis
  proof cases
    case 1
    then show ?thesis by (auto simp: iree_string_view_find_def first_position_def occurs_at_def)
  next
    case 2
    then show ?thesis by (auto simp: iree_string_view_find_def first_position_def occurs_at_def)
  next
    case (3 c)
    then have "iree_string_view_find v needle pos = iree_string_view_find_char v c pos"
      by (auto simp: iree_string_view_find_def)
    then show ?thesis
      using find_char_first [of v c pos] 3(1) by (simp add: occurs_at_single [abs_def])
  next
    case 4
    then show ?thesis
      using find_from_first [of needle v] by (auto simp: iree_string_view_find_def)
  qed
qed

lemma lookup_table_fold:
  "length table = 256 \<Longrightarrow>
    length (fold (\<lambda>c table. table[unat (c :: u8) := True]) s table) = 256 \<and>
    (\<forall>k<256. fold (\<lambda>c table. table[unat c := True]) s table ! k \<longleftrightarrow> table ! k \<or> k \<in> unat ` set s)"
proof (induction s arbitrary: table)
  case (Cons c s)
  have "table[unat c := True] ! k \<longleftrightarrow> k = unat c \<or> table ! k" if "k < 256" for k
    using Cons.prems that unat_u8_lt [of c] by (auto simp: nth_list_update)
  then show ?case using Cons.IH [of "table[unat c := True]"] Cons.prems by auto
qed simp

lemma lookup_table_nth: "lookup_table s ! unat (c :: u8) \<longleftrightarrow> c \<in> set s"
  using lookup_table_fold [of "replicate 256 False" s] unat_u8_lt [of c]
  by (auto simp: lookup_table_def word_unat_eq_iff [symmetric])

lemma first_of_from_first:
  "first_position (\<lambda>i. i < length v \<and> v ! i \<in> set s) i (first_of_from (lookup_table s) v i)"
proof (induction "lookup_table s" v i rule: first_of_from.induct)
  case (1 v i)
  then show ?case
    by (subst first_of_from.simps)
      (auto simp: lookup_table_nth first_position_def dest: Suc_leI le_neq_implies_less)
qed

lemma last_of_from_last:
  "last_position (\<lambda>i. v ! i \<in> set s) n (last_of_from (lookup_table s) v (Suc n))"
  by (induction n) (auto simp: last_position_def lookup_table_nth le_Suc_eq)

section \<open>Trimming and replacement\<close>

lemma trim_start_drop: "drop (trim_start v start) v = dropWhile c_isspace (drop start v)"
proof (induction v start rule: trim_start.induct)
  case (1 v start)
  then show ?case by (subst trim_start.simps) (cases "start < length v"; simp add: drop_Cons_nth)
qed

lemma trim_start_le: "start \<le> length v \<Longrightarrow> trim_start v start \<le> length v"
proof (induction v start rule: trim_start.induct)
  case (1 v start)
  then show ?case by (subst trim_start.simps) auto
qed

lemma take_pred_snoc:
  assumes "start < n" and "n \<le> length v"
  shows "take (n - start) (drop start v) = take (n - 1 - start) (drop start v) @ [v ! (n - 1)]"
proof -
  have "n - start = Suc (n - 1 - start)" "n - 1 - start < length (drop start v)" using assms by auto
  then show ?thesis using assms by (simp add: take_Suc_conv_app_nth)
qed

lemma trim_end_take:
  "start \<le> n \<Longrightarrow> n \<le> length v \<Longrightarrow>
    take (trim_end v start n - start) (drop start v) =
      rev (dropWhile c_isspace (rev (take (n - start) (drop start v))))"
proof (induction v start n rule: trim_end.induct)
  case (1 v start n)
  show ?case
  proof (cases "start < n")
    case True
    then show ?thesis
      using 1 take_pred_snoc [OF True 1(3)] by (subst trim_end.simps) auto
  next
    case False
    then show ?thesis using 1 by (subst trim_end.simps) auto
  qed
qed

lemma trim_eq: "iree_string_view_trim v = rev (dropWhile c_isspace (rev (dropWhile c_isspace v)))"
proof -
  let ?s = "trim_start v 0"
  have "?s \<le> length v" by (rule trim_start_le) simp
  then have "take (trim_end v ?s (length v) - ?s) (drop ?s v) = rev (dropWhile c_isspace (rev (drop ?s v)))"
    using trim_end_take [of ?s "length v" v] by simp
  then show ?thesis
    using trim_start_drop [of v 0]
    by (simp add: iree_string_view_trim_def iree_string_view_is_empty_def Let_def)
qed

lemma trim_parts:
  "\<exists>pre post. v = pre @ iree_string_view_trim v @ post \<and> list_all c_isspace pre \<and> list_all c_isspace post"
proof -
  let ?w = "dropWhile c_isspace v"
  have "v = takeWhile c_isspace v @ ?w" by simp
  moreover have "?w = iree_string_view_trim v @ rev (takeWhile c_isspace (rev ?w))"
    unfolding trim_eq by (metis rev_append rev_rev_ident takeWhile_dropWhile_id)
  moreover have "list_all c_isspace (takeWhile c_isspace v)"
    "list_all c_isspace (rev (takeWhile c_isspace (rev ?w)))"
    by (auto simp: list_all_iff dest: set_takeWhileD)
  ultimately show ?thesis by metis
qed

lemma trim_ends:
  assumes "iree_string_view_trim v \<noteq> []"
  shows "\<not> c_isspace (hd (iree_string_view_trim v))" and "\<not> c_isspace (last (iree_string_view_trim v))"
proof -
  let ?w = "dropWhile c_isspace v" and ?t = "iree_string_view_trim v"
  have "?w = ?t @ rev (takeWhile c_isspace (rev ?w))"
    unfolding trim_eq by (metis rev_append rev_rev_ident takeWhile_dropWhile_id)
  then have "hd ?w = hd ?t" "?w \<noteq> []" using assms by (metis hd_append2, force)
  then show "\<not> c_isspace (hd ?t)" using hd_dropWhile [of c_isspace v] by simp
  show "\<not> c_isspace (last ?t)"
    using assms hd_dropWhile [of c_isspace "rev ?w"] unfolding trim_eq by (simp add: last_rev)
qed

lemma replace_char_from_eq:
  "replace_char_from p a b i = take i p @ map (\<lambda>c. if c = a then b else c) (drop i p)"
proof (induction p a b i rule: replace_char_from.induct)
  case (1 p a b i)
  show ?case
  proof (cases "i < length p")
    case True
    let ?p = "if p ! i = a then p[i := b] else p"
    have "replace_char_from p a b i = take (Suc i) ?p @ map (\<lambda>c. if c = a then b else c) (drop (Suc i) ?p)"
      using 1 True by (subst replace_char_from.simps) simp
    also have "take (Suc i) ?p = take i p @ [if p ! i = a then b else p ! i]"
      using True by (auto simp: take_Suc_conv_app_nth)
    also have "drop (Suc i) ?p = drop (Suc i) p" by simp
    finally show ?thesis using True by (simp add: drop_Cons_nth)
  next
    case False
    then show ?thesis by (subst replace_char_from.simps) simp
  qed
qed

section \<open>Prefixes and suffixes\<close>

lemma starts_with_iff:
  assumes "0 \<notin> set prefix"
  shows "iree_string_view_starts_with v prefix \<longleftrightarrow> prefix \<noteq> [] \<and> (\<exists>rest. v = prefix @ rest)"
proof (cases "length prefix \<le> length v")
  case True
  have "take (length prefix) v = prefix \<longleftrightarrow> (\<exists>rest. v = prefix @ rest)"
    by (metis append_eq_conv_conj append_take_drop_id)
  then show ?thesis
    using True assms strncmp_zero_iff [of "length prefix" v prefix]
    by (auto simp: iree_string_view_starts_with_def)
qed (auto simp: iree_string_view_starts_with_def)

lemma ends_with_iff:
  assumes "0 \<notin> set suffix"
  shows "iree_string_view_ends_with v suffix \<longleftrightarrow> suffix \<noteq> [] \<and> (\<exists>rest. v = rest @ suffix)"
proof (cases "length suffix \<le> length v")
  case True
  have "drop (length v - length suffix) v = suffix \<longleftrightarrow> (\<exists>rest. v = rest @ suffix)"
    by (metis append_eq_append_conv append_take_drop_id length_drop True diff_diff_cancel)
  then show ?thesis
    using True assms strncmp_zero_iff [of "length suffix" "drop (length v - length suffix) v" suffix]
    by (auto simp: iree_string_view_ends_with_def)
qed (auto simp: iree_string_view_ends_with_def)

lemma consume_suffix_append:
  assumes "0 \<notin> set suffix" and "suffix \<noteq> []"
  shows "iree_string_view_consume_suffix (v @ suffix) suffix = (True, v)"
  using ends_with_iff [OF assms(1), of "v @ suffix"] assms(2)
  by (auto simp: iree_string_view_consume_suffix_def iree_string_view_remove_suffix_def
      iree_string_view_empty_def)

lemma consume_suffix_other:
  "\<not> iree_string_view_ends_with v suffix \<Longrightarrow> iree_string_view_consume_suffix v suffix = (False, v)"
  by (simp add: iree_string_view_consume_suffix_def)

section \<open>Wildcard patterns\<close>

text \<open>What a pattern means: a star stands for any bytes, a question mark for one, the rest for itself.\<close>

inductive wildcard :: "u8 list \<Rightarrow> u8 list \<Rightarrow> bool" where
  wildcard_nil: "wildcard [] []"
| wildcard_star: "wildcard p v \<Longrightarrow> wildcard (star_char # p) (w @ v)"
| wildcard_any: "wildcard p v \<Longrightarrow> wildcard (any_char # p) (c # v)"
| wildcard_char: "c \<noteq> star_char \<Longrightarrow> wildcard p v \<Longrightarrow> wildcard (c # p) (c # v)"

inductive_simps wildcard_Nil_iff: "wildcard [] v"
inductive_simps wildcard_Cons_iff: "wildcard (a # p) v"

lemma wildcard_star_iff: "wildcard (star_char # p) v \<longleftrightarrow> (\<exists>k\<le>length v. wildcard p (drop k v))"
proof
  assume "wildcard (star_char # p) v"
  then obtain w u where "v = w @ u" "wildcard p u" by (auto simp: wildcard_Cons_iff)
  then show "\<exists>k\<le>length v. wildcard p (drop k v)" by (intro exI [of _ "length w"]) simp
next
  assume "\<exists>k\<le>length v. wildcard p (drop k v)"
  then obtain k where "wildcard p (drop k v)" by blast
  then have "wildcard (star_char # p) (take k v @ drop k v)" by (rule wildcard_star)
  then show "wildcard (star_char # p) v" by simp
qed

lemma wildcard_plain_iff:
  assumes "a \<noteq> star_char"
  shows "wildcard (a # p) v \<longleftrightarrow> v \<noteq> [] \<and> (a = any_char \<or> a = hd v) \<and> wildcard p (tl v)"
  using assms by (cases v) (auto simp: wildcard_Cons_iff)

text \<open>A star-free segment consumes exactly its length.\<close>

lemma wildcard_segment:
  "star_char \<notin> set seg \<Longrightarrow> wildcard (seg @ p) v \<Longrightarrow> length seg \<le> length v \<and> wildcard p (drop (length seg) v)"
proof (induction seg arbitrary: v)
  case (Cons a seg)
  then have "v \<noteq> []" "wildcard (seg @ p) (tl v)" by (auto simp: wildcard_plain_iff)
  then show ?case using Cons.IH [of "tl v"] Cons.prems(1) by (cases v) auto
qed simp

lemma wildcard_empty_iff: "wildcard p [] \<longleftrightarrow> skip_stars p = length p"
proof (induction p)
  case (Cons a p)
  then show ?case by (cases "a = star_char") (auto simp: wildcard_star_iff wildcard_plain_iff)
qed (simp add: wildcard_Nil_iff)

text \<open>
  The invariant of the loop: the pattern between the last star and the current position is star-free
  and as long as the value bytes already matched against it.
\<close>

definition star_segment :: "u8 list \<Rightarrow> nat option \<Rightarrow> nat \<Rightarrow> nat \<Rightarrow> nat \<Rightarrow> bool" where
  "star_segment p star sv vp pp \<longleftrightarrow>
     (case star of
        None \<Rightarrow> True
      | Some s \<Rightarrow> s < pp \<and> sv \<le> vp \<and> vp - sv = pp - Suc s \<and> pp \<le> length p \<and>
          star_char \<notin> set (take (pp - Suc s) (drop (Suc s) p)))"

text \<open>What remains to be matched: from the current position, or from a longer extension of the star.\<close>

definition remaining_match :: "u8 list \<Rightarrow> u8 list \<Rightarrow> nat \<Rightarrow> nat \<Rightarrow> nat option \<Rightarrow> nat \<Rightarrow> bool" where
  "remaining_match v p vp pp star sv \<longleftrightarrow>
     wildcard (drop pp p) (drop vp v) \<or>
     (\<exists>s. star = Some s \<and> (\<exists>k. sv < k \<and> k \<le> length v \<and> wildcard (drop (Suc s) p) (drop k v)))"

lemma segment_split:
  assumes "star_segment p (Some s) sv vp pp"
  shows "drop (Suc s) p = take (pp - Suc s) (drop (Suc s) p) @ drop pp p"
    and "length (take (pp - Suc s) (drop (Suc s) p)) = vp - sv"
  using assms append_take_drop_id [of "pp - Suc s" "drop (Suc s) p"]
  by (auto simp: star_segment_def)

lemma later_extension:
  assumes seg: "star_segment p (Some s) sv vp pp" and k: "sv < k" "wildcard (drop (Suc s) p) (drop k v)"
  shows "vp - sv \<le> length v - k" and "wildcard (drop pp p) (drop (k + (vp - sv)) v)"
proof -
  let ?seg = "take (pp - Suc s) (drop (Suc s) p)"
  have free: "star_char \<notin> set ?seg" using seg by (simp add: star_segment_def)
  have "wildcard (?seg @ drop pp p) (drop k v)" using k(2) segment_split(1) [OF seg] by simp
  from wildcard_segment [OF free this] segment_split(2) [OF seg]
  show "vp - sv \<le> length v - k" and "wildcard (drop pp p) (drop (k + (vp - sv)) v)"
    by (auto simp: add.commute)
qed

lemma remaining_match_done:
  assumes "star_segment p star sv (length v) pp"
  shows "remaining_match v p (length v) pp star sv \<longleftrightarrow> wildcard (drop pp p) []"
proof -
  have False if "star = Some s" "sv < k" "k \<le> length v" "wildcard (drop (Suc s) p) (drop k v)" for s k
    using later_extension(1) [of p s sv "length v" pp k v] assms that by (auto simp: star_segment_def)
  then show ?thesis by (auto simp: remaining_match_def)
qed

lemma wildcard_star_from:
  assumes "vp \<le> length v"
  shows "wildcard (star_char # p) (drop vp v) \<longleftrightarrow> (\<exists>k\<ge>vp. k \<le> length v \<and> wildcard p (drop k v))"
proof -
  have "(\<exists>k\<le>length v - vp. wildcard p (drop (k + vp) v)) \<longleftrightarrow>
      (\<exists>k\<ge>vp. k \<le> length v \<and> wildcard p (drop k v))"
    using assms by (metis add_diff_cancel_right' diff_le_mono le_add2 le_add_diff_inverse2 le_diff_conv2)
  then show ?thesis by (simp add: wildcard_star_iff)
qed

lemma remaining_match_star:
  assumes "vp < length v" and "pp < length p" and "p ! pp = star_char" and seg: "star_segment p star sv vp pp"
  shows "remaining_match v p vp pp star sv \<longleftrightarrow> remaining_match v p vp (Suc pp) (Some pp) vp"
proof -
  have d: "drop pp p = star_char # drop (Suc pp) p" using assms by (simp add: drop_Cons_nth)
  have star: "wildcard (drop pp p) (drop vp v) \<longleftrightarrow> remaining_match v p vp (Suc pp) (Some pp) vp"
    unfolding d using assms(1)
    by (auto simp: wildcard_star_from remaining_match_def le_eq_less_or_eq)
  have "wildcard (drop pp p) (drop vp v)"
    if k: "star = Some s" "sv < k" "k \<le> length v" and m: "wildcard (drop (Suc s) p) (drop k v)" for s k
  proof -
    have seg': "star_segment p (Some s) sv vp pp" using seg k by simp
    note L = later_extension [OF seg' k(2) m]
    then obtain j where "k + (vp - sv) \<le> j" "j \<le> length v" "wildcard (drop (Suc pp) p) (drop j v)"
      using k(3) unfolding d by (subst (asm) wildcard_star_from) auto
    moreover have "vp \<le> k + (vp - sv)" using k(2) by auto
    ultimately show ?thesis unfolding d using assms(1)
      by (subst wildcard_star_from) (auto intro: exI [of _ j])
  qed
  then show ?thesis using star by (auto simp: remaining_match_def)
qed

lemma star_segment_step:
  assumes "star_segment p star sv vp pp" and "pp < length p" and "p ! pp \<noteq> star_char"
  shows "star_segment p star sv (Suc vp) (Suc pp)"
proof (cases star)
  case (Some s)
  with assms have "s < pp" by (simp add: star_segment_def)
  then have "Suc pp - Suc s = Suc (pp - Suc s)" by simp
  then show ?thesis using assms Some by (auto simp: star_segment_def take_Suc_nth)
qed (simp add: star_segment_def)

lemma remaining_match_step:
  assumes "vp < length v" and "pp < length p" and "p ! pp \<noteq> star_char"
    and "p ! pp = any_char \<or> p ! pp = v ! vp"
  shows "remaining_match v p vp pp star sv \<longleftrightarrow> remaining_match v p (Suc vp) (Suc pp) star sv"
proof -
  have "wildcard (drop pp p) (drop vp v) \<longleftrightarrow> wildcard (drop (Suc pp) p) (drop (Suc vp) v)"
    unfolding drop_Cons_nth [OF assms(1)] drop_Cons_nth [OF assms(2)]
    using assms(4) by (subst wildcard_plain_iff [OF assms(3)]) auto
  then show ?thesis by (simp add: remaining_match_def)
qed

lemma remaining_match_fail:
  assumes "vp < length v" and "\<not> (pp < length p \<and> p ! pp = star_char)"
    and "\<not> (pp < length p \<and> (p ! pp = any_char \<or> p ! pp = v ! vp))"
  shows "\<not> wildcard (drop pp p) (drop vp v)"
proof (cases "pp < length p")
  case True
  with assms have "p ! pp \<noteq> star_char" by simp
  then show ?thesis
    unfolding drop_Cons_nth [OF assms(1)] drop_Cons_nth [OF True]
    using assms(3) True by (subst wildcard_plain_iff) auto
next
  case False
  then show ?thesis using assms(1) by (simp add: wildcard_Nil_iff)
qed

lemma remaining_match_retry:
  assumes "vp < length v" and "\<not> (pp < length p \<and> p ! pp = star_char)"
    and "\<not> (pp < length p \<and> (p ! pp = any_char \<or> p ! pp = v ! vp))" and "sv < length v"
  shows "remaining_match v p vp pp (Some s) sv \<longleftrightarrow> remaining_match v p (Suc sv) (Suc s) (Some s) (Suc sv)"
proof -
  have "(\<exists>k. sv < k \<and> k \<le> length v \<and> P k) \<longleftrightarrow> P (Suc sv) \<or> (\<exists>k. Suc sv < k \<and> k \<le> length v \<and> P k)" for P
    using assms(4) by (metis Suc_leI Suc_lessD lessI less_Suc_eq not_less_eq)
  then show ?thesis using remaining_match_fail [OF assms(1-3)] by (simp add: remaining_match_def)
qed

lemma match_loop_eq:
  assumes "vp \<le> length v" and "pp \<le> length p" and "star_segment p star sv vp pp"
  shows "match_loop v p vp pp star sv \<longleftrightarrow> remaining_match v p vp pp star sv"
  using assms
proof (induction v p vp pp star sv rule: match_loop.induct)
  case (1 v p vp pp star sv)
  consider (finished) "vp = length v"
    | (at_star) "vp < length v" "pp < length p" "p ! pp = star_char"
    | (step) "vp < length v" "pp < length p" "p ! pp \<noteq> star_char" "p ! pp = any_char \<or> p ! pp = v ! vp"
    | (fail) "vp < length v" "\<not> (pp < length p \<and> p ! pp = star_char)"
        "\<not> (pp < length p \<and> (p ! pp = any_char \<or> p ! pp = v ! vp))"
    using 1(4) by linarith
  then show ?case
  proof cases
    case finished
    then show ?thesis using remaining_match_done [of p star sv v pp] 1(5,6) wildcard_empty_iff [of "drop pp p"]
      by (subst match_loop.simps) auto
  next
    case at_star
    then show ?thesis
      using 1(1) [OF at_star(1)] remaining_match_star [OF at_star 1(6)] at_star by (subst match_loop.simps) (simp add: star_segment_def)
  next
    case step
    have "match_loop v p vp pp star sv = match_loop v p (Suc vp) (Suc pp) star sv"
      using step by (subst match_loop.simps) simp
    then show ?thesis
      using 1(2) step star_segment_step [OF 1(6)] remaining_match_step [OF step] by simp
  next
    case fail
    have *: "match_loop v p vp pp star sv = (case star of None \<Rightarrow> False
        | Some s \<Rightarrow> match_loop v p (Suc sv) (Suc s) star (Suc sv))"
      using fail by (subst match_loop.simps) auto
    show ?thesis
    proof (cases star)
      case None
      then show ?thesis using * remaining_match_fail [OF fail] by (simp add: remaining_match_def)
    next
      case (Some s)
      then show ?thesis
        using * 1(3) [OF fail(1) fail(2) fail(3) Some] remaining_match_retry [OF fail] 1(5,6) fail(1)
        by (auto simp: star_segment_def)
    qed
  qed
qed

end
