(* ===== verification/String_View_Properties.thy ===== *)
theory String_View_Properties
  imports String_View_Laws
begin

text \<open>
  What the string-view operations guarantee: wildcard matching decides the declarative pattern meaning,
  searches return first and last positions, affixes and splits take a text apart without loss, comparison
  is the lexicographic order, and copies are terminated and bounded.
\<close>

text \<open>
  C29. Wildcard matching with a single remembered star decides exactly whether the value is an instance
  of the pattern, where a star stands for any bytes and a question mark for one byte.
\<close>

theorem match_pattern_correct: "iree_string_view_match_pattern v p \<longleftrightarrow> wildcard p v"
  unfolding iree_string_view_match_pattern_def
  using match_loop_eq [of 0 v 0 p None 0] by (simp add: star_segment_def remaining_match_def)

text \<open>
  C35. The searches return the first position from the start position on, for a substring and for a set
  of characters, and the last position up to the start position for a set of characters; the not-found
  value means that there is none.
\<close>

theorem search_correct:
  "first_position (occurs_at v needle) pos (iree_string_view_find v needle pos) \<and>
   first_position (\<lambda>i. i < length v \<and> v ! i \<in> set s) pos (iree_string_view_find_first_of v s pos) \<and>
   last_position (\<lambda>i. i < length v \<and> v ! i \<in> set s) pos (iree_string_view_find_last_of v s pos)"
proof (intro conjI)
  show "first_position (occurs_at v needle) pos (iree_string_view_find v needle pos)"
    by (rule find_first)
next
  show "first_position (\<lambda>i. i < length v \<and> v ! i \<in> set s) pos (iree_string_view_find_first_of v s pos)"
  proof (cases "v = [] \<or> s = []")
    case True
    then show ?thesis
      by (auto simp: iree_string_view_find_first_of_def iree_string_view_is_empty_def first_position_def)
  next
    case False
    then show ?thesis
      using find_char_first [of v "hd s" pos] first_of_from_first [of v s pos]
      by (cases s) (auto simp: iree_string_view_find_first_of_def iree_string_view_is_empty_def)
  qed
next
  let ?n = "min pos (length v - 1)"
  show "last_position (\<lambda>i. i < length v \<and> v ! i \<in> set s) pos (iree_string_view_find_last_of v s pos)"
  proof (cases "v = [] \<or> s = []")
    case True
    then show ?thesis
      by (auto simp: iree_string_view_find_last_of_def iree_string_view_is_empty_def last_position_def)
  next
    case False
    then have "length v > 0" by simp
    with False have "last_position (\<lambda>i. v ! i \<in> set s) ?n (iree_string_view_find_last_of v s pos)"
      using last_of_from_last [of v s ?n]
      by (simp add: iree_string_view_find_last_of_def iree_string_view_is_empty_def)
    moreover have "i \<le> pos \<and> i < length v \<longleftrightarrow> i \<le> ?n" for i
      using \<open>length v > 0\<close> by (cases "length v") auto
    ultimately show ?thesis unfolding last_position_def by (metis linorder_not_le min.bounded_iff)
  qed
qed

text \<open>
  Splitting at a character takes the text apart at its first occurrence without losing a byte; when
  the character does not occur the whole text is the left part.
\<close>

theorem split_correct:
  "iree_string_view_split v c = (offset, lhs, rhs) \<Longrightarrow>
    (c \<in> set v \<longrightarrow> v = lhs @ [c] @ rhs \<and> c \<notin> set lhs \<and> offset = int (length lhs)) \<and>
    (c \<notin> set v \<longrightarrow> lhs = v \<and> rhs = [] \<and> offset = - 1)"
proof -
  assume split: "iree_string_view_split v c = (offset, lhs, rhs)"
  show ?thesis
  proof (cases "memchr v c")
    case None
    then have "c \<notin> set v" by (simp add: memchr_None_iff)
    with split None show ?thesis
      by (auto simp: iree_string_view_split_def iree_string_view_empty_def split: if_splits)
  next
    case (Some k)
    then have k: "k < length v" "v ! k = c" "c \<notin> set (take k v)" by (auto simp: memchr_Some_iff)
    with Some split have parts: "offset = int k" "lhs = take k v" "rhs = drop (Suc k) v"
      by (auto simp: iree_string_view_split_def split: if_splits)
    then show ?thesis
      using k id_take_nth_drop [OF k(1)] nth_mem [OF k(1)] by auto
  qed
qed

theorem split_correct_witness:
  "iree_string_view_split (IREE_SV ''a=b=c'') (of_char CHR ''='') = (1, IREE_SV ''a'', IREE_SV ''b=c'') \<and>
   IREE_SV ''a=b=c'' = IREE_SV ''a'' @ [of_char CHR ''=''] @ IREE_SV ''b=c''"
proof -
  have s: "iree_string_view_split (IREE_SV ''a=b=c'') (of_char CHR ''='') = (1, IREE_SV ''a'', IREE_SV ''b=c'')"
    by (simp add: iree_string_view_split_def)
  show ?thesis using split_correct [OF s] s by simp
qed



text \<open>
  C37. On texts without NUL bytes the three-way comparison is the lexicographic order of the bytes: zero
  exactly for equal texts, negative exactly when the left one comes first. Case-insensitive equality is
  equality after mapping upper-case ASCII letters to lower case.
\<close>

theorem compare_lexicographic:
  assumes "0 \<notin> set rhs"
  shows "iree_string_view_compare lhs rhs =
      (if lhs = rhs then 0 else if ord_class.lexordp lhs rhs then - 1 else 1) \<and>
    (iree_string_view_equal lhs rhs \<longleftrightarrow> iree_string_view_compare lhs rhs = 0) \<and>
    (iree_string_view_equal_case lhs rhs' \<longleftrightarrow> map iree_tolower lhs = map iree_tolower rhs')"
proof -
  have min: "iree_min_host_size a b = min a b" for a b by (simp add: iree_min_host_size_def)
  have cmp: "iree_string_view_compare lhs rhs =
      (if lhs = rhs then 0 else if ord_class.lexordp lhs rhs then - 1 else 1)"
    using strncmp_lexordp [OF assms, of lhs] by (auto simp: iree_string_view_compare_def Let_def min)
  moreover have "iree_string_view_equal lhs rhs \<longleftrightarrow> lhs = rhs"
    by (auto simp: iree_string_view_equal_def)
  moreover have "iree_string_view_equal_case lhs rhs' \<longleftrightarrow> map iree_tolower lhs = map iree_tolower rhs'"
    using equal_case_from_iff [of lhs rhs'] map_eq_imp_length_eq [of iree_tolower lhs iree_tolower rhs']
    by (auto simp: iree_string_view_equal_case_def)
  ultimately show ?thesis by simp
qed

theorem compare_lexicographic_witness:
  "iree_string_view_compare (IREE_SV ''ab'') (IREE_SV ''abc'') = - 1"
  using compare_lexicographic [of "IREE_SV ''abc''" "IREE_SV ''ab''" "[]"] by simp

text \<open>
  With a NUL byte inside, the comparison stops there and only the lengths decide: two texts that differ
  after the NUL compare as equal although they are not.
\<close>

lemma compare_stops_at_nul:
  "iree_string_view_compare [0x61, 0, 0x62] [0x61, 0, 0x63] = 0 \<and>
   \<not> iree_string_view_equal [0x61, 0, 0x62] [0x61, 0, 0x63] \<and>
   iree_string_view_starts_with [0x61, 0, 0x62] [0x61, 0, 0x63]"
  by (simp add: iree_string_view_compare_def iree_min_host_size_def iree_string_view_equal_def
      iree_string_view_starts_with_def numeral_2_eq_2 numeral_3_eq_3)

text \<open>
  C40. Copying to a C string writes the text, truncated to leave room, followed by a NUL terminator
  within the given length, and leaves the rest of the buffer untouched; replacement maps every byte and
  a substring request is clipped to the text.
\<close>

theorem copies_bounded:
  assumes "0 < n" and "n \<le> length buffer"
  shows "iree_string_view_to_cstring v buffer n =
      take (n - 1) v @ [0] @ drop (Suc (min (length v) (n - 1))) buffer \<and>
    length (iree_string_view_to_cstring v buffer n) = length buffer \<and>
    iree_string_view_replace_char v a b = map (\<lambda>c. if c = a then b else c) v \<and>
    iree_string_view_substr v pos k = take k (drop pos v)"
proof -
  let ?len = "min (length v) (n - 1)"
  have len: "?len < length buffer" using assms by auto
  have "iree_string_view_to_cstring v buffer n = (take ?len v @ drop ?len buffer)[?len := 0]"
    using assms(1) by (auto simp: iree_string_view_to_cstring_def Let_def)
  also have "\<dots> = take ?len v @ (drop ?len buffer)[0 := 0]" by (simp add: list_update_append)
  also have "\<dots> = take ?len v @ [0] @ drop (Suc ?len) buffer" using len by (simp add: drop_Cons_nth)
  finally have copy: "iree_string_view_to_cstring v buffer n =
      take (n - 1) v @ [0] @ drop (Suc ?len) buffer" by (simp add: min_def)
  moreover have "length (take (n - 1) v @ [0] @ drop (Suc ?len) buffer) = length buffer"
    using len by auto
  moreover have "iree_string_view_substr v pos k = take k (drop pos v)"
    by (auto simp: iree_string_view_substr_def iree_string_view_is_empty_def iree_min_host_size_def Let_def)
  ultimately show ?thesis
    by (simp add: iree_string_view_replace_char_def replace_char_from_eq)
qed

theorem copies_bounded_witness:
  "iree_string_view_to_cstring (IREE_SV ''abcdef'') [9, 9, 9, 9, 9] 4 = [0x61, 0x62, 0x63, 0, 9]"
  using copies_bounded [of 4 "[9, 9, 9, 9, 9]" "IREE_SV ''abcdef''"] by simp

end
