(* ===== verification/Hex_Float.thy ===== *)
theory Hex_Float
  imports String_View
begin

text \<open>
  The hexadecimal floating-point parser of \<^verbatim>\<open>runtime/src/iree/base/string_view.c\<close>: saturating
  exponent arithmetic, the significand kept as its first 64 bits and a sticky flag, and the rounding to
  the bits of an IEEE binary32 or binary64 value.

  \<^verbatim>\<open>int64_t\<close> values are integers with the saturation written out, since none of their operations may
  overflow; bit patterns and the unsigned shift amounts are 64-bit words. Loops over a position consume
  the rest of the text instead.
\<close>

definition INT64_MAX :: int where
  "INT64_MAX = 9223372036854775807"

definition INT64_MIN :: int where
  "INT64_MIN = - 9223372036854775808"

record iree_hex_float_t =
  is_negative :: bool
  prefix_bits :: u64
  prefix_bit_count :: nat
  total_bit_count :: int
  binary_exponent :: int
  has_trailing_one :: bool

definition zero_hex_float :: iree_hex_float_t where
  "zero_hex_float = \<lparr>is_negative = False, prefix_bits = 0, prefix_bit_count = 0, total_bit_count = 0,
     binary_exponent = 0, has_trailing_one = False\<rparr>"

section \<open>Saturating arithmetic\<close>

definition iree_saturating_add_int64 :: "int \<Rightarrow> int \<Rightarrow> int" where
  "iree_saturating_add_int64 lhs rhs =
     (if rhs > 0 \<and> lhs > INT64_MAX - rhs then INT64_MAX
      else if rhs < 0 \<and> lhs < INT64_MIN - rhs then INT64_MIN
      else lhs + rhs)"

definition iree_saturating_sub_int64 :: "int \<Rightarrow> int \<Rightarrow> int" where
  "iree_saturating_sub_int64 lhs rhs =
     (if rhs = INT64_MIN then (if lhs \<ge> 0 then INT64_MAX else INT64_MAX + lhs + 1)
      else iree_saturating_add_int64 lhs (- rhs))"

section \<open>Digits of the significand\<close>

definition iree_hex_digit_value :: "u8 \<Rightarrow> int" where
  "iree_hex_digit_value c =
     (if c \<ge> 0x30 \<and> c \<le> 0x39 then uint c - 0x30
      else let c = iree_tolower c in if c \<ge> 0x61 \<and> c \<le> 0x66 then uint c - 0x61 + 10 else - 1)"

definition iree_hex_float_append_significand_bits ::
  "u64 \<Rightarrow> nat \<Rightarrow> iree_hex_float_t \<Rightarrow> iree_hex_float_t" where
  "iree_hex_float_append_significand_bits bits bit_count parsed =
     (let parsed = parsed\<lparr>total_bit_count := iree_saturating_add_int64 (total_bit_count parsed) (int bit_count)\<rparr>
      in if prefix_bit_count parsed = 64
         then parsed\<lparr>has_trailing_one := has_trailing_one parsed \<or> bits \<noteq> 0\<rparr>
         else let available_bit_count = 64 - prefix_bit_count parsed;
                  appended_bit_count = (if bit_count < available_bit_count then bit_count else available_bit_count);
                  parsed = parsed\<lparr>prefix_bits := push_bit appended_bit_count (prefix_bits parsed) OR
                                      drop_bit (bit_count - appended_bit_count) bits,
                                   prefix_bit_count := prefix_bit_count parsed + appended_bit_count\<rparr>
              in if appended_bit_count < bit_count
                 then parsed\<lparr>has_trailing_one := has_trailing_one parsed \<or>
                        bits AND (push_bit (bit_count - appended_bit_count) 1 - 1) \<noteq> 0\<rparr>
                 else parsed)"

text \<open>The loop that finds the leading bit of the first nonzero digit.\<close>

fun first_bit_count :: "u64 \<Rightarrow> nat \<Rightarrow> nat" where
  "first_bit_count digit (Suc n) = (if digit AND push_bit n 1 = 0 then first_bit_count digit n else Suc n)"
| "first_bit_count digit 0 = 0"

text \<open>
  The significand loop: the parsed bits, whether a digit was seen, the number of fractional digits and
  the rest of the text.
\<close>

fun parse_significand ::
  "u8 list \<Rightarrow> iree_hex_float_t \<Rightarrow> bool \<Rightarrow> bool \<Rightarrow> bool \<Rightarrow> int \<Rightarrow> iree_hex_float_t \<times> bool \<times> int \<times> u8 list" where
  "parse_significand (c # rest) parsed saw_digit saw_nonzero_digit saw_point fractional_nibble_count =
     (if c = 0x2E \<and> \<not> saw_point
      then parse_significand rest parsed saw_digit saw_nonzero_digit True fractional_nibble_count
      else let digit = iree_hex_digit_value c
           in if digit < 0 then (parsed, saw_digit, fractional_nibble_count, c # rest)
              else let fractional_nibble_count =
                         (if saw_point then fractional_nibble_count + 1 else fractional_nibble_count)
                   in if \<not> saw_nonzero_digit
                      then if digit = 0
                           then parse_significand rest parsed True False saw_point fractional_nibble_count
                           else parse_significand rest
                                  (iree_hex_float_append_significand_bits (word_of_int digit)
                                     (first_bit_count (word_of_int digit) 4) parsed)
                                  True True saw_point fractional_nibble_count
                      else parse_significand rest
                             (iree_hex_float_append_significand_bits (word_of_int digit) 4 parsed)
                             True True saw_point fractional_nibble_count)"
| "parse_significand [] parsed saw_digit saw_nonzero_digit saw_point fractional_nibble_count =
     (parsed, saw_digit, fractional_nibble_count, [])"

section \<open>Exponent\<close>

fun parse_exponent_digits :: "u8 list \<Rightarrow> int \<Rightarrow> int \<times> u8 list" where
  "parse_exponent_digits (c # rest) explicit_exponent =
     (if c \<ge> 0x30 \<and> c \<le> 0x39
      then let digit = uint c - 0x30
           in parse_exponent_digits rest
                (if explicit_exponent > (INT64_MAX - digit) div 10 then INT64_MAX
                 else explicit_exponent * 10 + digit)
      else (explicit_exponent, c # rest))"
| "parse_exponent_digits [] explicit_exponent = (explicit_exponent, [])"

text \<open>
  The parser returns the parsed value, or nothing where the code returns false. Its parts are the
  exponent after the \<^verbatim>\<open>p\<close>, the text after the optional sign, and the whole.
\<close>

definition parse_hex_exponent :: "u8 list \<Rightarrow> int \<Rightarrow> iree_hex_float_t \<Rightarrow> iree_hex_float_t option" where
  "parse_hex_exponent text fractional_nibble_count parsed =
     (let (exponent_is_negative, text) =
            (case text of
               c # rest \<Rightarrow> if c = 0x2B \<or> c = 0x2D then (c = 0x2D, rest) else (False, text)
             | [] \<Rightarrow> (False, text))
      in if length text = 0 \<or> text ! 0 < 0x30 \<or> text ! 0 > 0x39 then None
         else let (explicit_exponent, text) = parse_exponent_digits text 0
              in if length text \<noteq> 0 then None
                 else let explicit_exponent =
                            (if exponent_is_negative
                             then (if explicit_exponent = INT64_MAX then INT64_MIN else - explicit_exponent)
                             else explicit_exponent)
                      in Some (parsed\<lparr>binary_exponent :=
                           iree_saturating_sub_int64 explicit_exponent (fractional_nibble_count * 4)\<rparr>))"

definition parse_hex_unsigned :: "u8 list \<Rightarrow> iree_hex_float_t \<Rightarrow> iree_hex_float_t option" where
  "parse_hex_unsigned text parsed =
     (if 2 > length text \<or> text ! 0 \<noteq> 0x30 \<or> iree_tolower (text ! 1) \<noteq> 0x78 then None
      else let (parsed, saw_digit, fractional_nibble_count, text) =
                 parse_significand (drop 2 text) parsed False False False 0
           in if \<not> saw_digit \<or> length text = 0 \<or> (text ! 0 \<noteq> 0x70 \<and> text ! 0 \<noteq> 0x50) then None
              else parse_hex_exponent (drop 1 text) fractional_nibble_count parsed)"

definition iree_string_view_parse_hex_float :: "iree_string_view_t \<Rightarrow> iree_hex_float_t option" where
  "iree_string_view_parse_hex_float text =
     (if iree_string_view_is_empty text then None
      else if int (length text) > INT64_MAX div 4 then None
      else let has_sign = (text ! 0 = 0x2B \<or> text ! 0 = 0x2D);
               parsed = (if has_sign then zero_hex_float\<lparr>is_negative := (text ! 0 = 0x2D)\<rparr> else zero_hex_float);
               text = (if has_sign then drop 1 text else text)
           in if has_sign \<and> length text = 0 then None
              else parse_hex_unsigned text parsed)"

section \<open>Rounding\<close>

definition iree_hex_float_prefix :: "iree_hex_float_t \<Rightarrow> nat \<Rightarrow> u64" where
  "iree_hex_float_prefix parsed bit_count =
     (if bit_count = 0 then 0 else drop_bit (prefix_bit_count parsed - bit_count) (prefix_bits parsed))"

definition iree_hex_float_bit :: "iree_hex_float_t \<Rightarrow> nat \<Rightarrow> bool" where
  "iree_hex_float_bit parsed bit_position \<longleftrightarrow>
     drop_bit (prefix_bit_count parsed - bit_position - 1) (prefix_bits parsed) AND 1 \<noteq> 0"

definition iree_hex_float_has_one_after :: "iree_hex_float_t \<Rightarrow> nat \<Rightarrow> bool" where
  "iree_hex_float_has_one_after parsed bit_position =
     (let remaining_prefix_bit_count = prefix_bit_count parsed - bit_position - 1
      in if remaining_prefix_bit_count \<noteq> 0 \<and>
            prefix_bits parsed AND (push_bit remaining_prefix_bit_count 1 - 1) \<noteq> 0
         then True else has_trailing_one parsed)"

definition iree_hex_float_shift_left :: "iree_hex_float_t \<Rightarrow> nat \<Rightarrow> u64" where
  "iree_hex_float_shift_left parsed left_shift = push_bit left_shift (prefix_bits parsed)"

definition iree_hex_float_round_right :: "iree_hex_float_t \<Rightarrow> u64 \<Rightarrow> u64" where
  "iree_hex_float_round_right parsed right_shift =
     (if right_shift > word_of_int (total_bit_count parsed) then 0
      else let quotient_bit_count = unat (word_of_int (total_bit_count parsed) - right_shift);
               quotient = iree_hex_float_prefix parsed quotient_bit_count;
               round_bit = iree_hex_float_bit parsed quotient_bit_count;
               sticky = iree_hex_float_has_one_after parsed quotient_bit_count
           in if round_bit \<and> (sticky \<or> quotient AND 1 \<noteq> 0) then quotient + 1 else quotient)"

definition iree_hex_float_to_ieee_bits ::
  "iree_hex_float_t \<Rightarrow> nat \<Rightarrow> int \<Rightarrow> int \<Rightarrow> int \<Rightarrow> nat \<Rightarrow> u64" where
  "iree_hex_float_to_ieee_bits parsed precision minimum_exponent maximum_exponent exponent_bias sign_bit_position =
     (let sign = (if is_negative parsed then push_bit sign_bit_position 1 else 0)
      in if total_bit_count parsed = 0 then sign
         else let exponent = iree_saturating_add_int64 (binary_exponent parsed) (total_bit_count parsed - 1);
                  infinity_exponent = word_of_int (maximum_exponent + exponent_bias + 1)
              in if exponent > maximum_exponent then sign OR push_bit (precision - 1) infinity_exponent
                 else if exponent \<ge> minimum_exponent
                 then let significand =
                            (if total_bit_count parsed \<le> int precision
                             then iree_hex_float_shift_left parsed (precision - nat (total_bit_count parsed))
                             else iree_hex_float_round_right parsed
                                    (word_of_int (total_bit_count parsed) - word_of_nat precision));
                          carry = (significand = push_bit precision 1);
                          significand = (if carry then drop_bit 1 significand else significand);
                          exponent = (if carry then exponent + 1 else exponent)
                      in if carry \<and> exponent > maximum_exponent
                         then sign OR push_bit (precision - 1) infinity_exponent
                         else sign OR push_bit (precision - 1) (word_of_int (exponent + exponent_bias)) OR
                              (significand AND (push_bit (precision - 1) 1 - 1))
                 else let exponent_delta = word_of_int (iree_saturating_sub_int64 minimum_exponent exponent) :: u64;
                          scaled_bit_count = word_of_int (total_bit_count parsed) + exponent_delta;
                          fraction =
                            (if scaled_bit_count \<le> word_of_nat precision
                             then iree_hex_float_shift_left parsed (unat (word_of_nat precision - scaled_bit_count))
                             else iree_hex_float_round_right parsed (scaled_bit_count - word_of_nat precision))
                      in if fraction = push_bit (precision - 1) 1 then sign OR push_bit (precision - 1) 1
                         else sign OR fraction)"

section \<open>Entry points\<close>

definition iree_string_view_is_hex_float :: "iree_string_view_t \<Rightarrow> bool" where
  "iree_string_view_is_hex_float text =
     (let text = (if length text \<noteq> 0 \<and> (text ! 0 = 0x2B \<or> text ! 0 = 0x2D) then drop 1 text else text)
      in 2 \<le> length text \<and> text ! 0 = 0x30 \<and> iree_tolower (text ! 1) = 0x78)"

text \<open>
  The results are the bits of the value, or nothing where the code returns false. Decimal spellings are
  converted by the C library: \<open>strtof\<close> and \<open>strtod\<close> are parameters that map a NUL-terminated buffer to the
  bits of the value and the number of characters consumed.
\<close>

definition iree_string_view_atof ::
  "(u8 list \<Rightarrow> u32 \<times> nat) \<Rightarrow> iree_string_view_t \<Rightarrow> u32 option" where
  "iree_string_view_atof strtof text =
     (let text = iree_string_view_trim text
      in if iree_string_view_is_hex_float text
         then (case iree_string_view_parse_hex_float text of
                 None \<Rightarrow> None
               | Some parsed \<Rightarrow> Some (ucast (iree_hex_float_to_ieee_bits parsed 24 (- 126) 127 127 31)))
         else if iree_string_view_is_empty text \<or> length text \<ge> 64 then None
         else let (parsed_value, consumed) = strtof (text @ replicate (64 - length text) 0)
              in if consumed = 0 \<or> consumed \<noteq> length text then None else Some parsed_value)"

definition iree_string_view_atod ::
  "(u8 list \<Rightarrow> u64 \<times> nat) \<Rightarrow> iree_string_view_t \<Rightarrow> u64 option" where
  "iree_string_view_atod strtod text =
     (let text = iree_string_view_trim text
      in if iree_string_view_is_hex_float text
         then (case iree_string_view_parse_hex_float text of
                 None \<Rightarrow> None
               | Some parsed \<Rightarrow> Some (iree_hex_float_to_ieee_bits parsed 53 (- 1022) 1023 1023 63))
         else if iree_string_view_is_empty text \<or> length text \<ge> 64 then None
         else let (parsed_value, consumed) = strtod (text @ replicate (64 - length text) 0)
              in if consumed = 0 \<or> consumed \<noteq> length text then None else Some parsed_value)"

end
