(* ===== verification/Hex_Float_Laws.thy ===== *)
theory Hex_Float_Laws
  imports Hex_Float Machine_Laws
begin

text \<open>
  The hexadecimal float parser against unbounded arithmetic: what a parsed significand stands for,
  rounding to nearest even as a function on naturals, and the reference conversion that the bit-level
  code implements for every format it is used with.
\<close>

section \<open>Words as naturals\<close>

lemma unat_push_bit: "unat w * 2 ^ k < 2 ^ 64 \<Longrightarrow> unat (push_bit k (w :: u64)) = unat w * 2 ^ k"
  by (simp only: unsigned_push_bit_eq) (simp add: push_bit_eq_mult take_bit_nat_eq_self)

lemma unat_low_bits: "k < 64 \<Longrightarrow> unat ((w :: u64) AND (push_bit k 1 - 1)) = unat w mod 2 ^ k"
proof -
  assume k: "k < 64"
  have "w AND (push_bit k 1 - 1) = take_bit k w"
    by (simp add: take_bit_eq_mask mask_eq_exp_minus_1)
  then show ?thesis using k by (simp only: unsigned_take_bit_eq) (simp add: take_bit_eq_mod)
qed

lemma low_bits_nonzero: "k < 64 \<Longrightarrow> (w :: u64) AND (push_bit k 1 - 1) \<noteq> 0 \<longleftrightarrow> unat w mod 2 ^ k \<noteq> 0"
  using unat_low_bits [of k w] by (metis unsigned_0 unsigned_eq_0_iff)

lemma odd_bit: "(w :: u64) AND 1 \<noteq> 0 \<longleftrightarrow> odd (unat w)"
  using bit_unat [of w 0] by (simp add: and_one_eq odd_iff_mod_2_eq_one [symmetric] flip: bit_0)

lemma shifted_or:
  assumes "unat b < 2 ^ k" and "unat a * 2 ^ k < 2 ^ 64"
  shows "unat (push_bit k (a :: u64) OR b) = unat a * 2 ^ k + unat b"
proof -
  have "push_bit k a AND b = 0"
  proof (rule bit_word_eqI)
    fix n
    have "\<not> bit b n" if "k \<le> n"
      using that assms(1) by (simp add: u64_bit_odd div_less less_le_trans)
    then show "bit (push_bit k a AND b) n \<longleftrightarrow> bit (0 :: u64) n" by (auto simp: bit_simps)
  qed
  then have "push_bit k a OR b = push_bit k a + b" by (simp add: disjunctive_add_eq_or)
  moreover have "unat a * 2 ^ k + unat b < 2 ^ 64"
  proof (cases "k \<le> 64")
    case True
    then have e: "(2 :: nat) ^ 64 = 2 ^ (64 - k) * 2 ^ k" by (simp flip: power_add)
    with assms(2) have "unat a < 2 ^ (64 - k)" by (metis mult_less_cancel2)
    then have "(unat a + 1) * 2 ^ k \<le> 2 ^ 64" unfolding e by (intro mult_le_mono1) simp
    with assms(1) show ?thesis by (simp add: algebra_simps)
  next
    case False
    then have "(2 :: nat) ^ 64 \<le> 2 ^ k" by (intro power_increasing) auto
    with assms(2) have "unat a = 0" by (cases "unat a") (auto simp: less_le_trans)
    then show ?thesis using unat_u64_lt [of b] by simp
  qed
  ultimately show ?thesis using unat_push_bit [OF assms(2)] by (simp add: unat_add_no_wrap)
qed

section \<open>Rounding to nearest even\<close>

definition round_nearest_even :: "nat \<Rightarrow> nat \<Rightarrow> nat" where
  "round_nearest_even n k =
     (let q = n div 2 ^ k; r = n mod 2 ^ k
      in if 2 * r > 2 ^ k \<or> (2 * r = 2 ^ k \<and> odd q) then q + 1 else q)"

lemma round_nearest_even_bits:
  assumes "0 < k"
  shows "round_nearest_even n k =
    (if odd (n div 2 ^ (k - 1)) \<and> (n mod 2 ^ (k - 1) \<noteq> 0 \<or> odd (n div 2 ^ k))
     then n div 2 ^ k + 1 else n div 2 ^ k)"
proof -
  obtain j where k: "k = Suc j" using assms by (cases k) auto
  let ?b = "n div 2 ^ j mod 2"
  have r: "n mod 2 ^ k = 2 ^ j * ?b + n mod 2 ^ j"
    unfolding k by (simp add: mod_mult2_eq power_Suc2 del: power_Suc)
  have lt: "n mod 2 ^ j < 2 ^ j" by simp
  show ?thesis
  proof (cases "odd (n div 2 ^ j)")
    case True
    then have "?b = 1" by (simp add: odd_iff_mod_2_eq_one)
    then show ?thesis using True r lt by (simp add: round_nearest_even_def Let_def k)
  next
    case False
    then have "?b = 0" by simp
    then show ?thesis using False r lt by (auto simp: round_nearest_even_def Let_def k simp del: mod_less_divisor)
  qed
qed

lemma round_nearest_even_small: "n < 2 ^ L \<Longrightarrow> L < k \<Longrightarrow> round_nearest_even n k = 0"
proof -
  assume n: "n < 2 ^ L" and "L < k"
  then have "2 * 2 ^ L \<le> (2 :: nat) ^ k" by (metis power_Suc power_increasing Suc_leI one_le_numeral)
  with n have "2 * n < 2 ^ k" by linarith
  then show ?thesis by (simp add: round_nearest_even_def)
qed

section \<open>What a parsed significand stands for\<close>

text \<open>
  The number of significant bits is exact; the first 64 of them are kept, and the flag says whether a
  bit is set in what was dropped.
\<close>

definition significand_of :: "iree_hex_float_t \<Rightarrow> nat \<Rightarrow> nat \<Rightarrow> bool" where
  "significand_of parsed n L \<longleftrightarrow>
     n < 2 ^ L \<and> (L = 0 \<or> 2 ^ (L - 1) \<le> n) \<and> total_bit_count parsed = int L \<and>
     prefix_bit_count parsed = min L 64 \<and>
     unat (prefix_bits parsed) = n div 2 ^ (L - 64) \<and>
     (has_trailing_one parsed \<longleftrightarrow> n mod 2 ^ (L - 64) \<noteq> 0)"

lemma significand_of_zero: "significand_of zero_hex_float 0 0"
  by (simp add: significand_of_def zero_hex_float_def)

lemma shifted_div: "d < 2 ^ k \<Longrightarrow> (n * 2 ^ k + d) div 2 ^ (m + k) = n div (2 :: nat) ^ m"
  by (simp add: power_add mult.commute [of "2 ^ m"] div_mult2_eq)

lemma shifted_mod: "d < 2 ^ k \<Longrightarrow> (n * 2 ^ k + d) mod 2 ^ (m + k) = n mod (2 :: nat) ^ m * 2 ^ k + d"
  by (simp add: power_add mult.commute [of "2 ^ m"] mod_mult2_eq)

lemma partial_div:
  assumes "a \<le> k"
  shows "(n * 2 ^ k + d) div 2 ^ (k - a) = n * 2 ^ a + d div (2 :: nat) ^ (k - a)"
    and "(n * 2 ^ k + d) mod 2 ^ (k - a) = d mod (2 :: nat) ^ (k - a)"
proof -
  have e: "n * 2 ^ k = n * 2 ^ a * 2 ^ (k - a)" using assms by (simp flip: power_add)
  show "(n * 2 ^ k + d) div 2 ^ (k - a) = n * 2 ^ a + d div (2 :: nat) ^ (k - a)" by (simp add: e)
  show "(n * 2 ^ k + d) mod 2 ^ (k - a) = d mod (2 :: nat) ^ (k - a)" by (simp add: e)
qed

lemma append_bounds:
  assumes "n < 2 ^ L" "L = 0 \<or> 2 ^ (L - 1) \<le> n" "d < 2 ^ k" "n = 0 \<longrightarrow> k = 0 \<or> 2 ^ (k - 1) \<le> d"
  shows "n * 2 ^ k + d < 2 ^ (L + k)" and "L + k = 0 \<or> 2 ^ (L + k - 1) \<le> n * 2 ^ k + (d :: nat)"
proof -
  have "(n + 1) * 2 ^ k \<le> 2 ^ L * 2 ^ k" using assms(1) by (intro mult_le_mono1) simp
  then show "n * 2 ^ k + d < 2 ^ (L + k)" using assms(3) by (simp add: power_add algebra_simps)
  show "L + k = 0 \<or> 2 ^ (L + k - 1) \<le> n * 2 ^ k + d"
  proof (cases L)
    case 0
    then show ?thesis using assms by auto
  next
    case (Suc l)
    then have "2 ^ l * 2 ^ k \<le> n * 2 ^ k" using assms(2) by simp
    then show ?thesis using Suc by (simp add: power_add trans_le_add1)
  qed
qed

lemma append_significand:
  assumes sig: "significand_of p n L" and d: "unat bits < 2 ^ k" and k: "k \<le> 4" and fits: "int (L + k) \<le> INT64_MAX"
    and first: "n = 0 \<longrightarrow> k = 0 \<or> 2 ^ (k - 1) \<le> unat bits"
  shows "significand_of (iree_hex_float_append_significand_bits bits k p) (n * 2 ^ k + unat bits) (L + k)"
proof -
  let ?d = "unat bits" and ?p = "iree_hex_float_append_significand_bits bits k p"
  have S: "n < 2 ^ L" "L = 0 \<or> 2 ^ (L - 1) \<le> n" "total_bit_count p = int L" "prefix_bit_count p = min L 64"
    "unat (prefix_bits p) = n div 2 ^ (L - 64)" "has_trailing_one p \<longleftrightarrow> n mod 2 ^ (L - 64) \<noteq> 0"
    using sig by (simp_all add: significand_of_def)
  have total: "iree_saturating_add_int64 (int L) (int k) = int (L + k)"
    using fits by (auto simp: iree_saturating_add_int64_def)
  show ?thesis
  proof (cases "64 \<le> L")
    case True
    then have e: "L + k - 64 = L - 64 + k" by simp
    have b: "bits \<noteq> 0 \<longleftrightarrow> ?d \<noteq> 0" by (simp add: unsigned_eq_0_iff)
    have p: "?p = p\<lparr>total_bit_count := int (L + k), has_trailing_one := has_trailing_one p \<or> ?d \<noteq> 0\<rparr>"
      using S(3,4) True by (simp add: iree_hex_float_append_significand_bits_def total b)
    show ?thesis
      unfolding significand_of_def e shifted_div [OF d] shifted_mod [OF d] p
      using append_bounds [OF S(1,2) d first] S True by simp
  next
    case False
    define a where "a = min k (64 - L)"
    have a: "a \<le> k" "L + a \<le> 64" "L + k - 64 = k - a" "min (L + k) 64 = L + a" "k - a < 64"
      using False k by (auto simp: a_def)
    have prefix: "unat (push_bit a (prefix_bits p) OR drop_bit (k - a) bits) = n * 2 ^ a + ?d div 2 ^ (k - a)"
    proof (subst shifted_or)
      have "?d < 2 ^ a * 2 ^ (k - a)" using d a(1) by (simp flip: power_add)
      then show "unat (drop_bit (k - a) bits) < 2 ^ a"
        by (simp add: unat_drop_bit less_mult_imp_div_less)
      have "n * 2 ^ a < 2 ^ L * 2 ^ a" using S(1) by simp
      also have "\<dots> \<le> 2 ^ 64"
        using power_increasing [OF a(2), of "2 :: nat"] by (simp flip: power_add)
      finally show "unat (prefix_bits p) * 2 ^ a < 2 ^ 64" using S(5) False by simp
    qed (use S(5) False in \<open>simp add: unat_drop_bit\<close>)
    have sticky: "bits AND (push_bit (k - a) 1 - 1) \<noteq> 0 \<longleftrightarrow> ?d mod 2 ^ (k - a) \<noteq> 0"
      by (rule low_bits_nonzero [OF a(5)])
    have p: "?p = p\<lparr>total_bit_count := int (L + k), prefix_bits := push_bit a (prefix_bits p) OR drop_bit (k - a) bits,
        prefix_bit_count := L + a, has_trailing_one := ?d mod 2 ^ (k - a) \<noteq> 0\<rparr>"
    proof -
      have sel: "(if k < 64 - L then k else 64 - L) = a" by (simp add: a_def)
      have L: "min L 64 = L" "L \<noteq> 64" "\<not> has_trailing_one p" using False S(6) by auto
      show ?thesis
        using a(1) sticky
        by (cases "a = k") (simp_all add: iree_hex_float_append_significand_bits_def S(3,4) total L sel)
    qed
    show ?thesis
      unfolding significand_of_def p a(3,4) partial_div [OF a(1)]
      using append_bounds [OF S(1,2) d first] prefix by simp
  qed
qed

lemma significand_bits:
  assumes sig: "significand_of p n L" and q: "q < min L 64"
  shows "unat (iree_hex_float_prefix p q) = n div 2 ^ (L - q)"
    and "iree_hex_float_bit p q \<longleftrightarrow> odd (n div 2 ^ (L - q - 1))"
    and "iree_hex_float_has_one_after p q \<longleftrightarrow> n mod 2 ^ (L - q - 1) \<noteq> 0"
proof -
  let ?P = "min L 64"
  have S: "n < 2 ^ L" "prefix_bit_count p = ?P"
    "unat (prefix_bits p) = n div 2 ^ (L - 64)" "has_trailing_one p \<longleftrightarrow> n mod 2 ^ (L - 64) \<noteq> 0"
    using sig by (simp_all add: significand_of_def)
  have drop: "unat (drop_bit (?P - j) (prefix_bits p)) = n div 2 ^ (L - j)" if "j \<le> ?P" for j
  proof -
    have "L - 64 + (?P - j) = L - j" using that by auto
    then show ?thesis by (simp add: unat_drop_bit S(3) flip: div_mult2_eq power_add)
  qed
  show "unat (iree_hex_float_prefix p q) = n div 2 ^ (L - q)"
    using drop [of q] q S(1,2) by (auto simp: iree_hex_float_prefix_def)
  show "iree_hex_float_bit p q \<longleftrightarrow> odd (n div 2 ^ (L - q - 1))"
    using drop [of "Suc q"] q by (simp add: iree_hex_float_bit_def odd_bit S(2))
  have split: "n mod 2 ^ (L - q - 1) = 2 ^ (L - 64) * (n div 2 ^ (L - 64) mod 2 ^ (?P - q - 1)) + n mod 2 ^ (L - 64)"
  proof -
    have "L - q - 1 = (L - 64) + (?P - q - 1)" using q by auto
    then show ?thesis by (simp only: power_add mod_mult2_eq)
  qed
  have low: "prefix_bits p AND (push_bit (?P - q - 1) 1 - 1) \<noteq> 0 \<longleftrightarrow> n div 2 ^ (L - 64) mod 2 ^ (?P - q - 1) \<noteq> 0"
    using low_bits_nonzero [of "?P - q - 1" "prefix_bits p"] S(3) by simp
  have "n div 2 ^ (L - 64) mod 2 ^ (?P - q - 1) \<noteq> 0 \<Longrightarrow> ?P - q - 1 \<noteq> 0" by (cases "?P - q - 1") auto
  then have "iree_hex_float_has_one_after p q \<longleftrightarrow>
      n div 2 ^ (L - 64) mod 2 ^ (?P - q - 1) \<noteq> 0 \<or> n mod 2 ^ (L - 64) \<noteq> 0"
    unfolding iree_hex_float_has_one_after_def Let_def S(2,4) low by (simp only: if_bool_eq_disj) blast
  then show "iree_hex_float_has_one_after p q \<longleftrightarrow> n mod 2 ^ (L - q - 1) \<noteq> 0"
    unfolding split by simp
qed

lemma round_right_eq:
  assumes sig: "significand_of p n L" and L: "L < 2 ^ 63" and "0 < unat s" and "64 < L \<longrightarrow> L < unat s + 64"
  shows "unat (iree_hex_float_round_right p s) = round_nearest_even n (unat s)"
proof -
  have S: "n < 2 ^ L" "total_bit_count p = int L" using sig by (simp_all add: significand_of_def)
  have w: "unat (word_of_nat L :: u64) = L" using L by (simp add: unsigned_of_nat take_bit_nat_eq_self)
  have lt: "word_of_nat L < s \<longleftrightarrow> L < unat s" by (simp add: word_less_nat_alt w)
  show ?thesis
  proof (cases "L < unat s")
    case True
    then show ?thesis
      using round_nearest_even_small [OF S(1) True] by (simp add: iree_hex_float_round_right_def S(2) lt)
  next
    case False
    define q where "q = L - unat s"
    have q: "unat (word_of_nat L - s) = q" using False by (simp add: unat_sub_no_wrap word_le_nat_alt w q_def)
    have qL: "q < min L 64" "L - q = unat s" using False assms(3,4) by (auto simp: q_def)
    note B = significand_bits [OF sig qL(1), unfolded qL(2)]
    have inc: "unat (iree_hex_float_prefix p q + 1) = n div 2 ^ unat s + 1"
    proof -
      have "n < 2 ^ q * 2 ^ unat s" using S(1) qL False by (simp add: q_def flip: power_add)
      then have "n div 2 ^ unat s < 2 ^ q" by (simp add: less_mult_imp_div_less)
      also have "(2 :: nat) ^ q \<le> 2 ^ 63" using qL(1) by (intro power_increasing) auto
      finally show ?thesis using B(1) by (simp add: unat_add_no_wrap)
    qed
    show ?thesis
      using False round_nearest_even_bits [OF assms(3), of n] B inc
      by (auto simp: iree_hex_float_round_right_def Let_def S(2) lt q odd_bit)
  qed
qed

section \<open>The reference conversion\<close>

text \<open>
  The number \<open>n * 2 ^ e\<close> in a binary format with \<open>p\<close> bits of precision: its exponent, clipped from below at
  the smallest normal one, fixes the unit in the last place; the significand is rounded to a multiple of
  that unit. Exponent field and fraction are added, so that a carry out of the rounding moves to the next
  exponent by itself, up to infinity.
\<close>

fun bit_length :: "nat \<Rightarrow> nat" where
  "bit_length n = (if n = 0 then 0 else Suc (bit_length (n div 2)))"

declare bit_length.simps [simp del]

lemma bit_length_0 [simp]: "bit_length 0 = 0"
  by (subst bit_length.simps) simp

lemma bit_length_pos: "0 < n \<Longrightarrow> bit_length n = Suc (bit_length (n div 2))"
  by (subst bit_length.simps) simp

definition rounded_significand :: "nat \<Rightarrow> int \<Rightarrow> int \<Rightarrow> nat" where
  "rounded_significand n e u =
     (if u \<le> e then n * 2 ^ nat (e - u) else round_nearest_even n (nat (u - e)))"

definition ieee_round :: "nat \<Rightarrow> int \<Rightarrow> int \<Rightarrow> nat \<Rightarrow> int \<Rightarrow> nat" where
  "ieee_round p emin emax n e =
     (if n = 0 then 0
      else let E = e + int (bit_length n) - 1
           in if emax < E then nat (emax - emin + 2) * 2 ^ (p - 1)
              else nat (max E emin - emin) * 2 ^ (p - 1) + rounded_significand n e (max E emin - int p + 1))"

lemma bit_length_bounds: "n < 2 ^ bit_length n \<and> (n = 0 \<or> 2 ^ (bit_length n - 1) \<le> n)"
proof (induction n rule: bit_length.induct)
  case (1 n)
  show ?case
  proof (cases "n < 2")
    case True
    then have "n = 0 \<or> n = 1" by auto
    then show ?thesis by (auto simp: bit_length_pos)
  next
    case False
    with 1 have IH: "n div 2 < 2 ^ bit_length (n div 2)" "2 ^ (bit_length (n div 2) - 1) \<le> n div 2" by auto
    have b: "bit_length n = Suc (bit_length (n div 2))" and "bit_length (n div 2) \<noteq> 0"
      using False by (simp_all add: bit_length_pos [of n] bit_length_pos [of "n div 2"])
    then obtain k where k: "bit_length (n div 2) = Suc k" by (cases "bit_length (n div 2)") auto
    show ?thesis using IH unfolding b k by auto
  qed
qed

lemma bit_length_eq:
  assumes "n < 2 ^ L" and "L = 0 \<or> 2 ^ (L - 1) \<le> n"
  shows "bit_length n = L"
proof -
  have "n = 0 \<Longrightarrow> L = 0" using assms by auto
  moreover have "bit_length n \<le> L" if "n \<noteq> 0"
  proof -
    have "(2 :: nat) ^ (bit_length n - 1) < 2 ^ L" using bit_length_bounds [of n] that assms(1) by (meson le_less_trans)
    then have "bit_length n - 1 < L" by simp
    then show ?thesis by simp
  qed
  moreover have "L \<le> bit_length n"
  proof (cases "L = 0")
    case False
    then have "(2 :: nat) ^ (L - 1) < 2 ^ bit_length n" using bit_length_bounds [of n] assms(2) by (meson le_less_trans)
    then have "L - 1 < bit_length n" by simp
    then show ?thesis by simp
  qed simp
  ultimately show ?thesis by (cases "n = 0") auto
qed

lemma round_nearest_even_range:
  "n div 2 ^ k \<le> round_nearest_even n k" "round_nearest_even n k \<le> n div 2 ^ k + 1"
  by (auto simp: round_nearest_even_def Let_def)

text \<open>A significand of \<open>L\<close> bits, rounded or shifted to \<open>k\<close> bits.\<close>

lemma rounded_significand_bounds:
  assumes "n < 2 ^ L" "2 ^ (L - 1) \<le> n" "0 < L" and u: "u = e + int L - int k" and "0 < k"
  shows "2 ^ (k - 1) \<le> rounded_significand n e u" and "rounded_significand n e u \<le> 2 ^ k"
proof -
  have "2 ^ (k - 1) \<le> rounded_significand n e u \<and> rounded_significand n e u \<le> 2 ^ k"
  proof (cases "L \<le> k")
    case True
    then have "(2 :: nat) ^ (k - 1) = 2 ^ (L - 1) * 2 ^ (k - L)" "(2 :: nat) ^ k = 2 ^ L * 2 ^ (k - L)"
      using assms(3) by (simp_all flip: power_add)
    moreover have "rounded_significand n e u = n * 2 ^ (k - L)"
      using True by (simp add: rounded_significand_def u nat_diff_distrib flip: of_nat_diff)
    ultimately show ?thesis using assms(1,2) by simp
  next
    case False
    define j where "j = L - k"
    have L: "L = k + j" using False by (simp add: j_def)
    then have r: "rounded_significand n e u = round_nearest_even n j"
      using False by (simp add: rounded_significand_def u)
    have "n < 2 ^ k * 2 ^ j" using assms(1) by (simp add: L power_add)
    then have "n div 2 ^ j < 2 ^ k" by (simp add: less_mult_imp_div_less)
    moreover have "2 ^ (k - 1) * 2 ^ j \<le> n" using assms(2,5) by (simp add: L flip: power_add)
    then have "2 ^ (k - 1) \<le> n div 2 ^ j" by (simp add: less_eq_div_iff_mult_less_eq)
    ultimately show ?thesis unfolding r using round_nearest_even_range [of n j] by linarith
  qed
  then show "2 ^ (k - 1) \<le> rounded_significand n e u" and "rounded_significand n e u \<le> 2 ^ k" by auto
qed

end
