(* ===== verification/Hex_Float_Format.thy ===== *)
theory Hex_Float_Format
  imports Hex_Float_Laws
begin

text \<open>
  The conversion of a parsed significand to the bits of an IEEE format, proved once for any format whose
  parameters are consistent, and interpreted on the two formats the code passes: binary32 and binary64.
\<close>

lemma signed_or:
  assumes "unat x < 2 ^ k" and "k < 64"
  shows "unat ((if b then push_bit k 1 else 0) OR (x :: u64)) = (if b then 2 ^ k else 0) + unat x"
proof -
  have "(2 :: nat) ^ k < 2 ^ 64" using assms(2) by (intro power_strict_increasing) auto
  then show ?thesis using shifted_or [of x k 1] assms(1) by simp
qed

lemma unat_word_of_int: "0 \<le> i \<Longrightarrow> i < 2 ^ 64 \<Longrightarrow> unat (word_of_int i :: u64) = nat i"
  by (simp add: unsigned_of_int take_bit_int_eq_self nat_less_iff)

lemma shift_left_eq:
  assumes "unat (prefix_bits p) = n" and "n < 2 ^ L" and "L + k \<le> 64"
  shows "unat (iree_hex_float_shift_left p k) = n * 2 ^ k"
proof -
  have "n * 2 ^ k < 2 ^ L * 2 ^ k" using assms(2) by simp
  also have "(2 :: nat) ^ L * 2 ^ k \<le> 2 ^ 64"
    using assms(3) power_increasing [of "L + k" 64 "2 :: nat"] by (simp add: power_add)
  finally show ?thesis
    using assms(1) unat_push_bit [of "prefix_bits p" k] by (simp add: iree_hex_float_shift_left_def)
qed

lemma significant:
  assumes "significand_of p n L" and "0 < L"
  shows "n < 2 ^ L" "2 ^ (L - 1) \<le> n" "total_bit_count p = int L" "n \<noteq> 0" "bit_length n = L"
proof -
  show S: "n < 2 ^ L" "2 ^ (L - 1) \<le> n" "total_bit_count p = int L" using assms by (auto simp: significand_of_def)
  then show "bit_length n = L" by (simp add: bit_length_eq)
  have "0 < (2 :: nat) ^ (L - 1)" by simp
  with S(2) show "n \<noteq> 0" by linarith
qed

locale ieee_format =
  fixes precision :: nat and min_exp max_exp bias :: int and sign_pos :: nat
  assumes precision: "2 \<le> precision" "precision \<le> 53"
    and bias: "bias = 1 - min_exp"
    and exponents: "- 65536 \<le> min_exp" "min_exp < 0" "0 < max_exp" "max_exp \<le> 65536"
    and infinity: "nat (max_exp - min_exp + 2) * 2 ^ (precision - 1) < 2 ^ sign_pos"
    and sign_pos: "sign_pos < 64"
begin

lemma infinity_fits: "nat (max_exp - min_exp + 2) * 2 ^ (precision - 1) < 2 ^ 64"
proof -
  have "(2 :: nat) ^ sign_pos \<le> 2 ^ 64" using sign_pos by (intro power_increasing) auto
  then show ?thesis using infinity by linarith
qed

lemma field_word:
  assumes "0 \<le> e + bias" "e \<le> max_exp + 1"
  shows "unat (word_of_int (e + bias) :: u64) = nat (e + bias)"
    and "unat (word_of_int (e + bias) :: u64) * 2 ^ (precision - 1) < 2 ^ 64"
proof -
  show w: "unat (word_of_int (e + bias) :: u64) = nat (e + bias)"
    using assms bias exponents by (intro unat_word_of_int) auto
  have "nat (e + bias) * 2 ^ (precision - 1) \<le> nat (max_exp - min_exp + 2) * 2 ^ (precision - 1)"
    using assms bias by (intro mult_le_mono1) auto
  then show "unat (word_of_int (e + bias) :: u64) * 2 ^ (precision - 1) < 2 ^ 64"
    unfolding w using infinity_fits by (rule le_less_trans)
qed

lemma field_bits:
  assumes "0 \<le> e + bias" "e \<le> max_exp + 1"
  shows "unat (push_bit (precision - 1) (word_of_int (e + bias) :: u64)) = nat (e + bias) * 2 ^ (precision - 1)"
  using unat_push_bit [OF field_word(2) [OF assms]] field_word(1) [OF assms] by (simp only:)

lemma infinity_bits:
  "unat (push_bit (precision - 1) (word_of_int (max_exp + bias + 1) :: u64)) =
    nat (max_exp - min_exp + 2) * 2 ^ (precision - 1)"
  using field_bits [of "max_exp + 1"] exponents bias by (simp add: add_ac)

text \<open>The unsigned part of a normal result, the carry out of the rounding included.\<close>

lemma normal_bits:
  fixes m :: u64
  assumes m: "2 ^ (precision - 1) \<le> unat m" "unat m \<le> 2 ^ precision" and e: "min_exp \<le> e" "e \<le> max_exp"
  shows "m = push_bit precision 1 \<Longrightarrow> nat (e - min_exp) * 2 ^ (precision - 1) + unat m =
      nat (e + 1 + bias) * 2 ^ (precision - 1)"
    and "m \<noteq> push_bit precision 1 \<Longrightarrow>
      unat (push_bit (precision - 1) (word_of_int (e + bias)) OR (m AND (push_bit (precision - 1) 1 - 1))) =
      nat (e - min_exp) * 2 ^ (precision - 1) + unat m"
proof -
  obtain p where p: "precision = Suc p" using precision by (cases precision) auto
  have top: "unat (push_bit precision 1 :: u64) = 2 ^ precision"
    using precision by (simp add: unat_power_of_two)
  show "m = push_bit precision 1 \<Longrightarrow> nat (e - min_exp) * 2 ^ (precision - 1) + unat m =
      nat (e + 1 + bias) * 2 ^ (precision - 1)"
  proof -
    assume "m = push_bit precision 1"
    then have "unat m = 2 * 2 ^ (precision - 1)" using top by (simp add: p)
    moreover have "nat (e + 1 + bias) = nat (e - min_exp) + 2" using e bias by simp
    ultimately show ?thesis by (simp add: algebra_simps)
  qed
  show "unat (push_bit (precision - 1) (word_of_int (e + bias)) OR (m AND (push_bit (precision - 1) 1 - 1))) =
      nat (e - min_exp) * 2 ^ (precision - 1) + unat m" if "m \<noteq> push_bit precision 1"
  proof -
    have "unat m \<noteq> 2 ^ precision" using that top by (metis word_unat_eq_iff)
    with m have "2 ^ p \<le> unat m" "unat m - 2 ^ p < 2 ^ p" by (auto simp: p)
    then have low: "unat m mod 2 ^ p + 2 ^ p = unat m" by (simp add: le_mod_geq)
    have low_word: "unat (m AND (push_bit p 1 - 1)) = unat m mod 2 ^ p"
      using precision by (intro unat_low_bits) (simp add: p)
    have "0 \<le> e + bias" "e \<le> max_exp + 1" using e bias by auto
    note F = field_word [OF this, unfolded p diff_Suc_1]
    have "unat (push_bit p (word_of_int (e + bias)) OR (m AND (push_bit p 1 - 1))) =
        nat (e + bias) * 2 ^ p + unat m mod 2 ^ p"
      using shifted_or [of "m AND (push_bit p 1 - 1)" p, OF _ F(2)] low_word F(1) by (simp del: push_bit_of_1 of_int_add)
    also have "nat (e + bias) = nat (e - min_exp) + 1" using e bias by simp
    finally show ?thesis using low by (simp add: p algebra_simps)
  qed
qed

text \<open>The shifted or rounded significand, for a normal and for a subnormal result.\<close>

lemma normal_significand:
  assumes sig: "significand_of p n L" and L: "0 < L" "L \<le> 2 ^ 60"
  shows "unat (if total_bit_count p \<le> int precision
      then iree_hex_float_shift_left p (precision - nat (total_bit_count p))
      else iree_hex_float_round_right p (word_of_int (total_bit_count p) - word_of_nat precision)) =
    rounded_significand n e (e + int L - int precision)"
proof -
  have S: "n < 2 ^ L" "total_bit_count p = int L" "unat (prefix_bits p) = n div 2 ^ (L - 64)"
    using sig by (simp_all add: significand_of_def)
  show ?thesis
  proof (cases "L \<le> precision")
    case True
    then have "unat (prefix_bits p) = n" "L + (precision - L) \<le> 64" using S(3) precision by auto
    then have "unat (iree_hex_float_shift_left p (precision - L)) = n * 2 ^ (precision - L)"
      using S(1) by (intro shift_left_eq)
    then show ?thesis using True by (simp add: S(2) rounded_significand_def nat_diff_distrib flip: of_nat_diff)
  next
    case False
    let ?s = "word_of_int (int L) - word_of_nat precision :: u64"
    have "unat (word_of_nat L :: u64) = L" "unat (word_of_nat precision :: u64) = precision"
      using L(2) precision by (auto simp: unsigned_of_nat take_bit_nat_eq_self)
    then have s: "unat ?s = L - precision" using False by (simp add: unat_sub_no_wrap word_le_nat_alt)
    have "0 < unat ?s" "64 < L \<longrightarrow> L < unat ?s + 64" using s False precision by auto
    then have "unat (iree_hex_float_round_right p ?s) = round_nearest_even n (L - precision)"
      using round_right_eq [OF sig, of ?s] L(2) unfolding s by simp
    then show ?thesis using False by (simp add: S(2) rounded_significand_def nat_diff_distrib flip: of_nat_diff)
  qed
qed

lemma subnormal_significand:
  assumes sig: "significand_of p n L" and L: "0 < L" "L \<le> 2 ^ 60" and E: "e + int L - 1 < min_exp" "INT64_MIN \<le> e"
  defines "scaled \<equiv> word_of_int (int L) + word_of_int (iree_saturating_sub_int64 min_exp (e + int L - 1)) :: u64"
  shows "unat (if scaled \<le> word_of_nat precision
      then iree_hex_float_shift_left p (unat (word_of_nat precision - scaled))
      else iree_hex_float_round_right p (scaled - word_of_nat precision)) =
    rounded_significand n e (min_exp - int precision + 1)"
proof -
  have S: "n < 2 ^ L" "total_bit_count p = int L" "unat (prefix_bits p) = n div 2 ^ (L - 64)"
    using sig by (simp_all add: significand_of_def)
  have "iree_saturating_sub_int64 min_exp (e + int L - 1) = min_exp - (e + int L - 1)"
    using E L(1) exponents by (auto simp: iree_saturating_sub_int64_def iree_saturating_add_int64_def INT64_MAX_def INT64_MIN_def)
  then have "scaled = word_of_int (min_exp - e + 1)" unfolding scaled_def by simp
  then have sc: "unat scaled = nat (min_exp - e + 1)"
    using E L exponents by (simp only:) (intro unat_word_of_int, auto simp: INT64_MIN_def)
  have pw: "unat (word_of_nat precision :: u64) = precision"
    using precision by (simp add: unsigned_of_nat take_bit_nat_eq_self)
  have le: "scaled \<le> word_of_nat precision \<longleftrightarrow> min_exp - e + 1 \<le> int precision"
    using E by (simp add: word_le_nat_alt sc pw nat_le_iff)
  show ?thesis
  proof (cases "min_exp - e + 1 \<le> int precision")
    case True
    define k where "k = nat (int precision - (min_exp - e + 1))"
    have k: "unat (word_of_nat precision - scaled) = k"
      using True le E L(1) nat_diff_distrib' [of "int precision" "min_exp - e + 1"]
      by (simp add: unat_sub_no_wrap sc pw k_def)
    have Lk: "L + k \<le> 64" "L \<le> 64" using E True precision by (auto simp: k_def)
    then have "unat (iree_hex_float_shift_left p k) = n * 2 ^ k"
      using S(1,3) by (intro shift_left_eq) auto
    then show ?thesis using True le k by (simp add: rounded_significand_def k_def algebra_simps)
  next
    case False
    have s: "unat (scaled - word_of_nat precision) = nat (min_exp - e + 1) - precision"
      using False le by (simp add: unat_sub_no_wrap sc pw)
    have "0 < unat (scaled - word_of_nat precision)" "64 < L \<longrightarrow> L < unat (scaled - word_of_nat precision) + 64"
      using s False precision E by auto
    then have "unat (iree_hex_float_round_right p (scaled - word_of_nat precision)) =
        round_nearest_even n (nat (min_exp - e + 1) - precision)"
      using round_right_eq [OF sig, of "scaled - word_of_nat precision"] L(2) unfolding s by simp
    moreover have "nat (min_exp - e + 1) - precision = nat (min_exp - int precision + 1 - e)"
      using False by simp
    ultimately show ?thesis using False le by (simp add: rounded_significand_def)
  qed
qed

lemma subnormal_small:
  assumes "n < 2 ^ L" "2 ^ (L - 1) \<le> n" "0 < L" and E: "e + int L - 1 < min_exp"
  shows "rounded_significand n e (min_exp - int precision + 1) \<le> 2 ^ (precision - 1)"
proof -
  define k where "k = nat (int L + int precision - 1 - min_exp + e)"
  show ?thesis
  proof (cases "e + int L - min_exp + int precision \<le> 1")
    case True
    then have "L < nat (min_exp - int precision + 1 - e) \<or> L = nat (min_exp - int precision + 1 - e)" by auto
    moreover have "round_nearest_even n L \<le> 1"
      using round_nearest_even_range(2) [of n L] assms(1) by simp
    moreover have "min_exp - int precision + 1 > e" using True assms(3) by auto
    ultimately show ?thesis
      using round_nearest_even_small [OF assms(1)] one_le_power [of "2 :: nat" "precision - 1"]
      by (auto simp: rounded_significand_def intro: order_trans)
  next
    case False
    then have k: "0 < k" "min_exp - int precision + 1 = e + int L - int k" "k \<le> precision - 1"
      using E by (auto simp: k_def)
    have "rounded_significand n e (e + int L - int k) \<le> 2 ^ k"
      using rounded_significand_bounds(2) [OF assms(1-3) refl k(1)] .
    also have "(2 :: nat) ^ k \<le> 2 ^ (precision - 1)" using k(3) by (intro power_increasing) auto
    finally show ?thesis by (simp add: k(2))
  qed
qed

text \<open>Every branch puts the sign in front of the bits of the reference conversion.\<close>

definition converts :: "iree_hex_float_t \<Rightarrow> nat \<Rightarrow> bool" where
  "converts p n \<longleftrightarrow>
     (\<exists>x. iree_hex_float_to_ieee_bits p precision min_exp max_exp bias sign_pos =
           (if is_negative p then push_bit sign_pos 1 else 0) OR x \<and>
         unat x = ieee_round precision min_exp max_exp n (binary_exponent p) \<and> unat x < 2 ^ sign_pos)"

lemma exponent_saturates:
  assumes "0 < L" and "e \<le> INT64_MAX"
  shows "iree_saturating_add_int64 e (int L - 1) = min (e + int L - 1) INT64_MAX"
  using assms by (auto simp: iree_saturating_add_int64_def min_def)

lemma max_exp_less: "max_exp < INT64_MAX"
  using exponents by (simp add: INT64_MAX_def)

lemma converts_infinity:
  assumes sig: "significand_of p n L" and L: "0 < L" and e: "binary_exponent p \<le> INT64_MAX"
    and E: "max_exp < binary_exponent p + int L - 1"
  shows "converts p n"
proof -
  let ?inf = "push_bit (precision - 1) (word_of_int (max_exp + bias + 1)) :: u64"
  note S = significant [OF sig L]
  have "max_exp < iree_saturating_add_int64 (binary_exponent p) (int L - 1)"
    using E max_exp_less by (simp add: exponent_saturates [OF L e])
  then have "iree_hex_float_to_ieee_bits p precision min_exp max_exp bias sign_pos =
      (if is_negative p then push_bit sign_pos 1 else 0) OR ?inf"
    using L by (simp only: iree_hex_float_to_ieee_bits_def Let_def S(3)) simp
  moreover have "unat ?inf = ieee_round precision min_exp max_exp n (binary_exponent p)"
    using E S(4,5) infinity_bits by (simp add: ieee_round_def Let_def)
  ultimately show ?thesis using infinity infinity_bits unfolding converts_def by metis
qed

lemma converts_normal:
  assumes sig: "significand_of p n L" and L: "0 < L" "L \<le> 2 ^ 60"
    and e: "binary_exponent p \<le> INT64_MAX"
    and E: "min_exp \<le> binary_exponent p + int L - 1" "binary_exponent p + int L - 1 \<le> max_exp"
  shows "converts p n"
proof -
  let ?e = "binary_exponent p"
  define m where "m = (if total_bit_count p \<le> int precision
      then iree_hex_float_shift_left p (precision - nat (total_bit_count p))
      else iree_hex_float_round_right p (word_of_int (total_bit_count p) - word_of_nat precision))"
  define E where "E = ?e + int L - 1"
  let ?inf = "push_bit (precision - 1) (word_of_int (max_exp + bias + 1)) :: u64"
  let ?res = "iree_hex_float_to_ieee_bits p precision min_exp max_exp bias sign_pos"
  let ?sign = "if is_negative p then push_bit sign_pos 1 else 0 :: u64"
  note S = significant [OF sig L(1)]
  have m: "unat m = rounded_significand n ?e (?e + int L - int precision)"
    unfolding m_def by (rule normal_significand [OF sig L])
  have bounds: "2 ^ (precision - 1) \<le> unat m" "unat m \<le> 2 ^ precision"
    using rounded_significand_bounds [OF S(1,2) L(1) refl, of precision ?e] precision by (simp_all add: m)
  have sat: "iree_saturating_add_int64 ?e (total_bit_count p - 1) = E"
    using assms(6) max_exp_less by (simp add: S(3) exponent_saturates [OF L(1) e] E_def)
  have ref: "ieee_round precision min_exp max_exp n ?e = nat (E - min_exp) * 2 ^ (precision - 1) + unat m"
    using assms(5,6) S(4,5) m by (simp add: ieee_round_def Let_def E_def max_def algebra_simps)
  have small: "ieee_round precision min_exp max_exp n ?e < 2 ^ sign_pos"
  proof -
    have "(2 :: nat) ^ precision = 2 * 2 ^ (precision - 1)" using precision by (cases precision) auto
    then have "nat (E - min_exp) * 2 ^ (precision - 1) + unat m \<le> (nat (E - min_exp) + 2) * 2 ^ (precision - 1)"
      using bounds(2) by (simp add: algebra_simps)
    also have "\<dots> \<le> nat (max_exp - min_exp + 2) * 2 ^ (precision - 1)"
      using assms(5,6) by (intro mult_le_mono1) (simp add: E_def)
    finally show ?thesis using infinity unfolding ref by (rule le_less_trans)
  qed
  have res: "?res = (if m = push_bit precision 1
      then if E + 1 > max_exp then ?sign OR ?inf
           else ?sign OR (push_bit (precision - 1) (word_of_int (E + 1 + bias)) OR
             (drop_bit 1 m AND (push_bit (precision - 1) 1 - 1)))
      else ?sign OR (push_bit (precision - 1) (word_of_int (E + bias)) OR (m AND (push_bit (precision - 1) 1 - 1))))"
  proof -
    have c: "total_bit_count p \<noteq> 0" "\<not> max_exp < E" "min_exp \<le> E"
      using assms(5,6) S(3) L(1) by (simp_all add: E_def)
    show ?thesis
      unfolding iree_hex_float_to_ieee_bits_def Let_def sat m_def [symmetric]
      by (cases "m = push_bit precision 1") (simp_all only: c simp_thms if_True if_False or.assoc)
  qed
  show ?thesis
  proof (cases "m = push_bit precision 1")
    case carry: True
    note total = normal_bits(1) [OF bounds assms(5,6) [folded E_def] carry]
    have half: "drop_bit 1 m AND (push_bit (precision - 1) 1 - 1) = 0"
    proof -
      have "unat m = 2 ^ precision" using precision unfolding carry by (simp add: unat_power_of_two)
      then have "unat m = 2 * 2 ^ (precision - 1)" using precision by (cases precision) auto
      then have "unat (drop_bit 1 m) mod 2 ^ (precision - 1) = 0" by (simp add: unat_drop_bit)
      then show ?thesis using low_bits_nonzero [of "precision - 1" "drop_bit 1 m"] precision by linarith
    qed
    let ?x = "push_bit (precision - 1) (word_of_int (E + 1 + bias)) :: u64"
    have x: "unat ?x = nat (E + 1 + bias) * 2 ^ (precision - 1)"
      using field_bits [of "E + 1"] assms(5,6) bias by (simp add: E_def)
    have "E + 1 + bias = max_exp + bias + 1" if "E + 1 > max_exp" using that assms(6) by (simp add: E_def)
    then have "E + 1 > max_exp \<Longrightarrow> ?inf = ?x" by (simp only:)
    then have "?res = ?sign OR ?x" unfolding res half using carry by simp
    moreover have "unat ?x = ieee_round precision min_exp max_exp n ?e" using ref total x by simp
    ultimately show ?thesis unfolding converts_def using small by metis
  next
    case False
    let ?x = "push_bit (precision - 1) (word_of_int (E + bias)) OR (m AND (push_bit (precision - 1) 1 - 1))"
    note total = normal_bits(2) [OF bounds assms(5,6) [folded E_def] False]
    have "?res = ?sign OR ?x" unfolding res using False by simp
    moreover have "unat ?x = ieee_round precision min_exp max_exp n ?e" using ref total by simp
    ultimately show ?thesis unfolding converts_def using small by metis
  qed
qed

lemma converts_subnormal:
  assumes sig: "significand_of p n L" and L: "0 < L" "L \<le> 2 ^ 60"
    and e: "INT64_MIN \<le> binary_exponent p" "binary_exponent p \<le> INT64_MAX"
    and E: "binary_exponent p + int L - 1 < min_exp"
  shows "converts p n"
proof -
  let ?e = "binary_exponent p"
  define E where "E = ?e + int L - 1"
  define scaled where "scaled = (word_of_int (int L) + word_of_int (iree_saturating_sub_int64 min_exp E) :: u64)"
  define m where "m = (if scaled \<le> word_of_nat precision
      then iree_hex_float_shift_left p (unat (word_of_nat precision - scaled))
      else iree_hex_float_round_right p (scaled - word_of_nat precision))"
  let ?sign = "if is_negative p then push_bit sign_pos 1 else 0 :: u64"
  note S = significant [OF sig L(1)]
  have m: "unat m = rounded_significand n ?e (min_exp - int precision + 1)"
    unfolding m_def scaled_def E_def by (rule subnormal_significand [OF sig L E e(1)])
  have sat: "iree_saturating_add_int64 ?e (int L - 1) = E"
    using assms(6) exponents max_exp_less by (simp add: exponent_saturates [OF L(1) e(2)] E_def)
  have c: "int L \<noteq> 0" "\<not> max_exp < E" "\<not> min_exp \<le> E"
    using assms(6) exponents L(1) by (simp_all add: E_def)
  have "iree_hex_float_to_ieee_bits p precision min_exp max_exp bias sign_pos = ?sign OR m"
    unfolding iree_hex_float_to_ieee_bits_def Let_def S(3) sat scaled_def [symmetric] m_def [symmetric]
    by (cases "m = push_bit (precision - 1) 1") (simp_all only: c simp_thms if_True if_False)
  moreover have "unat m = ieee_round precision min_exp max_exp n ?e"
    using assms(6) S(4,5) m exponents by (simp add: ieee_round_def Let_def max_def)
  moreover have "unat m < 2 ^ sign_pos"
  proof -
    have "unat m \<le> 1 * 2 ^ (precision - 1)" unfolding m using subnormal_small [OF S(1,2) L(1) E] by simp
    also have "\<dots> \<le> nat (max_exp - min_exp + 2) * 2 ^ (precision - 1)"
      using exponents by (intro mult_le_mono1) simp
    finally show ?thesis using infinity by (rule le_less_trans)
  qed
  ultimately show ?thesis unfolding converts_def by blast
qed

theorem to_ieee_bits_eq:
  assumes sig: "significand_of p n L" and L: "L \<le> 2 ^ 60"
    and e: "INT64_MIN \<le> binary_exponent p" "binary_exponent p \<le> INT64_MAX"
  shows "unat (iree_hex_float_to_ieee_bits p precision min_exp max_exp bias sign_pos) =
    (if is_negative p then 2 ^ sign_pos else 0) + ieee_round precision min_exp max_exp n (binary_exponent p)"
proof (cases "L = 0")
  case True
  then have "n = 0" "total_bit_count p = 0" using sig by (auto simp: significand_of_def)
  then show ?thesis
    using sign_pos by (simp add: iree_hex_float_to_ieee_bits_def Let_def ieee_round_def unat_power_of_two)
next
  case False
  then have "0 < L" by simp
  then have "converts p n"
    using converts_infinity [OF sig _ e(2)] converts_normal [OF sig _ L e(2)] converts_subnormal [OF sig _ L e]
    by (meson linorder_not_le)
  then show ?thesis using signed_or sign_pos unfolding converts_def by metis
qed

lemma ieee_round_le: "ieee_round precision min_exp max_exp n e \<le> nat (max_exp - min_exp + 2) * 2 ^ (precision - 1)"
proof (cases "n = 0 \<or> max_exp < e + int (bit_length n) - 1")
  case True
  then show ?thesis by (auto simp: ieee_round_def Let_def)
next
  case False
  define L E where "L = bit_length n" and "E = e + int L - 1"
  have B: "n < 2 ^ L" "2 ^ (L - 1) \<le> n" "0 < L"
    using bit_length_bounds [of n] False bit_length_pos [of n] by (auto simp: L_def)
  have two: "(2 :: nat) ^ precision = 2 * 2 ^ (precision - 1)" using precision by (cases precision) auto
  have u: "max E min_exp - int precision + 1 = (if min_exp \<le> E then e + int L - int precision else min_exp - int precision + 1)"
    by (simp add: E_def)
  have "rounded_significand n e (max E min_exp - int precision + 1) \<le> 2 * 2 ^ (precision - 1)"
    unfolding u using rounded_significand_bounds(2) [OF B refl, of precision e] subnormal_small [OF B, of e] precision two
    by (auto simp: E_def)
  then have "ieee_round precision min_exp max_exp n e \<le> (nat (max E min_exp - min_exp) + 2) * 2 ^ (precision - 1)"
    using False by (simp add: ieee_round_def Let_def E_def L_def algebra_simps)
  also have "\<dots> \<le> nat (max_exp - min_exp + 2) * 2 ^ (precision - 1)"
    using False exponents by (intro mult_le_mono1) (auto simp: E_def L_def)
  finally show ?thesis .
qed

lemma ieee_round_less: "ieee_round precision min_exp max_exp n e < 2 ^ sign_pos"
  using ieee_round_le infinity by (rule le_less_trans)

text \<open>Exponents far outside the range of the format: infinity and zero.\<close>

lemma ieee_round_high:
  assumes "n \<noteq> 0" and "max_exp < e"
  shows "ieee_round precision min_exp max_exp n e = nat (max_exp - min_exp + 2) * 2 ^ (precision - 1)"
  using assms bit_length_pos [of n] by (simp add: ieee_round_def Let_def)

lemma ieee_round_low:
  assumes "e + int (bit_length n) < min_exp - int precision"
  shows "ieee_round precision min_exp max_exp n e = 0"
proof -
  have "round_nearest_even n (nat (min_exp - int precision + 1 - e)) = 0"
    using assms bit_length_bounds [of n] by (intro round_nearest_even_small [of n "bit_length n"]) auto
  then show ?thesis using assms exponents by (auto simp: ieee_round_def Let_def rounded_significand_def max_def)
qed

end

interpretation binary32: ieee_format 24 "- 126" 127 127 31
  by unfold_locales simp_all

interpretation binary64: ieee_format 53 "- 1022" 1023 1023 63
  by unfold_locales simp_all

end
