(* ===== verification/Hex_Float_Parse.thy ===== *)
theory Hex_Float_Parse
  imports Hex_Float_Format String_View_Laws
begin

text \<open>
  The texts the hexadecimal float parser accepts and the number each denotes: runs of digits as numbers,
  the significand and exponent loops over them, and the parser as a whole.
\<close>

section \<open>Digits\<close>

definition is_hex :: "u8 \<Rightarrow> bool" where
  "is_hex c \<longleftrightarrow> 0 \<le> iree_hex_digit_value c"

definition is_dec :: "u8 \<Rightarrow> bool" where
  "is_dec c \<longleftrightarrow> 0x30 \<le> c \<and> c \<le> 0x39"

definition hex_value :: "nat \<Rightarrow> u8 list \<Rightarrow> nat" where
  "hex_value n ds = foldl (\<lambda>n c. 16 * n + nat (iree_hex_digit_value c)) n ds"

definition dec_value :: "nat \<Rightarrow> u8 list \<Rightarrow> nat" where
  "dec_value n ds = foldl (\<lambda>n c. 10 * n + unat (c - 0x30)) n ds"

lemma hex_value_simps [simp]:
  "hex_value n [] = n" "hex_value n (c # ds) = hex_value (16 * n + nat (iree_hex_digit_value c)) ds"
  by (simp_all add: hex_value_def)

lemma dec_value_simps [simp]:
  "dec_value n [] = n" "dec_value n (c # ds) = dec_value (10 * n + unat (c - 0x30)) ds"
  by (simp_all add: dec_value_def)

lemma hex_value_append: "hex_value n (xs @ ys) = hex_value (hex_value n xs) ys"
  by (simp add: hex_value_def)

lemma hex_digit_list:
  "list_all (\<lambda>c. iree_hex_digit_value c < 16 \<and> (is_hex c \<longrightarrow> c \<noteq> 0x2E \<and> c \<noteq> 0x70 \<and> c \<noteq> 0x50) \<and>
      (is_dec c \<longrightarrow> is_hex c \<and> uint c - 0x30 = int (unat (c - 0x30)) \<and> \<not> c_isspace c \<and> unat (c - 0x30) \<le> 9)) (map of_nat [0..<256])"
  by code_simp

lemma hex_digit_facts:
  "iree_hex_digit_value c < 16" "is_hex c \<Longrightarrow> c \<noteq> 0x2E \<and> c \<noteq> 0x70 \<and> c \<noteq> 0x50"
  and dec_digit_facts:
  "is_dec c \<Longrightarrow> is_hex c" "is_dec c \<Longrightarrow> uint c - 0x30 = int (unat (c - 0x30))" "is_dec c \<Longrightarrow> \<not> c_isspace c"
  "is_dec c \<Longrightarrow> unat (c - 0x30) \<le> 9"
  using u8_cases_list [OF hex_digit_list, of c] by auto

text \<open>The number of bits of a nonzero hexadecimal digit.\<close>

lemma first_bit_count_list:
  "list_all (\<lambda>d. first_bit_count (of_nat d) 4 \<le> 4 \<and> d < 2 ^ first_bit_count (of_nat d) 4 \<and>
      2 ^ (first_bit_count (of_nat d) 4 - 1) \<le> d) [1..<16]"
  by code_simp

lemma first_bit_count_bounds:
  assumes "0 < d" and "d < 16"
  shows "first_bit_count (of_nat d) 4 \<le> 4 \<and> d < 2 ^ first_bit_count (of_nat d) 4 \<and>
    2 ^ (first_bit_count (of_nat d) 4 - 1) \<le> d"
  using first_bit_count_list assms by (simp add: list_all_iff)

section \<open>The significand loop\<close>

text \<open>The effect of one digit on the parsed bits and the flag for a nonzero digit.\<close>

definition next_digit :: "u8 \<Rightarrow> iree_hex_float_t \<times> bool \<Rightarrow> iree_hex_float_t \<times> bool" where
  "next_digit c = (\<lambda>(parsed, nonzero).
     let digit = iree_hex_digit_value c
     in if nonzero then (iree_hex_float_append_significand_bits (word_of_int digit) 4 parsed, True)
        else if digit = 0 then (parsed, False)
        else (iree_hex_float_append_significand_bits (word_of_int digit) (first_bit_count (word_of_int digit) 4) parsed, True))"

lemma parse_significand_digit:
  "is_hex c \<Longrightarrow> parse_significand (c # rest) parsed saw nonzero point frac =
    (case next_digit c (parsed, nonzero) of (parsed', nonzero') \<Rightarrow>
       parse_significand rest parsed' True nonzero' point (if point then frac + 1 else frac))"
  using hex_digit_facts(2) [of c] by (auto simp: is_hex_def next_digit_def Let_def)

lemma parse_significand_stop:
  "\<not> is_hex c \<Longrightarrow> point \<or> c \<noteq> 0x2E \<Longrightarrow>
    parse_significand (c # rest) parsed saw nonzero point frac = (parsed, saw, frac, c # rest)"
  by (auto simp: is_hex_def Let_def)

lemma parse_significand_fraction:
  "parse_significand s parsed saw nonzero True frac =
    (fst (fold next_digit (takeWhile is_hex s) (parsed, nonzero)), saw \<or> takeWhile is_hex s \<noteq> [],
     frac + int (length (takeWhile is_hex s)), dropWhile is_hex s)"
proof (induction s arbitrary: parsed saw nonzero frac)
  case (Cons c s)
  show ?case
  proof (cases "is_hex c")
    case True
    then show ?thesis
      by (cases "next_digit c (parsed, nonzero)") (simp add: parse_significand_digit Cons.IH del: parse_significand.simps)
  next
    case False
    then show ?thesis by (simp add: parse_significand_stop del: parse_significand.simps)
  qed
qed simp

lemma parse_significand_integer:
  "parse_significand s parsed saw nonzero False frac =
    (case fold next_digit (takeWhile is_hex s) (parsed, nonzero) of (parsed', nonzero') \<Rightarrow>
       if dropWhile is_hex s \<noteq> [] \<and> hd (dropWhile is_hex s) = 0x2E
       then parse_significand (tl (dropWhile is_hex s)) parsed' (saw \<or> takeWhile is_hex s \<noteq> []) nonzero' True frac
       else (parsed', saw \<or> takeWhile is_hex s \<noteq> [], frac, dropWhile is_hex s))"
proof (induction s arbitrary: parsed saw nonzero)
  case (Cons c s)
  show ?case
  proof (cases "is_hex c")
    case True
    then show ?thesis
      by (cases "next_digit c (parsed, nonzero)")
        (simp add: parse_significand_digit Cons.IH del: parse_significand.simps split: prod.splits)
  next
    case False
    then show ?thesis
      using parse_significand_stop [OF False] by (cases "c = 0x2E") auto
  qed
qed simp

text \<open>What the digits read so far stand for.\<close>

definition digits_read :: "iree_hex_float_t \<times> bool \<Rightarrow> nat \<Rightarrow> nat \<Rightarrow> bool" where
  "digits_read st n m \<longleftrightarrow> (snd st \<longleftrightarrow> n \<noteq> 0) \<and> (\<exists>L\<le>m. significand_of (fst st) n L)"

lemma next_digit_keeps: "is_negative (fst (next_digit c st)) = is_negative (fst st)"
  by (cases st) (simp add: next_digit_def Let_def iree_hex_float_append_significand_bits_def)

lemma next_digit_read:
  assumes "digits_read st n m" and "is_hex c" and "int (m + 4) \<le> INT64_MAX"
  shows "digits_read (next_digit c st) (16 * n + nat (iree_hex_digit_value c)) (m + 4)"
proof -
  obtain p nz where st: "st = (p, nz)" by (cases st)
  obtain L where L: "L \<le> m" "significand_of p n L" and nz: "nz \<longleftrightarrow> n \<noteq> 0"
    using assms(1) by (auto simp: digits_read_def st)
  define d where "d = nat (iree_hex_digit_value c)"
  have d: "iree_hex_digit_value c = int d" "d < 16"
    using assms(2) hex_digit_facts(1) [of c] by (auto simp: d_def is_hex_def)
  have w: "unat (word_of_nat d :: u64) = d" using d(2) by (simp add: unsigned_of_nat take_bit_nat_eq_self)
  show ?thesis
  proof (cases "n = 0")
    case True
    then have "L = 0" using significant(4) [OF L(2)] by blast
    let ?k = "first_bit_count (word_of_nat d) 4"
    show ?thesis
    proof (cases "d = 0")
      case True
      then show ?thesis using \<open>n = 0\<close> L nz d by (auto simp: digits_read_def next_digit_def st intro!: exI [of _ L])
    next
      case False
      note k = first_bit_count_bounds [of d] d(2) False
      have "significand_of (iree_hex_float_append_significand_bits (word_of_nat d) ?k p)
          (n * 2 ^ ?k + unat (word_of_nat d :: u64)) (L + ?k)"
        by (rule append_significand [OF L(2)]) (use k w \<open>L = 0\<close> assms(3) in auto)
      then show ?thesis
        using \<open>n = 0\<close> \<open>L = 0\<close> False nz d w k
        by (auto simp: digits_read_def next_digit_def st Let_def intro!: exI [of _ ?k])
    qed
  next
    case False
    have "significand_of (iree_hex_float_append_significand_bits (word_of_nat d) 4 p)
        (n * 2 ^ 4 + unat (word_of_nat d :: u64)) (L + 4)"
      by (rule append_significand [OF L(2)]) (use w d False L(1) assms(3) in auto)
    then show ?thesis
      using False nz d w L(1) by (auto simp: digits_read_def next_digit_def st Let_def mult.commute intro!: exI [of _ "L + 4"])
  qed
qed

lemma fold_digits_read:
  assumes "digits_read st n m" and "list_all is_hex ds" and "int (m + 4 * length ds) \<le> INT64_MAX"
  shows "digits_read (fold next_digit ds st) (hex_value n ds) (m + 4 * length ds)"
  using assms
proof (induction ds arbitrary: st n m)
  case (Cons c ds)
  then show ?case
    using next_digit_read [of st n m c] Cons.IH [of "next_digit c st" _ "m + 4"] by (simp add: add_ac)
qed simp

lemma fold_digits_negative: "is_negative (fst (fold next_digit ds st)) = is_negative (fst st)"
  by (induction ds arbitrary: st) (simp_all add: next_digit_keeps)

section \<open>The exponent loop\<close>

lemma saturating_digit:
  assumes "0 \<le> d" "d \<le> 9" "0 \<le> (v :: int)"
  shows "(if min v INT64_MAX > (INT64_MAX - d) div 10 then INT64_MAX else min v INT64_MAX * 10 + d) =
    min (10 * v + d) INT64_MAX"
  using assms by (auto simp: min_def INT64_MAX_def)

lemma parse_exponent_digits_eq:
  "parse_exponent_digits s (min (int v) INT64_MAX) =
    (min (int (dec_value v (takeWhile is_dec s))) INT64_MAX, dropWhile is_dec s)"
proof (induction s arbitrary: v)
  case (Cons c s)
  show ?case
  proof (cases "is_dec c")
    case True
    note d = dec_digit_facts(2,4) [OF True]
    have "(if min (int v) INT64_MAX > (INT64_MAX - (uint c - 0x30)) div 10 then INT64_MAX
        else min (int v) INT64_MAX * 10 + (uint c - 0x30)) = min (int (10 * v + unat (c - 0x30))) INT64_MAX"
      unfolding d(1) using saturating_digit [of "int (unat (c - 0x30))" "int v"] d(2) by linarith
    then show ?thesis using True Cons.IH [of "10 * v + unat (c - 0x30)"] by (simp add: is_dec_def Let_def)
  next
    case False
    then show ?thesis by (auto simp: is_dec_def)
  qed
qed simp

section \<open>The accepted texts\<close>

text \<open>
  A hexadecimal float: an optional sign, the marker, hexadecimal digits with an optional point, and a
  mandatory binary exponent in decimal digits. It denotes \<open>hex_value 0 (ip @ fp) * 2 ^ (x - 4 * length fp)\<close>.
\<close>

definition signed_as :: "u8 list \<Rightarrow> bool \<Rightarrow> bool" where
  "signed_as sg neg \<longleftrightarrow> (sg = [] \<and> \<not> neg) \<or> (sg = [0x2B] \<and> \<not> neg) \<or> (sg = [0x2D] \<and> neg)"

definition hex_float_text :: "bool \<Rightarrow> u8 list \<Rightarrow> u8 list \<Rightarrow> int \<Rightarrow> u8 list \<Rightarrow> bool" where
  "hex_float_text neg ip fp x s \<longleftrightarrow>
     (\<exists>sg mark point letter esg eneg ds.
        s = sg @ [0x30, mark] @ ip @ point @ fp @ [letter] @ esg @ ds \<and>
        signed_as sg neg \<and> iree_tolower mark = 0x78 \<and> list_all is_hex ip \<and> list_all is_hex fp \<and>
        ip @ fp \<noteq> [] \<and> (point = [] \<and> fp = [] \<or> point = [0x2E]) \<and> letter \<in> {0x70, 0x50} \<and>
        signed_as esg eneg \<and> ds \<noteq> [] \<and> list_all is_dec ds \<and>
        x = (if eneg then - int (dec_value 0 ds) else int (dec_value 0 ds)))"

text \<open>The exponent the parser stores: exact unless the written exponent saturates.\<close>

definition stored_exponent :: "int \<Rightarrow> int \<Rightarrow> int" where
  "stored_exponent x frac =
     iree_saturating_sub_int64 (if x \<ge> INT64_MAX then INT64_MAX else if x \<le> - INT64_MAX then INT64_MIN else x) (frac * 4)"

lemma takeWhile_run:
  assumes "list_all P xs" and "ys = [] \<or> \<not> P (hd ys)"
  shows "takeWhile P (xs @ ys) = xs" and "dropWhile P (xs @ ys) = ys"
  using assms by (induction xs) (auto simp: takeWhile_eq_Nil_iff dropWhile_eq_self_iff)

lemma parse_hex_exponent_eq:
  assumes "signed_as esg eneg" and "ds \<noteq> []" and "list_all is_dec ds"
  shows "parse_hex_exponent (esg @ ds) frac parsed =
    Some (parsed\<lparr>binary_exponent :=
      stored_exponent (if eneg then - int (dec_value 0 ds) else int (dec_value 0 ds)) frac\<rparr>)"
proof -
  obtain d ds' where ds: "ds = d # ds'" and d: "is_dec d" using assms(2,3) by (cases ds) auto
  then have nd: "d \<noteq> 0x2B" "d \<noteq> 0x2D" "0x30 \<le> d" "d \<le> 0x39" by (auto simp: is_dec_def)
  have sg: "(case esg @ ds of c # rest \<Rightarrow> if c = 0x2B \<or> c = 0x2D then (c = 0x2D, rest) else (False, esg @ ds)
      | [] \<Rightarrow> (False, esg @ ds)) = (eneg, ds)"
    using assms(1) nd by (auto simp: signed_as_def ds)
  have digits: "parse_exponent_digits ds 0 = (min (int (dec_value 0 ds)) INT64_MAX, [])"
  proof -
    have run: "takeWhile is_dec ds = ds" "dropWhile is_dec ds = []"
      using takeWhile_run [of is_dec ds "[]"] assms(3) by simp_all
    show ?thesis using parse_exponent_digits_eq [of ds 0] unfolding run by (simp add: INT64_MAX_def)
  qed
  have first: "\<not> (length ds = 0 \<or> ds ! 0 < 0x30 \<or> ds ! 0 > 0x39)" using nd by (auto simp: ds)
  show ?thesis
    unfolding parse_hex_exponent_def sg
    using first digits by (auto simp: stored_exponent_def Let_def min_def INT64_MAX_def INT64_MIN_def)
qed

lemma parse_hex_float_signed:
  assumes "signed_as sg neg" and "s \<noteq> []" "hd s \<noteq> 0x2B" "hd s \<noteq> 0x2D" and "int (length (sg @ s)) \<le> INT64_MAX div 4"
  shows "iree_string_view_parse_hex_float (sg @ s) = parse_hex_unsigned s (zero_hex_float\<lparr>is_negative := neg\<rparr>)"
proof -
  have "s ! 0 \<noteq> 0x2B" "s ! 0 \<noteq> 0x2D" using assms(2-4) by (simp_all add: hd_conv_nth)
  then show ?thesis
    using assms(1,2,5)
    by (auto simp: iree_string_view_parse_hex_float_def iree_string_view_is_empty_def signed_as_def Let_def
        zero_hex_float_def)
qed

text \<open>The significand loop on the digits of an accepted text.\<close>

lemma parse_significand_text:
  assumes "list_all is_hex ip" "list_all is_hex fp" "point = [] \<and> fp = [] \<or> point = [0x2E]" "letter \<in> {0x70, 0x50}"
  shows "parse_significand (ip @ point @ fp @ [letter] @ rest) parsed False False False 0 =
    (fst (fold next_digit (ip @ fp) (parsed, False)), ip @ fp \<noteq> [], int (length fp), letter # rest)"
proof -
  have l: "\<not> is_hex letter" "letter \<noteq> 0x2E" using assms(4) hex_digit_facts(2) [of letter] by auto
  have "\<not> is_hex 0x2E" using hex_digit_facts(2) [of "0x2E"] by auto
  with l assms(3) have stop: "point @ fp @ [letter] @ rest = [] \<or> \<not> is_hex (hd (point @ fp @ [letter] @ rest))" by auto
  note I = takeWhile_run [OF assms(1) stop]
  show ?thesis
  proof (cases "point = []")
    case True
    then show ?thesis
      using assms(3) l I by (simp add: parse_significand_integer split: prod.splits)
  next
    case False
    have "fp @ letter # rest = [] \<or> \<not> is_hex (hd (letter # rest))" using l by simp
    then have F: "takeWhile is_hex (fp @ letter # rest) = fp" "dropWhile is_hex (fp @ letter # rest) = letter # rest"
      using takeWhile_run [OF assms(2), of "letter # rest"] l by auto
    show ?thesis
      using assms(3) False I F
      by (simp add: parse_significand_integer parse_significand_fraction split: prod.splits)
  qed
qed

lemma parse_hex_float_accepts:
  assumes t: "hex_float_text neg ip fp x s" and len: "length s \<le> 2 ^ 57"
  shows "\<exists>p L. iree_string_view_parse_hex_float s = Some p \<and> significand_of p (hex_value 0 (ip @ fp)) L \<and>
    L \<le> 2 ^ 60 \<and> is_negative p = neg \<and> binary_exponent p = stored_exponent x (int (length fp))"
proof -
  obtain sg mark point letter esg eneg ds where
    s: "s = sg @ [0x30, mark] @ ip @ point @ fp @ [letter] @ esg @ ds" and neg: "signed_as sg neg"
    and mark: "iree_tolower mark = 0x78" and hex: "list_all is_hex ip" "list_all is_hex fp" "ip @ fp \<noteq> []"
    and point: "point = [] \<and> fp = [] \<or> point = [0x2E]" "letter \<in> {0x70, 0x50}"
    and exponent: "signed_as esg eneg" "ds \<noteq> []" "list_all is_dec ds"
    and x: "x = (if eneg then - int (dec_value 0 ds) else int (dec_value 0 ds))"
    using t unfolding hex_float_text_def by blast
  let ?z = "zero_hex_float\<lparr>is_negative := neg\<rparr>"
  define st where "st = fold next_digit (ip @ fp) (?z, False)"
  have n4: "4 * length (ip @ fp) \<le> 2 ^ 60" using len by (auto simp: s)
  have "digits_read (?z, False) 0 0" by (simp add: digits_read_def significand_of_def zero_hex_float_def)
  then have "digits_read st (hex_value 0 (ip @ fp)) (0 + 4 * length (ip @ fp))"
    unfolding st_def using hex n4 by (intro fold_digits_read) (auto simp: INT64_MAX_def)
  then obtain L where L: "significand_of (fst st) (hex_value 0 (ip @ fp)) L" "L \<le> 2 ^ 60"
    using n4 by (auto simp: digits_read_def)
  have "iree_string_view_parse_hex_float s =
      parse_hex_unsigned ([0x30, mark] @ ip @ point @ fp @ [letter] @ esg @ ds) ?z"
    unfolding s using neg len by (intro parse_hex_float_signed) (auto simp: s INT64_MAX_def)
  also have "\<dots> = parse_hex_exponent (esg @ ds) (int (length fp)) (fst st)"
    using parse_significand_text [OF hex(1,2) point, of "esg @ ds" ?z] mark hex(3) point(2)
    by (auto simp: parse_hex_unsigned_def st_def)
  also have "\<dots> = Some ((fst st)\<lparr>binary_exponent := stored_exponent x (int (length fp))\<rparr>)"
    unfolding x by (rule parse_hex_exponent_eq [OF exponent])
  finally show ?thesis
    using L fold_digits_negative [of "ip @ fp" "(?z, False)"]
    by (auto simp: significand_of_def st_def intro!: exI [of _ L])
qed

section \<open>Saturated exponents\<close>

lemma stored_exponent_range:
  assumes "0 \<le> frac" "frac \<le> 2 ^ 57"
  shows "INT64_MIN \<le> stored_exponent x frac" and "stored_exponent x frac \<le> INT64_MAX"
  using assms
  by (auto simp: stored_exponent_def iree_saturating_sub_int64_def iree_saturating_add_int64_def
      INT64_MAX_def INT64_MIN_def)

lemma stored_exponent_cases:
  assumes "0 \<le> frac" "frac \<le> 2 ^ 57"
  shows "stored_exponent x frac = x - 4 * frac \<or>
    (2 ^ 62 < stored_exponent x frac \<and> 2 ^ 62 < x - 4 * frac) \<or>
    (stored_exponent x frac < - (2 ^ 62) \<and> x - 4 * frac < - (2 ^ 62))"
  using assms
  by (auto simp: stored_exponent_def iree_saturating_sub_int64_def iree_saturating_add_int64_def
      INT64_MAX_def INT64_MIN_def)

context ieee_format
begin

text \<open>A saturated exponent rounds as the written one does, for any text that fits in memory.\<close>

lemma ieee_round_stored:
  assumes "0 \<le> frac" "frac \<le> 2 ^ 57" and "bit_length n \<le> 2 ^ 60"
  shows "ieee_round precision min_exp max_exp n (stored_exponent x frac) =
    ieee_round precision min_exp max_exp n (x - 4 * frac)"
proof (cases "n = 0")
  case False
  have high: "ieee_round precision min_exp max_exp n e = nat (max_exp - min_exp + 2) * 2 ^ (precision - 1)"
    if "2 ^ 62 < e" for e using that False exponents by (intro ieee_round_high) auto
  have low: "ieee_round precision min_exp max_exp n e = 0" if "e < - (2 ^ 62)" for e
  proof (rule ieee_round_low)
    have "int (bit_length n) \<le> 2 ^ 60" using assms(3) by simp
    then show "e + int (bit_length n) < min_exp - int precision" using that exponents precision by simp
  qed
  show ?thesis using stored_exponent_cases [OF assms(1,2), of x] high low by metis
qed (simp add: ieee_round_def)

end

section \<open>Trimming around an accepted text\<close>

lemma trim_surrounded:
  assumes "list_all c_isspace pre" "list_all c_isspace post" and "s \<noteq> []" "\<not> c_isspace (hd s)" "\<not> c_isspace (last s)"
  shows "iree_string_view_trim (pre @ s @ post) = s"
proof -
  have "dropWhile c_isspace (pre @ s @ post) = s @ post"
    using assms by (intro takeWhile_run(2)) auto
  moreover have "dropWhile c_isspace (rev post @ rev s) = rev s"
    using assms by (intro takeWhile_run(2)) (auto simp: hd_rev)
  ultimately show ?thesis by (simp add: trim_eq)
qed

lemma hex_float_text_ends:
  assumes "hex_float_text neg ip fp x s"
  shows "s \<noteq> []" "\<not> c_isspace (hd s)" "\<not> c_isspace (last s)" "iree_string_view_is_hex_float s"
proof -
  obtain sg mark rest ds where s: "s = sg @ [0x30, mark] @ rest @ ds" and sg: "signed_as sg neg"
    and mark: "iree_tolower mark = 0x78" and ds: "ds \<noteq> []" "list_all is_dec ds"
    using assms unfolding hex_float_text_def by (metis append.assoc)
  show "s \<noteq> []" by (simp add: s)
  show "\<not> c_isspace (hd s)" using sg by (auto simp: s signed_as_def c_isspace_def)
  have "is_dec (last ds)" using ds by (simp add: list_all_iff)
  then show "\<not> c_isspace (last s)" using ds(1) dec_digit_facts(3) by (simp add: s)
  show "iree_string_view_is_hex_float s"
    using sg mark by (auto simp: s signed_as_def iree_string_view_is_hex_float_def Let_def)
qed

section \<open>Only hexadecimal floats are accepted\<close>

lemma parse_hex_exponent_sound:
  assumes "parse_hex_exponent t frac parsed = Some p"
  shows "\<exists>esg eneg ds. t = esg @ ds \<and> signed_as esg eneg \<and> ds \<noteq> [] \<and> list_all is_dec ds"
proof -
  obtain esg eneg ds where split: "t = esg @ ds" "signed_as esg eneg"
    "(case t of c # rest \<Rightarrow> if c = 0x2B \<or> c = 0x2D then (c = 0x2D, rest) else (False, t) | [] \<Rightarrow> (False, t)) = (eneg, ds)"
  proof (cases "t \<noteq> [] \<and> (hd t = 0x2B \<or> hd t = 0x2D)")
    case True
    then show thesis using that [of "[hd t]" "tl t" "hd t = 0x2D"] by (cases t) (auto simp: signed_as_def)
  next
    case False
    then show thesis using that [of "[]" t False] by (cases t) (auto simp: signed_as_def)
  qed
  obtain e r where d: "parse_exponent_digits ds 0 = (e, r)" by fastforce
  have "ds \<noteq> []" "r = []"
    using assms unfolding parse_hex_exponent_def split(3) by (auto simp: d split: if_splits)
  moreover have "dropWhile is_dec ds = r" using parse_exponent_digits_eq [of ds 0] d by (simp add: INT64_MAX_def)
  ultimately show ?thesis using split(1,2) by (auto simp: list_all_iff)
qed

lemma parse_significand_sound:
  assumes "parse_significand s parsed False False False 0 = (p, True, frac, rest)"
  shows "\<exists>ip point fp. s = ip @ point @ fp @ rest \<and> list_all is_hex ip \<and> list_all is_hex fp \<and> ip @ fp \<noteq> [] \<and>
    (point = [] \<and> fp = [] \<or> point = [0x2E])"
proof -
  let ?ip = "takeWhile is_hex s" and ?r = "dropWhile is_hex s"
  let ?fp = "takeWhile is_hex (tl ?r)"
  have hex: "list_all is_hex ?ip" "list_all is_hex ?fp" by (auto simp: list_all_iff dest: set_takeWhileD)
  show ?thesis
  proof (cases "?r \<noteq> [] \<and> hd ?r = 0x2E")
    case True
    then have "?r = [0x2E] @ tl ?r" by (cases ?r) auto
    moreover have "rest = dropWhile is_hex (tl ?r)" "?ip \<noteq> [] \<or> ?fp \<noteq> []"
      using assms True by (auto simp: parse_significand_integer parse_significand_fraction split: prod.splits)
    ultimately have "s = ?ip @ [0x2E] @ ?fp @ rest" by (metis takeWhile_dropWhile_id)
    then show ?thesis using hex \<open>?ip \<noteq> [] \<or> ?fp \<noteq> []\<close> by (metis append_is_Nil_conv)
  next
    case False
    then have "rest = ?r" "?ip \<noteq> []"
      using assms by (auto simp: parse_significand_integer split: prod.splits if_splits)
    then have "s = ?ip @ [] @ [] @ rest" by simp
    then show ?thesis using hex(1) \<open>?ip \<noteq> []\<close> by (intro exI [of _ ?ip] exI [of _ "[]"]) simp
  qed
qed

lemma parse_hex_float_sound:
  assumes "iree_string_view_parse_hex_float s = Some p"
  shows "\<exists>neg ip fp x. hex_float_text neg ip fp x s"
proof -
  obtain sg neg b z where s: "s = sg @ b" "signed_as sg neg" and b: "parse_hex_unsigned b z = Some p"
  proof (cases "s ! 0 = 0x2B \<or> s ! 0 = 0x2D")
    case True
    have "s \<noteq> []" using assms by (auto simp: iree_string_view_parse_hex_float_def iree_string_view_is_empty_def)
    then have "s = [s ! 0] @ drop 1 s" by (cases s) auto
    moreover have "signed_as [s ! 0] (s ! 0 = 0x2D)" using True by (auto simp: signed_as_def)
    moreover have "parse_hex_unsigned (drop 1 s) (zero_hex_float\<lparr>is_negative := (s ! 0 = 0x2D)\<rparr>) = Some p"
      using assms True by (auto simp: iree_string_view_parse_hex_float_def Let_def split: if_splits)
    ultimately show thesis by (rule that)
  next
    case False
    then have "parse_hex_unsigned s zero_hex_float = Some p"
      using assms by (auto simp: iree_string_view_parse_hex_float_def Let_def split: if_splits)
    then show thesis using that [of "[]" s False] by (simp add: signed_as_def)
  qed
  obtain p' sd frac rest where ps: "parse_significand (drop 2 b) z False False False 0 = (p', sd, frac, rest)"
    by (metis prod_cases4)
  have c: "2 \<le> length b" "b ! 0 = 0x30" "iree_tolower (b ! 1) = 0x78" "sd" "rest \<noteq> []" "rest ! 0 \<in> {0x70, 0x50}"
    "parse_hex_exponent (drop 1 rest) frac p' = Some p"
    using b by (auto simp: parse_hex_unsigned_def ps split: if_splits)
  have ps': "parse_significand (drop 2 b) z False False False 0 = (p', True, frac, rest)" using ps c(4) by simp
  obtain ip point fp where d: "drop 2 b = ip @ point @ fp @ rest" "list_all is_hex ip" "list_all is_hex fp"
    "ip @ fp \<noteq> []" "point = [] \<and> fp = [] \<or> point = [0x2E]"
    using parse_significand_sound [OF ps'] by (elim exE conjE) (rule that)
  obtain esg eneg ds where e: "drop 1 rest = esg @ ds" "signed_as esg eneg" "ds \<noteq> []" "list_all is_dec ds"
    using parse_hex_exponent_sound [OF c(7)] by blast
  obtain mark b' where "b = 0x30 # mark # b'" "iree_tolower mark = 0x78"
    using c(1-3) by (cases b; cases "tl b") auto
  moreover obtain letter where "rest = letter # esg @ ds" "letter \<in> {0x70, 0x50}"
    using c(5,6) e(1) by (cases rest) auto
  ultimately have "s = sg @ [0x30, mark] @ ip @ point @ fp @ [letter] @ esg @ ds" using s(1) d(1) by simp
  then show ?thesis
    unfolding hex_float_text_def
    using s(2) d e \<open>iree_tolower mark = 0x78\<close> \<open>letter \<in> {0x70, 0x50}\<close> by blast
qed

end
