(* ===== verification/Hex_Float_Nearest.thy ===== *)
theory Hex_Float_Nearest
  imports Complex_Main Hex_Float_Format
begin

text \<open>
  The reference conversion as rounding of real numbers: the value of a bit pattern of an IEEE format, and
  that the pattern chosen for a number is nearest to it, with ties to the even pattern.
\<close>

definition ieee_value :: "nat \<Rightarrow> int \<Rightarrow> nat \<Rightarrow> real" where
  "ieee_value p emin b =
     (if b div 2 ^ (p - 1) = 0 then real (b mod 2 ^ (p - 1)) * 2 powi (emin - int p + 1)
      else real (2 ^ (p - 1) + b mod 2 ^ (p - 1)) * 2 powi (emin - int p + int (b div 2 ^ (p - 1))))"

lemma half_up: "2 powi (k + 1) = (2 :: real) * 2 powi k"
  by (simp add: power_int_add)

text \<open>The patterns of one binade, its upper end included.\<close>

lemma ieee_value_grid:
  assumes "0 < p" and "m \<le> 2 ^ p" and "q = 0 \<or> 2 ^ (p - 1) \<le> m"
  shows "ieee_value p emin (q * 2 ^ (p - 1) + m) = real m * 2 powi (emin - int p + 1 + int q)"
proof -
  define h where "h = (2 :: nat) ^ (p - 1)"
  have h: "0 < h" "2 ^ p = 2 * h" using assms(1) by (cases p; simp add: h_def)+
  have V: "ieee_value p emin b = (if b div h = 0 then real (b mod h) * 2 powi (emin - int p + 1)
      else real (h + b mod h) * 2 powi (emin - int p + int (b div h)))" for b
    by (simp only: ieee_value_def h_def)
  consider "m < h" "q = 0" | "h \<le> m" "m < 2 * h" | "m = 2 * h"
    using assms(2,3) h(2) unfolding h_def [symmetric] by linarith
  then show ?thesis
    unfolding h_def [symmetric]
  proof cases
    case 1
    then show "ieee_value p emin (q * h + m) = real m * 2 powi (emin - int p + 1 + int q)" by (simp add: V)
  next
    case 2
    then have "(q * h + m) div h = q + 1" "(q * h + m) mod h = m - h"
      using h(1) by (simp_all add: div_add1_eq le_div_geq le_mod_geq)
    then show "ieee_value p emin (q * h + m) = real m * 2 powi (emin - int p + 1 + int q)"
      using 2 by (simp add: V add_ac)
  next
    case 3
    then have "(q * h + m) div h = q + 2" "(q * h + m) mod h = 0" using h(1) by simp_all
    then show "ieee_value p emin (q * h + m) = real m * 2 powi (emin - int p + 1 + int q)"
      using 3 half_up [of "emin - int p + 1 + int q"] by (simp add: V add_ac)
  qed
qed

lemma grid_form:
  fixes b :: nat
  assumes "0 < p"
  obtains q m where "b = q * 2 ^ (p - 1) + m" "m < 2 ^ p" "q = 0 \<or> 2 ^ (p - 1) \<le> m"
proof (cases "b div 2 ^ (p - 1)")
  case 0
  then have "b < 2 ^ (p - 1)" by (simp add: div_eq_0_iff)
  also have "(2 :: nat) ^ (p - 1) \<le> 2 ^ p" by (intro power_increasing) auto
  finally show thesis using that [of 0 b] by simp
next
  case (Suc q)
  have "b mod 2 ^ (p - 1) < 2 ^ (p - 1)" by simp
  moreover have "(2 :: nat) ^ p = 2 * 2 ^ (p - 1)" using assms by (cases p) auto
  moreover have "b = q * 2 ^ (p - 1) + (2 ^ (p - 1) + b mod 2 ^ (p - 1))"
    using div_mult_mod_eq [of b "2 ^ (p - 1)"] Suc by simp
  ultimately show thesis using that by simp
qed

lemma ieee_value_Suc:
  assumes "0 < p" "b = q * 2 ^ (p - 1) + m" "m < 2 ^ p" "q = 0 \<or> 2 ^ (p - 1) \<le> m"
  shows "ieee_value p emin (Suc b) = ieee_value p emin b + 2 powi (emin - int p + 1 + int q)"
  using ieee_value_grid [of p m q emin] ieee_value_grid [of p "Suc m" q emin] assms
  by (auto simp: algebra_simps)

lemma ieee_value_strict_mono: "0 < p \<Longrightarrow> b < c \<Longrightarrow> ieee_value p emin b < ieee_value p emin c"
proof (rule lift_Suc_mono_less [of "ieee_value p emin"])
  fix b :: nat assume "0 < p"
  then obtain q m where "b = q * 2 ^ (p - 1) + m" "m < 2 ^ p" "q = 0 \<or> 2 ^ (p - 1) \<le> m" by (rule grid_form)
  then show "ieee_value p emin b < ieee_value p emin (Suc b)"
    using ieee_value_Suc [OF \<open>0 < p\<close>, of b q m emin] by simp
qed

section \<open>The rounding error\<close>

text \<open>Rounding to nearest even is off by at most one half, and by exactly one half only at an even result.\<close>

lemma round_nearest_even_error:
  defines "m n k \<equiv> round_nearest_even n k"
  shows "\<bar>real n - real (m n k) * 2 ^ k\<bar> \<le> 2 ^ k / 2"
    and "\<bar>real n - real (m n k) * 2 ^ k\<bar> = 2 ^ k / 2 \<Longrightarrow> even (m n k)"
proof -
  let ?q = "n div 2 ^ k" and ?r = "n mod 2 ^ k"
  have "real n = real (?q * 2 ^ k + ?r)" by (simp only: div_mult_mod_eq)
  also have "\<dots> = real ?q * 2 ^ k + real ?r" unfolding of_nat_add of_nat_mult by simp
  finally have n: "real n = real ?q * 2 ^ k + real ?r" .
  have "real ?r < real (2 ^ k)" unfolding of_nat_less_iff by simp
  then have r: "real ?r < 2 ^ k" by simp
  have up: "2 * ?r > 2 ^ k \<longleftrightarrow> 2 * real ?r > 2 ^ k" "2 * ?r = 2 ^ k \<longleftrightarrow> 2 * real ?r = 2 ^ k"
    using of_nat_less_iff [where 'a = real, of "2 ^ k" "2 * ?r"] of_nat_eq_iff [where 'a = real, of "2 * ?r" "2 ^ k"]
    by simp_all
  have error: "real n - real (m n k) * 2 ^ k =
      (if 2 * real ?r > 2 ^ k \<or> 2 * real ?r = 2 ^ k \<and> odd ?q then real ?r - 2 ^ k else real ?r)"
    unfolding m_def round_nearest_even_def Let_def up using n by (auto simp: algebra_simps)
  have parity: "even (m n k)" if "2 * real ?r = 2 ^ k"
    using that by (simp add: m_def round_nearest_even_def Let_def up)
  show "\<bar>real n - real (m n k) * 2 ^ k\<bar> \<le> 2 ^ k / 2" unfolding error using r by (auto simp: abs_if)
  show "\<bar>real n - real (m n k) * 2 ^ k\<bar> = 2 ^ k / 2 \<Longrightarrow> even (m n k)"
    unfolding error using r parity by (auto simp: abs_if split: if_splits)
qed

lemma rounded_significand_error:
  defines "m n e u \<equiv> rounded_significand n e u"
  shows "\<bar>real n * 2 powi e - real (m n e u) * 2 powi u\<bar> \<le> 2 powi u / 2"
    and "\<bar>real n * 2 powi e - real (m n e u) * 2 powi u\<bar> = 2 powi u / 2 \<Longrightarrow> even (m n e u)"
proof -
  have "\<bar>real n * 2 powi e - real (m n e u) * 2 powi u\<bar> \<le> 2 powi u / 2 \<and>
    (\<bar>real n * 2 powi e - real (m n e u) * 2 powi u\<bar> = 2 powi u / 2 \<longrightarrow> even (m n e u))"
  proof (cases "u \<le> e")
    case True
    then have "(2 :: real) powi e = 2 ^ nat (e - u) * 2 powi u"
      by (simp flip: power_int_of_nat power_int_add)
    then have "real n * 2 powi e = real (m n e u) * 2 powi u"
      using True by (simp add: m_def rounded_significand_def)
    then show ?thesis by simp
  next
    case False
    let ?k = "nat (u - e)"
    have "(2 :: real) powi u = 2 ^ ?k * 2 powi e" using False by (simp flip: power_int_of_nat power_int_add)
    moreover have "m n e u = round_nearest_even n ?k" using False by (simp add: m_def rounded_significand_def)
    ultimately have "real n * 2 powi e - real (m n e u) * 2 powi u =
        (real n - real (round_nearest_even n ?k) * 2 ^ ?k) * 2 powi e" "2 powi u / 2 = (2 ^ ?k / 2) * (2 :: real) powi e"
      by (simp_all add: algebra_simps)
    then show ?thesis
      using round_nearest_even_error [of n ?k] \<open>m n e u = _\<close> by (simp add: abs_mult)
  qed
  then show "\<bar>real n * 2 powi e - real (m n e u) * 2 powi u\<bar> \<le> 2 powi u / 2"
    and "\<bar>real n * 2 powi e - real (m n e u) * 2 powi u\<bar> = 2 powi u / 2 \<Longrightarrow> even (m n e u)" by auto
qed

section \<open>Nearest patterns\<close>

lemma ieee_value_mono: "0 < p \<Longrightarrow> b \<le> c \<Longrightarrow> ieee_value p emin b \<le> ieee_value p emin c"
  using ieee_value_strict_mono [of p b c emin] by (cases "b = c") auto

text \<open>Above a pattern of a binade the next one is at least a unit away; below it, when it is inside, too.\<close>

lemma ieee_value_above:
  assumes "0 < p" "b = q * 2 ^ (p - 1) + m" "m \<le> 2 ^ p" "q = 0 \<or> 2 ^ (p - 1) \<le> m" "b < c"
  shows "ieee_value p emin b + 2 powi (emin - int p + 1 + int q) \<le> ieee_value p emin c"
proof -
  have "ieee_value p emin b + 2 powi (emin - int p + 1 + int q) \<le> ieee_value p emin (Suc b)"
  proof (cases "m = 2 ^ p")
    case True
    have "(2 :: nat) ^ p = 2 * 2 ^ (p - 1)" using assms(1) by (cases p) auto
    then have "b = (q + 1) * 2 ^ (p - 1) + 2 ^ (p - 1)" "(2 :: nat) ^ (p - 1) < 2 ^ p"
      using assms(2) True by (simp_all add: algebra_simps)
    from ieee_value_Suc [OF assms(1) this] half_up [of "emin - int p + 1 + int q"] show ?thesis
      by (simp add: add_ac)
  next
    case False
    then show ?thesis using ieee_value_Suc [OF assms(1,2) _ assms(4)] assms(3) by simp
  qed
  also have "\<dots> \<le> ieee_value p emin c" using assms(1,5) by (intro ieee_value_mono) auto
  finally show ?thesis .
qed

lemma ieee_value_below:
  assumes "0 < p" "b = q * 2 ^ (p - 1) + m" "m \<le> 2 ^ p" "q = 0 \<or> 2 ^ (p - 1) < m" "c < b" "0 < m"
  shows "ieee_value p emin c + 2 powi (emin - int p + 1 + int q) \<le> ieee_value p emin b"
proof -
  have "b - 1 = q * 2 ^ (p - 1) + (m - 1)" "m - 1 < 2 ^ p" "q = 0 \<or> 2 ^ (p - 1) \<le> m - 1" using assms by auto
  from ieee_value_Suc [OF assms(1) this, of emin]
  have "ieee_value p emin b = ieee_value p emin (b - 1) + 2 powi (emin - int p + 1 + int q)" using assms(5) by simp
  moreover have "ieee_value p emin c \<le> ieee_value p emin (b - 1)" using assms(1,5) by (intro ieee_value_mono) auto
  ultimately show ?thesis by simp
qed

text \<open>Within half a unit and at least a unit from every other pattern: nearest, and only ties remain.\<close>

lemma nearest_of_gap:
  fixes x y z d :: real
  assumes "\<bar>x - y\<bar> \<le> d / 2" and "y + d \<le> z \<or> z + d \<le> y"
  shows "\<bar>x - y\<bar> \<le> \<bar>x - z\<bar>" and "\<bar>x - y\<bar> = \<bar>x - z\<bar> \<Longrightarrow> \<bar>x - y\<bar> = d / 2"
  using assms by (auto simp: abs_if split: if_splits)

context ieee_format
begin

lemma ieee_round_parts:
  assumes "n \<noteq> 0" and finite: "ieee_round precision min_exp max_exp n e < nat (max_exp - min_exp + 2) * 2 ^ (precision - 1)"
  obtains q m where "ieee_round precision min_exp max_exp n e = q * 2 ^ (precision - 1) + m"
    "m = rounded_significand n e (min_exp - int precision + 1 + int q)" "m \<le> 2 ^ precision"
    "q = 0 \<or> 2 ^ (precision - 1) \<le> m"
    "0 < q \<Longrightarrow> 2 ^ (precision - 1) * 2 powi (min_exp - int precision + 1 + int q) \<le> real n * 2 powi e"
proof -
  define L E where "L = bit_length n" and "E = e + int L - 1"
  have B: "n < 2 ^ L" "2 ^ (L - 1) \<le> n" "0 < L"
    using bit_length_bounds [of n] assms(1) bit_length_pos [of n] by (auto simp: L_def)
  have E: "E \<le> max_exp" using finite assms(1) by (auto simp: ieee_round_def Let_def E_def L_def split: if_splits)
  define q where "q = nat (max E min_exp - min_exp)"
  define m where "m = rounded_significand n e (min_exp - int precision + 1 + int q)"
  have u: "max E min_exp - int precision + 1 = min_exp - int precision + 1 + int q" by (simp add: q_def)
  have r: "ieee_round precision min_exp max_exp n e = q * 2 ^ (precision - 1) + m"
    using E assms(1) unfolding ieee_round_def Let_def m_def L_def [symmetric] E_def [symmetric] u
    by (simp add: q_def)
  show thesis
  proof (cases "min_exp \<le> E")
    case True
    then have u': "min_exp - int precision + 1 + int q = e + int L - int precision" by (simp add: q_def E_def)
    have M: "2 ^ (precision - 1) \<le> m" "m \<le> 2 ^ precision"
      using rounded_significand_bounds [OF B u', folded m_def] precision by simp_all
    have "(2 :: real) ^ (precision - 1) * 2 powi (e + int L - int precision) = 2 powi (e + int (L - 1))"
      using precision B(3) by (simp add: of_nat_diff add_diff_eq flip: power_int_of_nat power_int_add)
    also have "\<dots> = real (2 ^ (L - 1)) * 2 powi e" by (simp add: power_int_add)
    also have "\<dots> \<le> real n * 2 powi e" using B(2) by (intro mult_right_mono) (simp_all only: of_nat_le_iff, simp)
    finally show thesis using that [of q m] r m_def M u' by simp
  next
    case False
    then have "q = 0" by (simp add: q_def)
    have "m \<le> 2 ^ (precision - 1)"
      using subnormal_small [OF B] False \<open>q = 0\<close> by (simp add: m_def E_def)
    also have "(2 :: nat) ^ (precision - 1) \<le> 2 ^ precision" by (intro power_increasing) auto
    finally show thesis using that [of 0 m] r m_def \<open>q = 0\<close> by simp
  qed
qed

lemma ieee_round_nearest:
  fixes n :: nat and e :: int
  defines "b \<equiv> ieee_round precision min_exp max_exp n e" and "x \<equiv> real n * 2 powi e"
  assumes finite: "b < nat (max_exp - min_exp + 2) * 2 ^ (precision - 1)"
  shows "\<bar>x - ieee_value precision min_exp b\<bar> \<le> \<bar>x - ieee_value precision min_exp c\<bar>"
    and "c \<noteq> b \<Longrightarrow> \<bar>x - ieee_value precision min_exp b\<bar> = \<bar>x - ieee_value precision min_exp c\<bar> \<Longrightarrow> even b"
proof -
  let ?V = "ieee_value precision min_exp"
  have p: "0 < precision" using precision by simp
  have "\<bar>x - ?V b\<bar> \<le> \<bar>x - ?V c\<bar> \<and> (\<bar>x - ?V b\<bar> = \<bar>x - ?V c\<bar> \<longrightarrow> even b)" if "c \<noteq> b"
  proof (cases "n = 0")
    case True
    then show ?thesis by (simp add: b_def x_def ieee_round_def ieee_value_def)
  next
    case False
    then obtain q m where bq: "b = q * 2 ^ (precision - 1) + m"
      and m: "m = rounded_significand n e (min_exp - int precision + 1 + int q)" "m \<le> 2 ^ precision"
        "q = 0 \<or> 2 ^ (precision - 1) \<le> m"
      and low: "0 < q \<Longrightarrow> 2 ^ (precision - 1) * 2 powi (min_exp - int precision + 1 + int q) \<le> x"
      using ieee_round_parts [of n e] finite unfolding b_def x_def by metis
    define d where "d = (2 :: real) powi (min_exp - int precision + 1 + int q)"
    have d: "0 < d" by (simp add: d_def)
    have V: "?V b = real m * d" using ieee_value_grid [OF p m(2,3)] by (simp add: bq d_def)
    note err = rounded_significand_error [of n e "min_exp - int precision + 1 + int q",
        folded m(1) d_def x_def, folded V]
    have even: "even m \<Longrightarrow> even b" using precision by (simp add: bq)
    show ?thesis
    proof (cases "?V b \<le> x \<and> c < b")
      case True
      then have "?V c < ?V b" using ieee_value_strict_mono [OF p] by blast
      then show ?thesis using True by auto
    next
      case False
      have "?V b + d \<le> ?V c \<or> ?V c + d \<le> ?V b"
      proof (cases "b < c")
        case True
        then show ?thesis using ieee_value_above [OF p bq m(2,3)] by (simp add: d_def)
      next
        case False
        with \<open>\<not> (?V b \<le> x \<and> c < b)\<close> that have "x < ?V b" "c < b" by auto
        have "0 \<le> x" by (simp add: x_def)
        then have "0 < m" using \<open>x < ?V b\<close> V by (cases "m = 0") auto
        moreover have "q = 0 \<or> 2 ^ (precision - 1) < m"
        proof (rule ccontr)
          assume "\<not> (q = 0 \<or> 2 ^ (precision - 1) < m)"
          then have "0 < q" "m = 2 ^ (precision - 1)" using m(3) by auto
          then show False using low \<open>x < ?V b\<close> V by (simp add: d_def)
        qed
        ultimately show ?thesis using ieee_value_below [OF p bq m(2) _ \<open>c < b\<close>] by (simp add: d_def)
      qed
      then show ?thesis using nearest_of_gap [OF err(1)] err(2) even by blast
    qed
  qed
  then show "\<bar>x - ?V b\<bar> \<le> \<bar>x - ?V c\<bar>" and "c \<noteq> b \<Longrightarrow> \<bar>x - ?V b\<bar> = \<bar>x - ?V c\<bar> \<Longrightarrow> even b"
    by (cases "c = b"; simp)+
qed

end

end
