(* ===== verification/Hex_Float_Properties.thy ===== *)
theory Hex_Float_Properties
  imports Hex_Float_Parse Hex_Float_Nearest
begin

text \<open>
  What the floating-point parsers guarantee on hexadecimal texts: the exact number that the text denotes is
  rounded once, to the nearest representable value, and malformed texts are refused.
\<close>

context ieee_format
begin

lemma parsed_bits:
  assumes t: "hex_float_text neg ip fp x s" and len: "length s \<le> 2 ^ 57"
  shows "\<exists>p. iree_string_view_parse_hex_float s = Some p \<and>
    unat (iree_hex_float_to_ieee_bits p precision min_exp max_exp bias sign_pos) =
      (if neg then 2 ^ sign_pos else 0) +
      ieee_round precision min_exp max_exp (hex_value 0 (ip @ fp)) (x - 4 * int (length fp))"
proof -
  obtain p L where p: "iree_string_view_parse_hex_float s = Some p" "significand_of p (hex_value 0 (ip @ fp)) L"
    "L \<le> 2 ^ 60" "is_negative p = neg" "binary_exponent p = stored_exponent x (int (length fp))"
    using parse_hex_float_accepts [OF assms] by blast
  have frac: "0 \<le> int (length fp)" "int (length fp) \<le> 2 ^ 57" using t len by (auto simp: hex_float_text_def)
  have "bit_length (hex_value 0 (ip @ fp)) = L" using p(2) by (auto simp: significand_of_def intro: bit_length_eq)
  then show ?thesis
    using to_ieee_bits_eq [OF p(2,3)] stored_exponent_range [OF frac, of x] ieee_round_stored [OF frac, of _ x]
      p(1,3-5) by auto
qed

end

lemma hex_float_bits:
  assumes "hex_float_text neg ip fp x s" and "length s \<le> 2 ^ 57"
    and "list_all c_isspace pre" and "list_all c_isspace post"
  shows "map_option unat (iree_string_view_atod strtod (pre @ s @ post)) =
      Some ((if neg then 2 ^ 63 else 0) + ieee_round 53 (- 1022) 1023 (hex_value 0 (ip @ fp)) (x - 4 * int (length fp))) \<and>
    map_option unat (iree_string_view_atof strtof (pre @ s @ post)) =
      Some ((if neg then 2 ^ 31 else 0) + ieee_round 24 (- 126) 127 (hex_value 0 (ip @ fp)) (x - 4 * int (length fp)))"
proof -
  note ends = hex_float_text_ends [OF assms(1)]
  have trim: "iree_string_view_trim (pre @ s @ post) = s"
    using trim_surrounded [OF assms(3,4)] ends by blast
  let ?n = "hex_value 0 (ip @ fp)" and ?e = "x - 4 * int (length fp)"
  obtain p where p: "iree_string_view_parse_hex_float s = Some p"
      "unat (iree_hex_float_to_ieee_bits p 53 (- 1022) 1023 1023 63) =
        (if neg then 2 ^ 63 else 0) + ieee_round 53 (- 1022) 1023 ?n ?e"
    using binary64.parsed_bits [OF assms(1,2)] by blast
  have q: "unat (iree_hex_float_to_ieee_bits p 24 (- 126) 127 127 31) =
        (if neg then 2 ^ 31 else 0) + ieee_round 24 (- 126) 127 ?n ?e"
    using binary32.parsed_bits [OF assms(1,2)] p(1) by auto
  have "unat (ucast (iree_hex_float_to_ieee_bits p 24 (- 126) 127 127 31) :: u32) =
      unat (iree_hex_float_to_ieee_bits p 24 (- 126) 127 127 31)"
    using q binary32.ieee_round_less [of ?n ?e] by (simp add: unsigned_ucast_eq take_bit_nat_eq_self)
  then show ?thesis
    using p q ends(4) by (simp add: iree_string_view_atod_def iree_string_view_atof_def trim)
qed

text \<open>
  C31. Parsing a hexadecimal float, with any white space around it, yields the sign bit and the reference
  rounding of the exact number that the digits and the exponent denote to binary64 and to
  binary32, whatever the number of digits and the size of the exponent (for texts up to 2 to the power of 57 bytes).
\<close>

theorem hex_float_rounds:
  assumes "hex_float_text neg ip fp x s" and "length s \<le> 2 ^ 57"
    and "list_all c_isspace pre" and "list_all c_isspace post"
  shows "map_option unat (iree_string_view_atod strtod (pre @ s @ post)) =
      Some ((if neg then 2 ^ 63 else 0) + ieee_round 53 (- 1022) 1023 (hex_value 0 (ip @ fp)) (x - 4 * int (length fp))) \<and>
    map_option unat (iree_string_view_atof strtof (pre @ s @ post)) =
      Some ((if neg then 2 ^ 31 else 0) + ieee_round 24 (- 126) 127 (hex_value 0 (ip @ fp)) (x - 4 * int (length fp)))"
  using assms by (rule hex_float_bits)

lemma sample_text: "hex_float_text True (IREE_SV ''1'') (IREE_SV ''8'') 2 (IREE_SV ''-0x1.8p+2'')"
proof -
  have tail: "IREE_SV ''-0x1.8p+2'' = [0x2D] @ [0x30, 0x78] @ [0x31] @ [0x2E] @ [0x38] @ [0x70] @ [0x2B] @ [0x32]"
    by simp
  have digits: "is_hex 0x31" "is_hex 0x38" "is_dec 0x32" "iree_tolower 0x78 = 0x78" "dec_value 0 [0x32] = 2"
    by code_simp+
  show ?thesis
    unfolding hex_float_text_def
    by (rule exI [of _ "[0x2D]"], rule exI [of _ "0x78"], rule exI [of _ "[0x2E]"], rule exI [of _ "0x70"],
        rule exI [of _ "[0x2B]"], rule exI [of _ False], rule exI [of _ "[0x32]"])
      (use digits in \<open>simp add: signed_as_def\<close>)
qed

lemma sample_value: "hex_value 0 (IREE_SV ''1'' @ IREE_SV ''8'') = 24"
proof -
  have "iree_hex_digit_value 0x31 = 1" "iree_hex_digit_value 0x38 = 8" by code_simp+
  then show ?thesis by simp
qed

lemma sample_rounded: "ieee_round 53 (- 1022) 1023 24 (- 2) = 0x4018000000000000"
  by (simp add: ieee_round_def bit_length_pos rounded_significand_def)

theorem hex_float_rounds_witness:
  "map_option unat (iree_string_view_atod (\<lambda>_. (0, 0)) (IREE_SV ''-0x1.8p+2'')) = Some 0xC018000000000000"
  using hex_float_rounds [OF sample_text, of "[]" "[]" "\<lambda>_. (0, 0)"]
  unfolding sample_value by (simp add: sample_rounded)

text \<open>
  C30. The binary64 value stored for a hexadecimal float is the representable value nearest to the number
  that the text denotes: no bit pattern of the format has a closer value, and where another one is
  equally close the stored pattern is the even one. (Patterns from 0x7FF0000000000000 on are not finite.)
\<close>

theorem hex_float_nearest:
  assumes "hex_float_text neg ip fp x s" and "length s \<le> 2 ^ 57"
    and "iree_string_view_atod strtod s = Some w" and "unat w mod 2 ^ 63 < 0x7FF0000000000000"
  shows "\<bar>real (hex_value 0 (ip @ fp)) * 2 powi (x - 4 * int (length fp)) - ieee_value 53 (- 1022) (unat w mod 2 ^ 63)\<bar>
      \<le> \<bar>real (hex_value 0 (ip @ fp)) * 2 powi (x - 4 * int (length fp)) - ieee_value 53 (- 1022) c\<bar> \<and>
    (c \<noteq> unat w mod 2 ^ 63 \<and>
      \<bar>real (hex_value 0 (ip @ fp)) * 2 powi (x - 4 * int (length fp)) - ieee_value 53 (- 1022) (unat w mod 2 ^ 63)\<bar> =
      \<bar>real (hex_value 0 (ip @ fp)) * 2 powi (x - 4 * int (length fp)) - ieee_value 53 (- 1022) c\<bar> \<longrightarrow>
      even (unat w)) \<and> (unat w \<ge> 2 ^ 63 \<longleftrightarrow> neg)"
proof -
  let ?b = "ieee_round 53 (- 1022) 1023 (hex_value 0 (ip @ fp)) (x - 4 * int (length fp))"
  have "unat w = (if neg then 2 ^ 63 else 0) + ?b"
    using hex_float_bits [OF assms(1,2), of "[]" "[]" strtod] assms(3) by simp
  moreover have "?b < 2 ^ 63" by (rule binary64.ieee_round_less)
  ultimately have b: "unat w mod 2 ^ 63 = ?b" "even (unat w) = even ?b" "unat w \<ge> 2 ^ 63 \<longleftrightarrow> neg" by auto
  then show ?thesis
    using binary64.ieee_round_nearest [of "hex_value 0 (ip @ fp)" "x - 4 * int (length fp)" c] assms(4) by auto
qed

theorem hex_float_nearest_witness:
  "\<exists>w. iree_string_view_atod (\<lambda>_. (0, 0)) (IREE_SV ''-0x1.8p+2'') = Some w \<and>
    \<bar>real 24 * 2 powi - 2 - ieee_value 53 (- 1022) (unat w mod 2 ^ 63)\<bar> \<le> \<bar>real 24 * 2 powi - 2 - ieee_value 53 (- 1022) 1\<bar>"
proof -
  obtain w where w: "iree_string_view_atod (\<lambda>_. (0, 0)) (IREE_SV ''-0x1.8p+2'') = Some w" "unat w = 0xC018000000000000"
    using hex_float_bits [OF sample_text, of "[]" "[]" "\<lambda>_. (0, 0)"]
    unfolding sample_value by (auto simp: sample_rounded)
  show ?thesis
    using hex_float_nearest [OF sample_text _ w(1), of 1] w unfolding sample_value by auto
qed

text \<open>
  C33. A text with the hexadecimal marker that is not a hexadecimal float is refused by both parsers, and
  so is a text without the marker that is empty or too long for the bounded decimal parser.
\<close>

theorem malformed_floats_refused:
  assumes "if iree_string_view_is_hex_float (iree_string_view_trim s)
    then \<not> (\<exists>neg ip fp x. hex_float_text neg ip fp x (iree_string_view_trim s))
    else iree_string_view_trim s = [] \<or> 64 \<le> length (iree_string_view_trim s)"
  shows "iree_string_view_atod strtod s = None \<and> iree_string_view_atof strtof s = None"
proof (cases "iree_string_view_is_hex_float (iree_string_view_trim s)")
  case True
  then have "iree_string_view_parse_hex_float (iree_string_view_trim s) = None"
    using assms parse_hex_float_sound by (cases "iree_string_view_parse_hex_float (iree_string_view_trim s)") auto
  then show ?thesis using True by (simp add: iree_string_view_atod_def iree_string_view_atof_def)
next
  case False
  then show ?thesis
    using assms by (auto simp: iree_string_view_atod_def iree_string_view_atof_def iree_string_view_is_empty_def Let_def)
qed

theorem malformed_floats_refused_witness:
  "iree_string_view_atod (\<lambda>_. (0, 3)) (IREE_SV ''   '') = None"
proof -
  have "iree_string_view_trim (IREE_SV ''   '') = []" by (simp add: trim_eq c_isspace_def)
  then show ?thesis
    using malformed_floats_refused [of "IREE_SV ''   ''"] by (simp add: iree_string_view_is_hex_float_def)
qed

end
