(* ===== verification/String_Numbers.thy ===== *)
theory String_Numbers
  imports String_View
begin

text \<open>
  The integer, byte and size parsers of \<^verbatim>\<open>runtime/src/iree/base/string_view.c\<close>.
\<close>

section \<open>Integers through the C library\<close>

text \<open>
  \<^verbatim>\<open>strtol\<close> and its relatives (C17 7.22.1.4, C locale, 64-bit \<^verbatim>\<open>long\<close>): leading white space, an optional sign,
  an optional \<^verbatim>\<open>0x\<close> for base 16 or 0 (only when a digit follows it), base 0 choosing 16, 8 or 10 by the prefix,
  then the longest run of digits. The common part yields the sign, the magnitude and the number of
  characters consumed, zero when there is no digit.
\<close>

definition radix_digit :: "u8 \<Rightarrow> nat option" where
  "radix_digit c =
     (if 0x30 \<le> c \<and> c \<le> 0x39 then Some (unat c - 0x30)
      else if 0x61 \<le> c \<and> c \<le> 0x7A then Some (unat c - 0x61 + 10)
      else if 0x41 \<le> c \<and> c \<le> 0x5A then Some (unat c - 0x41 + 10)
      else None)"

definition is_radix_digit :: "nat \<Rightarrow> u8 \<Rightarrow> bool" where
  "is_radix_digit base c \<longleftrightarrow> (case radix_digit c of None \<Rightarrow> False | Some d \<Rightarrow> d < base)"

definition radix_value :: "nat \<Rightarrow> u8 list \<Rightarrow> nat" where
  "radix_value base ds = foldl (\<lambda>n c. base * n + (case radix_digit c of None \<Rightarrow> 0 | Some d \<Rightarrow> d)) 0 ds"

definition has_hex_prefix :: "u8 list \<Rightarrow> bool" where
  "has_hex_prefix s \<longleftrightarrow> length s \<ge> 3 \<and> s ! 0 = 0x30 \<and> (s ! 1 = 0x78 \<or> s ! 1 = 0x58) \<and> is_radix_digit 16 (s ! 2)"

definition c_strto :: "nat \<Rightarrow> u8 list \<Rightarrow> bool \<times> nat \<times> nat" where
  "c_strto base s =
     (let spaces = length (takeWhile c_isspace s);
          s = drop spaces s;
          has_sign = (length s > 0 \<and> (s ! 0 = 0x2B \<or> s ! 0 = 0x2D));
          negative = (has_sign \<and> s ! 0 = 0x2D);
          s = (if has_sign then drop 1 s else s);
          prefixed = ((base = 0 \<or> base = 16) \<and> has_hex_prefix s);
          base = (if base \<noteq> 0 then base else if prefixed then 16
                  else if length s > 0 \<and> s ! 0 = 0x30 then 8 else 10);
          digits = takeWhile (is_radix_digit base) (if prefixed then drop 2 s else s)
      in if length digits = 0 then (False, 0, 0)
         else (negative, radix_value base digits,
               spaces + (if has_sign then 1 else 0) + (if prefixed then 2 else 0) + length digits))"

text \<open>The signed and unsigned results with the range error flag (\<^verbatim>\<open>errno == ERANGE\<close>) and the consumed length.\<close>

definition c_strtol :: "nat \<Rightarrow> u8 list \<Rightarrow> int \<times> bool \<times> nat" where
  "c_strtol base s =
     (case c_strto base s of (negative, magnitude, consumed) \<Rightarrow>
        if negative
        then if magnitude > 9223372036854775808 then (- 9223372036854775808, True, consumed)
             else (- int magnitude, False, consumed)
        else if magnitude > 9223372036854775807 then (9223372036854775807, True, consumed)
        else (int magnitude, False, consumed))"

definition c_strtoul :: "nat \<Rightarrow> u8 list \<Rightarrow> u64 \<times> bool \<times> nat" where
  "c_strtoul base s =
     (case c_strto base s of (negative, magnitude, consumed) \<Rightarrow>
        if magnitude > 18446744073709551615 then (NOT 0, True, consumed)
        else if negative then (- word_of_nat magnitude, False, consumed)
        else (word_of_nat magnitude, False, consumed))"

text \<open>
  The parsers copy the text into a zeroed buffer of 16 or 32 characters first. They yield the value, or
  nothing where the code returns false. \<^verbatim>\<open>errno\<close> is only ever \<^verbatim>\<open>ERANGE\<close> here, since the base is valid.
\<close>

definition iree_string_view_atoi_int32_base :: "iree_string_view_t \<Rightarrow> nat \<Rightarrow> 32 word option" where
  "iree_string_view_atoi_int32_base text base =
     (if iree_string_view_is_empty text \<or> length text \<ge> 16 then None
      else let (parsed_value, range_error, consumed) = c_strtol base (text @ replicate (16 - length text) 0)
           in if consumed = 0 then None
              else if (parsed_value = - 9223372036854775808 \<or> parsed_value = 9223372036854775807) \<and> range_error
              then None
              else if parsed_value \<noteq> 0 \<or> \<not> range_error then Some (word_of_int parsed_value) else None)"

definition iree_string_view_atoi_uint32_base :: "iree_string_view_t \<Rightarrow> nat \<Rightarrow> u32 option" where
  "iree_string_view_atoi_uint32_base text base =
     (if iree_string_view_is_empty text \<or> length text \<ge> 16 then None
      else let (parsed_value, range_error, consumed) = c_strtoul base (text @ replicate (16 - length text) 0)
           in if consumed = 0 then None
              else if parsed_value = NOT 0 \<and> range_error then None
              else if parsed_value \<noteq> 0 \<or> \<not> range_error then Some (ucast parsed_value) else None)"

definition iree_string_view_atoi_int64_base :: "iree_string_view_t \<Rightarrow> nat \<Rightarrow> 64 word option" where
  "iree_string_view_atoi_int64_base text base =
     (if iree_string_view_is_empty text \<or> length text \<ge> 32 then None
      else let (parsed_value, range_error, consumed) = c_strtol base (text @ replicate (32 - length text) 0)
           in if consumed = 0 then None
              else if (parsed_value = - 9223372036854775808 \<or> parsed_value = 9223372036854775807) \<and> range_error
              then None
              else if parsed_value \<noteq> 0 \<or> \<not> range_error then Some (word_of_int parsed_value) else None)"

definition iree_string_view_atoi_uint64_base :: "iree_string_view_t \<Rightarrow> nat \<Rightarrow> u64 option" where
  "iree_string_view_atoi_uint64_base text base =
     (if iree_string_view_is_empty text \<or> length text \<ge> 32 then None
      else let (parsed_value, range_error, consumed) = c_strtoul base (text @ replicate (32 - length text) 0)
           in if consumed = 0 then None
              else if parsed_value = NOT 0 \<and> range_error then None
              else if parsed_value \<noteq> 0 \<or> \<not> range_error then Some parsed_value else None)"

definition iree_string_view_atoi_int32 :: "iree_string_view_t \<Rightarrow> 32 word option" where
  "iree_string_view_atoi_int32 text = iree_string_view_atoi_int32_base text 0"

definition iree_string_view_atoi_uint32 :: "iree_string_view_t \<Rightarrow> u32 option" where
  "iree_string_view_atoi_uint32 text = iree_string_view_atoi_uint32_base text 0"

definition iree_string_view_atoi_int64 :: "iree_string_view_t \<Rightarrow> 64 word option" where
  "iree_string_view_atoi_int64 text = iree_string_view_atoi_int64_base text 0"

definition iree_string_view_atoi_uint64 :: "iree_string_view_t \<Rightarrow> u64 option" where
  "iree_string_view_atoi_uint64 text = iree_string_view_atoi_uint64_base text 0"

section \<open>Hexadecimal bytes\<close>

definition iree_string_view_parse_hex_nibble :: "u8 \<Rightarrow> u8 option" where
  "iree_string_view_parse_hex_nibble c =
     (if 0x30 \<le> c \<and> c \<le> 0x39 then Some (c - 0x30)
      else if 0x61 \<le> c \<and> c \<le> 0x66 then Some (c - 0x61 + 10)
      else if 0x41 \<le> c \<and> c \<le> 0x46 then Some (c - 0x41 + 10)
      else None)"

text \<open>
  The loop over the bytes of the buffer, with the rest of the text; it yields the bytes written when all
  of them are read and nothing is left. The bytes already written on a failure are not modelled.
\<close>

fun parse_hex_bytes_from :: "nat \<Rightarrow> nat \<Rightarrow> iree_string_view_t \<Rightarrow> u8 list option" where
  "parse_hex_bytes_from i (Suc remaining) text =
     (let text = (if i > 0 \<and> length text \<noteq> 0 \<and> (text ! 0 = 0x20 \<or> text ! 0 = 0x2D)
                  then iree_string_view_remove_prefix text 1 else text)
      in if length text < 2 then None
         else case (iree_string_view_parse_hex_nibble (text ! 0), iree_string_view_parse_hex_nibble (text ! 1)) of
                (Some b0, Some b1) \<Rightarrow>
                  (case parse_hex_bytes_from (Suc i) remaining (iree_string_view_remove_prefix text 2) of
                     None \<Rightarrow> None
                   | Some bytes \<Rightarrow> Some ((push_bit 4 b0 + b1) # bytes))
              | _ \<Rightarrow> None)"
| "parse_hex_bytes_from i 0 text = (if iree_string_view_is_empty text then Some [] else None)"

definition iree_string_view_parse_hex_bytes :: "iree_string_view_t \<Rightarrow> nat \<Rightarrow> u8 list option" where
  "iree_string_view_parse_hex_bytes text buffer_length =
     parse_hex_bytes_from 0 buffer_length (iree_string_view_trim text)"

section \<open>Device sizes\<close>

text \<open>The chain of suffixes: the scale and the text before the suffix.\<close>

definition device_size_scale :: "iree_string_view_t \<Rightarrow> iree_device_size_t \<times> iree_string_view_t" where
  "device_size_scale text =
     (case iree_string_view_consume_suffix text (IREE_SV ''kb'') of (True, text) \<Rightarrow> (1000, text)
      | (False, text) \<Rightarrow>
     (case iree_string_view_consume_suffix text (IREE_SV ''kib'') of (True, text) \<Rightarrow> (1024, text)
      | (False, text) \<Rightarrow>
     (case iree_string_view_consume_suffix text (IREE_SV ''mb'') of (True, text) \<Rightarrow> (1000 * 1000, text)
      | (False, text) \<Rightarrow>
     (case iree_string_view_consume_suffix text (IREE_SV ''mib'') of (True, text) \<Rightarrow> (1024 * 1024, text)
      | (False, text) \<Rightarrow>
     (case iree_string_view_consume_suffix text (IREE_SV ''gb'') of (True, text) \<Rightarrow> (1000 * 1000 * 1000, text)
      | (False, text) \<Rightarrow>
     (case iree_string_view_consume_suffix text (IREE_SV ''gib'') of (True, text) \<Rightarrow> (1024 * 1024 * 1024, text)
      | (False, text) \<Rightarrow>
     (case iree_string_view_consume_suffix text (IREE_SV ''b'') of (True, text) \<Rightarrow> (1, text)
      | (False, text) \<Rightarrow> (1, text))))))))"

fun device_size_digits ::
  "iree_device_size_t \<Rightarrow> iree_string_view_t \<Rightarrow> iree_device_size_t \<Rightarrow> iree_device_size_t iree_result" where
  "device_size_digits maximum (c # text) sz =
     (if c < 0x30 \<or> c > 0x39 then Inl IREE_STATUS_INVALID_ARGUMENT
      else let digit = ucast (c - 0x30)
           in if sz > maximum div 10 \<or> (sz = maximum div 10 \<and> digit > maximum mod 10)
              then Inl IREE_STATUS_OUT_OF_RANGE
              else device_size_digits maximum text (sz * 10 + digit))"
| "device_size_digits maximum [] sz = Inr sz"

definition iree_string_view_parse_device_size :: "iree_string_view_t \<Rightarrow> iree_device_size_t iree_result" where
  "iree_string_view_parse_device_size text =
     (let (scale, text) = device_size_scale text
      in if iree_string_view_is_empty text then Inl IREE_STATUS_INVALID_ARGUMENT
         else let maximum = NOT 0 div scale
              in case device_size_digits maximum text 0 of
                   Inl status \<Rightarrow> Inl status
                 | Inr sz \<Rightarrow> Inr (sz * scale))"

end
