(* ===== verification/String_Numbers_Laws.thy ===== *)
theory String_Numbers_Laws
  imports String_Numbers Hex_Float_Parse
begin

text \<open>
  Laws of the number parsers: runs of digits as numbers with their range checks, the unit suffixes of
  sizes, and the texts of byte strings.
\<close>

section \<open>Device sizes\<close>

definition device_size_units :: "(iree_string_view_t \<times> nat) list" where
  "device_size_units =
     [([], 1), (IREE_SV ''b'', 1), (IREE_SV ''kb'', 1000), (IREE_SV ''kib'', 1024), (IREE_SV ''mb'', 1000000),
      (IREE_SV ''mib'', 1048576), (IREE_SV ''gb'', 1000000000), (IREE_SV ''gib'', 1073741824)]"

lemma ends_with_rev:
  assumes "0 \<notin> set x" and "x \<noteq> []"
  shows "iree_string_view_ends_with v x \<longleftrightarrow> (\<exists>r. rev v = rev x @ r)"
proof -
  have "(\<exists>rest. v = rest @ x) \<longleftrightarrow> (\<exists>r. rev v = rev x @ r)"
    by (metis rev_append rev_rev_ident)
  then show ?thesis using ends_with_iff [OF assms(1)] assms(2) by simp
qed

lemma consume_suffix_eq:
  "iree_string_view_consume_suffix s x =
    (if iree_string_view_ends_with s x then (True, take (length s - length x) s) else (False, s))"
  by (auto simp: iree_string_view_consume_suffix_def iree_string_view_remove_suffix_def iree_string_view_empty_def)

lemma device_size_scale_eq:
  "device_size_scale s =
    (if iree_string_view_ends_with s (IREE_SV ''kb'') then (1000, take (length s - Suc (Suc 0)) s)
     else if iree_string_view_ends_with s (IREE_SV ''kib'') then (1024, take (length s - Suc (Suc (Suc 0))) s)
     else if iree_string_view_ends_with s (IREE_SV ''mb'') then (1000000, take (length s - Suc (Suc 0)) s)
     else if iree_string_view_ends_with s (IREE_SV ''mib'') then (1048576, take (length s - Suc (Suc (Suc 0))) s)
     else if iree_string_view_ends_with s (IREE_SV ''gb'') then (1000000000, take (length s - Suc (Suc 0)) s)
     else if iree_string_view_ends_with s (IREE_SV ''gib'') then (1073741824, take (length s - Suc (Suc (Suc 0))) s)
     else if iree_string_view_ends_with s (IREE_SV ''b'') then (1, take (length s - 1) s)
     else (1, s))"
  unfolding device_size_scale_def consume_suffix_eq by simp

lemma digits_end:
  "list_all is_dec ds \<Longrightarrow> \<not> is_dec c \<Longrightarrow> ds \<noteq> xs @ [c]"
  "list_all is_dec ds \<Longrightarrow> \<not> is_dec c \<Longrightarrow> ds \<noteq> xs @ [a, c]"
  "list_all is_dec ds \<Longrightarrow> \<not> is_dec c \<Longrightarrow> ds \<noteq> xs @ [a, b, c]"
  by auto

lemma device_size_scale_digits:
  assumes ds: "list_all is_dec ds" and unit: "(su, k) \<in> set device_size_units"
  shows "device_size_scale (ds @ su) = (word_of_nat k, ds)"
proof -
  have letters: "\<not> is_dec 0x62" "\<not> is_dec 0x6B" "\<not> is_dec 0x6D" "\<not> is_dec 0x67" "\<not> is_dec 0x69"
    by (simp_all add: is_dec_def)
  note no_letter = letters [THEN digits_end(1) [OF ds]] letters [THEN digits_end(2) [OF ds]]
    letters [THEN digits_end(3) [OF ds]]
  consider "su = []" "k = 1" | "su = IREE_SV ''b''" "k = 1" | "su = IREE_SV ''kb''" "k = 1000"
    | "su = IREE_SV ''kib''" "k = 1024" | "su = IREE_SV ''mb''" "k = 1000000" | "su = IREE_SV ''mib''" "k = 1048576"
    | "su = IREE_SV ''gb''" "k = 1000000000" | "su = IREE_SV ''gib''" "k = 1073741824"
    using unit by (auto simp: device_size_units_def)
  then show ?thesis
    by cases (simp_all add: device_size_scale_eq ends_with_rev no_letter)
qed

lemma dec_value_mono: "v \<le> dec_value v ds"
proof (induction ds arbitrary: v)
  case (Cons c ds)
  have "v \<le> 10 * v + unat (c - 0x30)" by simp
  also have "\<dots> \<le> dec_value (10 * v + unat (c - 0x30)) ds" by (rule Cons.IH)
  finally show ?case by simp
qed simp

lemma size_limit:
  fixes M v d :: nat
  assumes "d \<le> 9"
  shows "v > M div 10 \<or> (v = M div 10 \<and> d > M mod 10) \<longleftrightarrow> M < 10 * v + d"
proof -
  have M: "M = 10 * (M div 10) + M mod 10" "M mod 10 < 10" by simp_all
  show ?thesis
  proof (cases "v \<le> M div 10")
    case True
    then show ?thesis using assms M by linarith
  next
    case False
    then show ?thesis using M by linarith
  qed
qed

lemma device_size_digits_eq:
  assumes "list_all is_dec ds" and "unat v \<le> unat M"
  shows "device_size_digits M ds v =
    (if dec_value (unat v) ds \<le> unat M then Inr (word_of_nat (dec_value (unat v) ds)) else Inl IREE_STATUS_OUT_OF_RANGE)"
  using assms
proof (induction ds arbitrary: v)
  case (Cons c ds)
  then have c: "is_dec c" and ds: "list_all is_dec ds" by auto
  define d where "d = unat (c - 0x30)"
  have d: "unat (ucast (c - 0x30) :: u64) = d" "d \<le> 9"
    using dec_digit_facts(4) [OF c] by (simp_all add: d_def unsigned_ucast_eq take_bit_nat_eq_self)
  have lim: "v > M div 10 \<or> (v = M div 10 \<and> ucast (c - 0x30) > M mod 10) \<longleftrightarrow> unat M < 10 * unat v + d"
    using size_limit [OF d(2), of "unat M" "unat v"] d(1)
    by (simp add: word_less_nat_alt word_unat_eq_iff unat_div unat_mod)
  have step: "device_size_digits M (c # ds) v =
      (if unat M < 10 * unat v + d then Inl IREE_STATUS_OUT_OF_RANGE
       else device_size_digits M ds (v * 10 + ucast (c - 0x30)))"
    using c unfolding lim [symmetric] by (auto simp: is_dec_def Let_def)
  show ?case
  proof (cases "unat M < 10 * unat v + d")
    case True
    then have "\<not> dec_value (10 * unat v + d) ds \<le> unat M" using dec_value_mono [of "10 * unat v + d" ds] by simp
    then show ?thesis using True step by (simp add: d_def del: device_size_digits.simps)
  next
    case False
    then have s: "unat (v * 10 + ucast (c - 0x30)) = 10 * unat v + d"
    proof -
      have "unat (v * 10) = unat v * 10" using False unat_u64_lt [of M] by (simp add: unat_word_ariths)
      then show ?thesis using False unat_u64_lt [of M] d(1) by (simp add: unat_add_no_wrap)
    qed
    then show ?thesis
      using False step ds Cons.IH [of "v * 10 + ucast (c - 0x30)"] by (simp add: d_def del: device_size_digits.simps)
  qed
qed simp

lemma device_size_digits_sound: "device_size_digits M s v = Inr w \<Longrightarrow> list_all is_dec s"
  by (induction M s v rule: device_size_digits.induct) (auto simp: is_dec_def Let_def split: if_splits)

lemma device_size_scale_sound:
  assumes "device_size_scale s = (k, ds)"
  shows "\<exists>su n. s = ds @ su \<and> (su, n) \<in> set device_size_units \<and> k = word_of_nat n"
proof -
  have parts: "s = take (length s - length x) s @ x" if "iree_string_view_ends_with s x" "0 \<notin> set x" for x
    using that ends_with_iff [of x s] by auto
  consider "k = 1000" "ds = take (length s - Suc (Suc 0)) s" "iree_string_view_ends_with s (IREE_SV ''kb'')"
    | "k = 1024" "ds = take (length s - Suc (Suc (Suc 0))) s" "iree_string_view_ends_with s (IREE_SV ''kib'')"
    | "k = 1000000" "ds = take (length s - Suc (Suc 0)) s" "iree_string_view_ends_with s (IREE_SV ''mb'')"
    | "k = 1048576" "ds = take (length s - Suc (Suc (Suc 0))) s" "iree_string_view_ends_with s (IREE_SV ''mib'')"
    | "k = 1000000000" "ds = take (length s - Suc (Suc 0)) s" "iree_string_view_ends_with s (IREE_SV ''gb'')"
    | "k = 1073741824" "ds = take (length s - Suc (Suc (Suc 0))) s" "iree_string_view_ends_with s (IREE_SV ''gib'')"
    | "k = 1" "ds = take (length s - 1) s" "iree_string_view_ends_with s (IREE_SV ''b'')"
    | "k = 1" "ds = s"
    using assms unfolding device_size_scale_eq by (auto split: if_splits)
  then show ?thesis
  proof cases
    case 1
    then show ?thesis using parts [OF 1(3)] by (intro exI [of _ "IREE_SV ''kb''"] exI [of _ 1000]) (simp add: device_size_units_def)
  next
    case 2
    then show ?thesis using parts [OF 2(3)] by (intro exI [of _ "IREE_SV ''kib''"] exI [of _ 1024]) (simp add: device_size_units_def)
  next
    case 3
    then show ?thesis using parts [OF 3(3)] by (intro exI [of _ "IREE_SV ''mb''"] exI [of _ 1000000]) (simp add: device_size_units_def)
  next
    case 4
    then show ?thesis using parts [OF 4(3)] by (intro exI [of _ "IREE_SV ''mib''"] exI [of _ 1048576]) (simp add: device_size_units_def)
  next
    case 5
    then show ?thesis using parts [OF 5(3)] by (intro exI [of _ "IREE_SV ''gb''"] exI [of _ 1000000000]) (simp add: device_size_units_def)
  next
    case 6
    then show ?thesis using parts [OF 6(3)] by (intro exI [of _ "IREE_SV ''gib''"] exI [of _ 1073741824]) (simp add: device_size_units_def)
  next
    case 7
    then show ?thesis using parts [OF 7(3)] by (intro exI [of _ "IREE_SV ''b''"] exI [of _ 1]) (simp add: device_size_units_def)
  next
    case 8
    then show ?thesis by (intro exI [of _ "[]"] exI [of _ 1]) (simp add: device_size_units_def)
  qed
qed

lemma parse_device_size_digits:
  assumes "ds \<noteq> []" and "list_all is_dec ds" and unit: "(su, k) \<in> set device_size_units"
  shows "iree_string_view_parse_device_size (ds @ su) =
    (if dec_value 0 ds * k < 2 ^ 64 then Inr (word_of_nat (dec_value 0 ds * k)) else Inl IREE_STATUS_OUT_OF_RANGE)"
proof -
  have k: "0 < k" "unat (word_of_nat k :: u64) = k"
    using unit by (auto simp: device_size_units_def unsigned_of_nat take_bit_nat_eq_self)
  let ?M = "NOT 0 div word_of_nat k :: u64"
  have "unat (NOT 0 :: u64) = 2 ^ 64 - 1" by (simp add: unat_u64_max)
  then have M: "unat ?M = (2 ^ 64 - 1) div k" by (simp only: unat_div k(2))
  have "dec_value 0 ds \<le> unat ?M \<longleftrightarrow> dec_value 0 ds * k \<le> 2 ^ 64 - 1"
    unfolding M using k(1) by (simp only: less_eq_div_iff_mult_less_eq)
  also have "\<dots> \<longleftrightarrow> dec_value 0 ds * k < 2 ^ 64" by auto
  finally show ?thesis
    using device_size_digits_eq [OF assms(2), of 0 ?M] assms(1) device_size_scale_digits [OF assms(2) unit]
    by (simp add: iree_string_view_parse_device_size_def iree_string_view_is_empty_def)
qed

lemma parse_device_size_sound:
  assumes "iree_string_view_parse_device_size s = Inr v"
  shows "\<exists>ds su k. s = ds @ su \<and> ds \<noteq> [] \<and> list_all is_dec ds \<and> (su, k) \<in> set device_size_units"
proof -
  obtain k ds where sc: "device_size_scale s = (k, ds)" by fastforce
  then obtain su n where "s = ds @ su" "(su, n) \<in> set device_size_units" using device_size_scale_sound by blast
  moreover have "ds \<noteq> []" "list_all is_dec ds"
    using assms by (auto simp: iree_string_view_parse_device_size_def iree_string_view_is_empty_def sc Let_def
        split: if_splits sum.splits intro: device_size_digits_sound)
  ultimately show ?thesis by blast
qed

section \<open>Hexadecimal bytes\<close>

text \<open>
  The text of a byte string: two digits per byte, and before every byte but the first at most one space
  or dash.
\<close>

fun hex_bytes_text :: "bool \<Rightarrow> u8 list \<Rightarrow> u8 list \<Rightarrow> bool" where
  "hex_bytes_text later [] t \<longleftrightarrow> t = []"
| "hex_bytes_text later (b # bytes) t \<longleftrightarrow>
     (\<exists>sep c0 c1 b0 b1 t'. t = sep @ c0 # c1 # t' \<and> (sep = [] \<or> later \<and> sep \<in> {[0x20], [0x2D]}) \<and>
        iree_string_view_parse_hex_nibble c0 = Some b0 \<and> iree_string_view_parse_hex_nibble c1 = Some b1 \<and>
        b = push_bit 4 b0 + b1 \<and> hex_bytes_text True bytes t')"

lemma nibble_not_separator: "iree_string_view_parse_hex_nibble c = Some b \<Longrightarrow> c \<noteq> 0x20 \<and> c \<noteq> 0x2D"
  by (auto simp: iree_string_view_parse_hex_nibble_def)

text \<open>One round of the loop after the optional separator.\<close>

definition hex_byte_step :: "nat \<Rightarrow> nat \<Rightarrow> u8 list \<Rightarrow> u8 list option" where
  "hex_byte_step i n t =
     (case t of
        c0 # c1 # t' \<Rightarrow>
          (case (iree_string_view_parse_hex_nibble c0, iree_string_view_parse_hex_nibble c1) of
             (Some b0, Some b1) \<Rightarrow> map_option ((#) (push_bit 4 b0 + b1)) (parse_hex_bytes_from (Suc i) n t')
           | _ \<Rightarrow> None)
      | _ \<Rightarrow> None)"

lemma remove_prefix_drop: "iree_string_view_remove_prefix v n = drop n v"
  by (simp add: iree_string_view_remove_prefix_def iree_string_view_empty_def)

lemma parse_hex_bytes_step:
  "parse_hex_bytes_from i (Suc n) t =
    hex_byte_step i n (if i > 0 \<and> t \<noteq> [] \<and> (hd t = 0x20 \<or> hd t = 0x2D) then tl t else t)"
proof -
  define u where "u = (if i > 0 \<and> t \<noteq> [] \<and> (hd t = 0x20 \<or> hd t = 0x2D) then tl t else t)"
  have "(if i > 0 \<and> length t \<noteq> 0 \<and> (t ! 0 = 0x20 \<or> t ! 0 = 0x2D) then iree_string_view_remove_prefix t 1 else t) = u"
    by (cases t) (auto simp: u_def remove_prefix_drop)
  then show ?thesis
    unfolding u_def [symmetric] hex_byte_step_def
    by (cases u; cases "tl u") (auto simp: Let_def remove_prefix_drop split: option.splits)
qed

lemma hex_byte_step_Some:
  "hex_byte_step i n t = Some bs \<longleftrightarrow>
    (\<exists>c0 c1 t' b0 b1 bs'. t = c0 # c1 # t' \<and> iree_string_view_parse_hex_nibble c0 = Some b0 \<and>
      iree_string_view_parse_hex_nibble c1 = Some b1 \<and> bs = (push_bit 4 b0 + b1) # bs' \<and>
      parse_hex_bytes_from (Suc i) n t' = Some bs')"
  by (auto simp: hex_byte_step_def split: list.splits option.splits)

lemma parse_hex_bytes_from_iff:
  "parse_hex_bytes_from i n t = Some bs \<longleftrightarrow> length bs = n \<and> hex_bytes_text (i > 0) bs t"
proof (induction n arbitrary: i t bs)
  case 0
  then show ?case by (cases bs) (auto simp: iree_string_view_is_empty_def)
next
  case (Suc n)
  let ?u = "if i > 0 \<and> t \<noteq> [] \<and> (hd t = 0x20 \<or> hd t = 0x2D) then tl t else t"
  have step: "parse_hex_bytes_from i (Suc n) t = Some bs \<longleftrightarrow>
      (\<exists>c0 c1 t' b0 b1 bs'. ?u = c0 # c1 # t' \<and> iree_string_view_parse_hex_nibble c0 = Some b0 \<and>
        iree_string_view_parse_hex_nibble c1 = Some b1 \<and> bs = (push_bit 4 b0 + b1) # bs' \<and>
        length bs' = n \<and> hex_bytes_text True bs' t')"
    unfolding parse_hex_bytes_step hex_byte_step_Some Suc.IH by simp
  have sep: "?u = c0 # r \<longleftrightarrow> (\<exists>sep. t = sep @ c0 # r \<and> (sep = [] \<or> 0 < i \<and> sep \<in> {[0x20], [0x2D]}))"
    if "iree_string_view_parse_hex_nibble c0 = Some b0" for c0 r b0
    using nibble_not_separator [OF that] by (cases t) auto
  show ?case
  proof (cases bs)
    case (Cons b bs')
    have "parse_hex_bytes_from i (Suc n) t = Some bs \<longleftrightarrow> length bs' = n \<and>
        (\<exists>c0 c1 t' b0 b1. ?u = c0 # c1 # t' \<and> iree_string_view_parse_hex_nibble c0 = Some b0 \<and>
          iree_string_view_parse_hex_nibble c1 = Some b1 \<and> b = push_bit 4 b0 + b1 \<and> hex_bytes_text True bs' t')"
      unfolding step unfolding Cons by blast
    also have "\<dots> \<longleftrightarrow> length bs' = n \<and> hex_bytes_text (i > 0) (b # bs') t"
      using sep by (simp only: hex_bytes_text.simps) blast
    finally show ?thesis by (simp add: Cons)
  qed (unfold step, simp)
qed

definition hex_digit :: "u8 \<Rightarrow> u8" where
  "hex_digit v = (if v < 10 then v + 0x30 else v + 0x57)"

definition hex_render :: "u8 list \<Rightarrow> u8 list" where
  "hex_render bytes = concat (map (\<lambda>b. [hex_digit (drop_bit 4 b), hex_digit (b AND 0x0F)]) bytes)"

lemma rendered_digit_list:
  "list_all (\<lambda>b. iree_string_view_parse_hex_nibble (hex_digit (drop_bit 4 b)) = Some (drop_bit 4 b) \<and>
     iree_string_view_parse_hex_nibble (hex_digit (b AND 0x0F)) = Some (b AND 0x0F) \<and>
     push_bit 4 (drop_bit 4 b) + (b AND 0x0F) = b \<and>
     \<not> c_isspace (hex_digit (drop_bit 4 b)) \<and> \<not> c_isspace (hex_digit (b AND 0x0F))) (map of_nat [0..<256])"
  by code_simp

lemmas rendered_digit_facts = u8_cases_list [OF rendered_digit_list]

lemma hex_render_text: "hex_bytes_text later bytes (hex_render bytes)"
proof (induction bytes arbitrary: later)
  case (Cons b bytes)
  then show ?case
    using rendered_digit_facts [of b]
    by (auto simp: hex_render_def intro!: exI [of _ "[]"])
qed (simp add: hex_render_def)

lemma hex_render_ends:
  assumes "bytes \<noteq> []"
  shows "hex_render bytes \<noteq> []" "\<not> c_isspace (hd (hex_render bytes))" "\<not> c_isspace (last (hex_render bytes))"
proof -
  obtain b r where "bytes = b # r" using assms by (cases bytes) auto
  then show "hex_render bytes \<noteq> []" "\<not> c_isspace (hd (hex_render bytes))"
    using rendered_digit_facts [of b] by (auto simp: hex_render_def)
  obtain r' b' where "bytes = r' @ [b']" using assms by (cases bytes rule: rev_cases) auto
  then show "\<not> c_isspace (last (hex_render bytes))" using rendered_digit_facts [of b'] by (auto simp: hex_render_def)
qed

section \<open>Integers\<close>

lemma radix_digit_list:
  "list_all (\<lambda>c. radix_digit c \<noteq> None \<longrightarrow> \<not> c_isspace c \<and> c \<noteq> 0x2B \<and> c \<noteq> 0x2D \<and> c \<noteq> 0) (map of_nat [0..<256])"
  by code_simp

lemma radix_digit_facts:
  "is_radix_digit b c \<Longrightarrow> \<not> c_isspace c \<and> c \<noteq> 0x2B \<and> c \<noteq> 0x2D \<and> c \<noteq> 0"
  using u8_cases_list [OF radix_digit_list, of c] by (auto simp: is_radix_digit_def split: option.splits)

lemma not_radix_digits: "\<not> is_radix_digit b 0" "\<not> is_radix_digit 16 0x78" "\<not> is_radix_digit 16 0x58"
  by (simp_all add: is_radix_digit_def radix_digit_def)

text \<open>A number in the given base: an optional sign and digits, then nothing or a character that is no digit.\<close>

definition integer_text :: "nat \<Rightarrow> bool \<Rightarrow> u8 list \<Rightarrow> u8 list \<Rightarrow> bool" where
  "integer_text b neg ds s \<longleftrightarrow>
     (\<exists>sg rest. s = sg @ ds @ rest \<and> signed_as sg neg \<and> ds \<noteq> [] \<and> list_all (is_radix_digit b) ds \<and>
        (rest = [] \<or> b \<noteq> 16 \<and> \<not> is_radix_digit b (hd rest)))"

definition signed_integer :: "bool \<Rightarrow> nat \<Rightarrow> int" where
  "signed_integer neg n = (if neg then - int n else int n)"

lemma integer_no_prefix:
  assumes "ds \<noteq> []" "list_all (is_radix_digit 16) ds"
  shows "\<not> has_hex_prefix (ds @ replicate n 0)"
proof
  assume "has_hex_prefix (ds @ replicate n 0)"
  then have *: "3 \<le> length (ds @ replicate n 0)" "(ds @ replicate n 0) ! 1 = 0x78 \<or> (ds @ replicate n 0) ! 1 = 0x58"
    by (auto simp: has_hex_prefix_def)
  show False
  proof (cases "1 < length ds")
    case True
    then show ?thesis using * assms(2) not_radix_digits(2,3) by (auto simp: nth_append list_all_length)
  next
    case False
    then show ?thesis using * by (auto simp: nth_append)
  qed
qed

lemma c_strto_integer:
  assumes t: "integer_text b neg ds s" and b: "2 \<le> b"
  shows "\<exists>consumed. c_strto b (s @ replicate n 0) = (neg, radix_value b ds, consumed) \<and> 0 < consumed"
proof -
  obtain sg rest where s: "s = sg @ ds @ rest" and sg: "signed_as sg neg"
    and ds: "ds \<noteq> []" "list_all (is_radix_digit b) ds" and rest: "rest = [] \<or> b \<noteq> 16 \<and> \<not> is_radix_digit b (hd rest)"
    using t by (auto simp: integer_text_def)
  obtain d ds' where d: "ds = d # ds'" using ds(1) by (cases ds) auto
  let ?body = "ds @ rest @ replicate n 0"
  have first: "\<not> c_isspace d" "d \<noteq> 0x2B" "d \<noteq> 0x2D" using radix_digit_facts [of b d] ds(2) d by auto
  have spaces: "takeWhile c_isspace (s @ replicate n 0) = []"
    using sg first by (auto simp: s d signed_as_def c_isspace_def)
  have sign: "(0 < length (s @ replicate n 0) \<and> ((s @ replicate n 0) ! 0 = 0x2B \<or> (s @ replicate n 0) ! 0 = 0x2D)) = (sg \<noteq> [])"
    "(sg \<noteq> [] \<and> (s @ replicate n 0) ! 0 = 0x2D) = neg"
    "(if sg \<noteq> [] then drop 1 (s @ replicate n 0) else s @ replicate n 0) = ?body"
    using sg first by (auto simp: s d signed_as_def)
  have "rest @ replicate n 0 = [] \<or> \<not> is_radix_digit b (hd (rest @ replicate n 0))"
    using rest not_radix_digits(1) by (cases rest; cases n) auto
  then have digits: "takeWhile (is_radix_digit b) ?body = ds" by (rule takeWhile_run(1) [OF ds(2)])
  have prefix: "((b = 0 \<or> b = 16) \<and> has_hex_prefix ?body) = False"
    using rest b integer_no_prefix [OF ds(1), of n] ds(2) by auto
  have base: "(if b \<noteq> 0 then b else x) = b" for x using b by simp
  show ?thesis
    unfolding c_strto_def Let_def spaces list.size drop_0 sign base prefix if_False digits using ds(1) by simp
qed

lemma c_strtol_integer:
  assumes "integer_text b neg ds s" and "2 \<le> b"
  defines "z \<equiv> signed_integer neg (radix_value b ds)"
  shows "\<exists>consumed>0. c_strtol b (s @ replicate n 0) =
    (if z < - (2 ^ 63) then (- (2 ^ 63), True, consumed) else if 2 ^ 63 \<le> z then (2 ^ 63 - 1, True, consumed)
     else (z, False, consumed))"
  using c_strto_integer [OF assms(1,2), of n] by (auto simp: c_strtol_def z_def signed_integer_def)

lemma c_strtoul_integer:
  assumes "integer_text b neg ds s" and "2 \<le> b"
  shows "\<exists>consumed>0. c_strtoul b (s @ replicate n 0) =
    (if radix_value b ds < 2 ^ 64 then (word_of_int (signed_integer neg (radix_value b ds)), False, consumed)
     else (NOT 0, True, consumed))"
  using c_strto_integer [OF assms(1,2), of n] by (auto simp: c_strtoul_def signed_integer_def)

lemma integer_text_nonempty: "integer_text b neg ds s \<Longrightarrow> s \<noteq> []"
  by (auto simp: integer_text_def)

lemma atoi_signed_integer:
  assumes t: "integer_text b neg ds s" and b: "2 \<le> b" and z: "z = signed_integer neg (radix_value b ds)"
  shows "length s < 32 \<Longrightarrow> iree_string_view_atoi_int64_base s b =
      (if - (2 ^ 63) \<le> z \<and> z < 2 ^ 63 then Some (word_of_int z) else None)"
    and "length s < 16 \<Longrightarrow> iree_string_view_atoi_int32_base s b =
      (if - (2 ^ 63) \<le> z \<and> z < 2 ^ 63 then Some (word_of_int z) else None)"
  using c_strtol_integer [OF t b, of "32 - length s"] c_strtol_integer [OF t b, of "16 - length s"]
    integer_text_nonempty [OF t] unfolding z [symmetric]
  by (auto simp: iree_string_view_atoi_int64_base_def iree_string_view_atoi_int32_base_def iree_string_view_is_empty_def)

lemma ucast_word_of_int: "ucast (word_of_int z :: u64) = (word_of_int z :: u32)"
  by (simp add: unsigned_of_int word_of_int_eq_iff)

lemma atoi_unsigned_integer:
  assumes t: "integer_text b neg ds s" and b: "2 \<le> b" and z: "z = signed_integer neg (radix_value b ds)"
  shows "length s < 32 \<Longrightarrow> iree_string_view_atoi_uint64_base s b =
      (if radix_value b ds < 2 ^ 64 then Some (word_of_int z) else None)"
    and "length s < 16 \<Longrightarrow> iree_string_view_atoi_uint32_base s b =
      (if radix_value b ds < 2 ^ 64 then Some (word_of_int z) else None)"
  using c_strtoul_integer [OF t b, of "32 - length s"] c_strtoul_integer [OF t b, of "16 - length s"]
    integer_text_nonempty [OF t] ucast_word_of_int [of z] unfolding z [symmetric]
  by (auto simp: iree_string_view_atoi_uint64_base_def iree_string_view_atoi_uint32_base_def iree_string_view_is_empty_def)

end
