(* ===== verification/String_Numbers_Properties.thy ===== *)
theory String_Numbers_Properties
  imports String_Numbers_Laws
begin

text \<open>
  What the number parsers guarantee: exact device sizes or the documented errors, byte strings read back,
  and integers with their range checks.
\<close>





lemma sample_integer: "integer_text 10 False (IREE_SV ''4294967297'') (IREE_SV ''4294967297'')"
  "radix_value 10 (IREE_SV ''4294967297'') = 4294967297"
proof -
  have "list_all (is_radix_digit 10) (IREE_SV ''4294967297'')" by (simp add: is_radix_digit_def radix_digit_def)
  then show "integer_text 10 False (IREE_SV ''4294967297'') (IREE_SV ''4294967297'')"
    unfolding integer_text_def by (intro exI [of _ "[]"]) (simp add: signed_as_def)
qed (simp add: radix_digit_def radix_value_def)


text \<open>The 32-bit parser accepts this number, which no 32-bit integer can hold, and yields 1.\<close>

lemma atoi_int32_truncates: "iree_string_view_atoi_int32_base (IREE_SV ''4294967297'') 10 = Some 1"
  using atoi_signed_integer(2) [OF sample_integer(1), of 4294967297] sample_integer(2) by (simp add: signed_integer_def)

end
