(* ===== verification/Spsc_Queue.thy ===== *)
theory Spsc_Queue
  imports Machine_Laws
begin

text \<open>
  The single-producer single-consumer queue of \<^verbatim>\<open>runtime/src/iree/base/internal/spsc_queue.{h,c}\<close>: a ring
  of bytes in shared memory that holds length-prefixed entries, with skip markers at the wrap.

  The shared region (header, positions, data) and the handle are one record. The 64-bit positions only
  grow and are natural numbers; the differences of positions and the entry sizes are computed at the width
  of the code. An atomic load of the other side's position may return any value the position had since the
  last load, so the operations take the loaded values as arguments. Loads of the side's own position are
  reads of the field.
\<close>

section \<open>Layout\<close>

definition IREE_SPSC_QUEUE_MAGIC :: u32 where "IREE_SPSC_QUEUE_MAGIC = 0x51525049"
definition IREE_SPSC_QUEUE_VERSION :: u32 where "IREE_SPSC_QUEUE_VERSION = 1"
definition IREE_SPSC_QUEUE_HEADER_SIZE :: iree_host_size_t where "IREE_SPSC_QUEUE_HEADER_SIZE = 256"
definition IREE_SPSC_QUEUE_MIN_CAPACITY :: u32 where "IREE_SPSC_QUEUE_MIN_CAPACITY = 64"
definition IREE_SPSC_QUEUE_DEFAULT_ENTRY_ALIGNMENT :: u32 where "IREE_SPSC_QUEUE_DEFAULT_ENTRY_ALIGNMENT = 8"
definition IREE_SPSC_QUEUE_SKIP_MARKER :: u32 where "IREE_SPSC_QUEUE_SKIP_MARKER = NOT 0"

record iree_spsc_queue_header_t =
  magic :: u32
  version :: u32
  header_capacity :: u32
  header_entry_alignment :: u32

record spsc_memory =
  header :: iree_spsc_queue_header_t
  write_position :: nat
  read_position :: nat
  cached_read_position :: nat
  ring :: "u8 list"

record iree_spsc_queue_t = spsc_memory +
  capacity :: nat
  position_mask :: nat
  entry_alignment :: nat
  pending_write_pos :: nat
  pending_skip_offset :: nat
  pending_skip_bytes :: nat
  pending_entry_offset :: nat

text \<open>A 32-bit value in the ring: \<^verbatim>\<open>memcpy\<close> of four bytes in the byte order of a little-endian host.\<close>

definition bytes_u32 :: "u32 \<Rightarrow> u8 list" where
  "bytes_u32 w = [ucast w, ucast (drop_bit 8 w), ucast (drop_bit 16 w), ucast (drop_bit 24 w)]"

definition read_u32 :: "u8 list \<Rightarrow> nat \<Rightarrow> u32" where
  "read_u32 bytes k =
     ucast (bytes ! k) OR push_bit 8 (ucast (bytes ! (k + 1))) OR push_bit 16 (ucast (bytes ! (k + 2))) OR
     push_bit 24 (ucast (bytes ! (k + 3)))"

definition write_bytes :: "u8 list \<Rightarrow> nat \<Rightarrow> u8 list \<Rightarrow> u8 list" where
  "write_bytes bytes k new = take k bytes @ new @ drop (k + length new) bytes"

section \<open>Sizes\<close>

definition iree_spsc_queue_required_size :: "u32 \<Rightarrow> iree_host_size_t" where
  "iree_spsc_queue_required_size c = IREE_SPSC_QUEUE_HEADER_SIZE + ucast c"

definition iree_spsc_queue_entry_size :: "nat \<Rightarrow> nat \<Rightarrow> nat" where
  "iree_spsc_queue_entry_size alignment payload_length =
     unat (iree_host_align (4 + word_of_nat payload_length) (word_of_nat alignment))"

definition iree_spsc_queue_free_space :: "nat \<Rightarrow> nat \<Rightarrow> nat \<Rightarrow> nat" where
  "iree_spsc_queue_free_space c write_pos read_pos =
     unat (word_of_int (int c - (int write_pos - int read_pos)) :: u64)"

section \<open>Initialization\<close>

definition iree_spsc_queue_bind :: "spsc_memory \<Rightarrow> iree_spsc_queue_t" where
  "iree_spsc_queue_bind memory =
     \<lparr>header = header memory, write_position = write_position memory, read_position = read_position memory,
      cached_read_position = cached_read_position memory, ring = ring memory,
      capacity = unat (header_capacity (header memory)),
      position_mask = unat (header_capacity (header memory) - 1),
      entry_alignment = unat (header_entry_alignment (header memory)),
      pending_write_pos = 0, pending_skip_offset = 0, pending_skip_bytes = 0, pending_entry_offset = 0\<rparr>"

definition iree_spsc_queue_validate_header ::
  "iree_spsc_queue_header_t \<Rightarrow> iree_host_size_t \<Rightarrow> unit iree_result" where
  "iree_spsc_queue_validate_header h memory_size =
     (if magic h \<noteq> IREE_SPSC_QUEUE_MAGIC then Inl IREE_STATUS_INVALID_ARGUMENT
      else if version h \<noteq> IREE_SPSC_QUEUE_VERSION then Inl IREE_STATUS_INVALID_ARGUMENT
      else if header_capacity h < IREE_SPSC_QUEUE_MIN_CAPACITY then Inl IREE_STATUS_INVALID_ARGUMENT
      else if \<not> iree_host_size_is_power_of_two (ucast (header_capacity h)) then Inl IREE_STATUS_INVALID_ARGUMENT
      else if header_entry_alignment h < 4 then Inl IREE_STATUS_INVALID_ARGUMENT
      else if \<not> iree_host_size_is_power_of_two (ucast (header_entry_alignment h)) then Inl IREE_STATUS_INVALID_ARGUMENT
      else if memory_size < iree_spsc_queue_required_size (header_capacity h) then Inl IREE_STATUS_INVALID_ARGUMENT
      else Inr ())"

text \<open>
  The memory argument is \<^term>\<open>None\<close> for a null pointer. Initialization overwrites whatever it held: the
  positions and the data region are zeroed.
\<close>

definition iree_spsc_queue_initialize ::
  "spsc_memory option \<Rightarrow> iree_host_size_t \<Rightarrow> u32 \<Rightarrow> iree_spsc_queue_t iree_result" where
  "iree_spsc_queue_initialize memory memory_size c =
     (case memory of
        None \<Rightarrow> Inl IREE_STATUS_INVALID_ARGUMENT
      | Some _ \<Rightarrow>
          if c < IREE_SPSC_QUEUE_MIN_CAPACITY then Inl IREE_STATUS_INVALID_ARGUMENT
          else if \<not> iree_host_size_is_power_of_two (ucast c) then Inl IREE_STATUS_INVALID_ARGUMENT
          else if memory_size < iree_spsc_queue_required_size c then Inl IREE_STATUS_INVALID_ARGUMENT
          else Inr (iree_spsc_queue_bind
            \<lparr>header = \<lparr>magic = IREE_SPSC_QUEUE_MAGIC, version = IREE_SPSC_QUEUE_VERSION, header_capacity = c,
                       header_entry_alignment = IREE_SPSC_QUEUE_DEFAULT_ENTRY_ALIGNMENT\<rparr>,
             write_position = 0, read_position = 0, cached_read_position = 0,
             ring = replicate (unat c) 0\<rparr>))"

definition iree_spsc_queue_open ::
  "spsc_memory option \<Rightarrow> iree_host_size_t \<Rightarrow> iree_spsc_queue_t iree_result" where
  "iree_spsc_queue_open memory memory_size =
     (case memory of
        None \<Rightarrow> Inl IREE_STATUS_INVALID_ARGUMENT
      | Some m \<Rightarrow>
          if memory_size < IREE_SPSC_QUEUE_HEADER_SIZE then Inl IREE_STATUS_INVALID_ARGUMENT
          else case iree_spsc_queue_validate_header (header m) memory_size of
                 Inl e \<Rightarrow> Inl e
               | Inr _ \<Rightarrow> Inr (iree_spsc_queue_bind m))"

section \<open>Producer\<close>

text \<open>
  Planning returns the physical offset of the entry, \<^term>\<open>None\<close> for \<^verbatim>\<open>UINT32_MAX\<close>; \<open>loaded\<close> is the
  read position in case it is loaded.
\<close>

definition iree_spsc_queue_plan_write ::
  "nat \<Rightarrow> nat \<Rightarrow> nat \<Rightarrow> iree_spsc_queue_t \<Rightarrow> nat option \<times> iree_spsc_queue_t" where
  "iree_spsc_queue_plan_write loaded total_entry_bytes write_pos q =
     (let physical_offset = write_pos AND position_mask q;
          contiguous_at_tail = capacity q - physical_offset
      in if total_entry_bytes \<le> contiguous_at_tail
         then (Some physical_offset,
               q\<lparr>pending_skip_offset := 0, pending_skip_bytes := 0,
                 pending_entry_offset := physical_offset, pending_write_pos := write_pos\<rparr>)
         else let skip_bytes = contiguous_at_tail;
                  fits = (\<lambda>q. \<not> iree_spsc_queue_free_space (capacity q) write_pos (cached_read_position q) <
                            skip_bytes + total_entry_bytes);
                  q = (if fits q then q else q\<lparr>cached_read_position := loaded\<rparr>)
              in if fits q
                 then (Some 0, q\<lparr>pending_skip_offset := physical_offset, pending_skip_bytes := skip_bytes,
                                 pending_entry_offset := 0, pending_write_pos := write_pos + skip_bytes\<rparr>)
                 else (None, q))"

text \<open>
  Reserving returns the offset of the payload in the ring, \<^term>\<open>None\<close> for a null pointer; \<open>loaded1\<close> and
  \<open>loaded2\<close> are the read positions loaded here and while planning.
\<close>

definition iree_spsc_queue_begin_write ::
  "nat \<Rightarrow> nat \<Rightarrow> nat \<Rightarrow> iree_spsc_queue_t \<Rightarrow> nat option \<times> iree_spsc_queue_t" where
  "iree_spsc_queue_begin_write loaded1 loaded2 len q =
     (let total_entry_bytes = iree_spsc_queue_entry_size (entry_alignment q) len;
          write_pos = write_position q;
          fits = (\<lambda>q. \<not> iree_spsc_queue_free_space (capacity q) write_pos (cached_read_position q) < total_entry_bytes);
          q = (if fits q then q else q\<lparr>cached_read_position := loaded1\<rparr>)
      in if fits q
         then case iree_spsc_queue_plan_write loaded2 total_entry_bytes write_pos q of
                (None, q) \<Rightarrow> (None, q)
              | (Some entry_offset, q) \<Rightarrow> (Some (entry_offset + 4), q)
         else (None, q))"

definition iree_spsc_queue_commit_write :: "nat \<Rightarrow> iree_spsc_queue_t \<Rightarrow> iree_spsc_queue_t" where
  "iree_spsc_queue_commit_write len q =
     (let total_entry_bytes = iree_spsc_queue_entry_size (entry_alignment q) len;
          q = (if pending_skip_bytes q > 0
               then q\<lparr>ring := write_bytes (ring q) (pending_skip_offset q) (bytes_u32 IREE_SPSC_QUEUE_SKIP_MARKER)\<rparr>
               else q);
          q = q\<lparr>ring := write_bytes (ring q) (pending_entry_offset q) (bytes_u32 (word_of_nat len))\<rparr>
      in q\<lparr>write_position := pending_write_pos q + total_entry_bytes\<rparr>)"

definition iree_spsc_queue_cancel_write :: "iree_spsc_queue_t \<Rightarrow> iree_spsc_queue_t" where
  "iree_spsc_queue_cancel_write q = q"

text \<open>The caller's stores into the reserved payload, and the one-shot write that copies a whole message.\<close>

definition store_payload :: "nat \<Rightarrow> u8 list \<Rightarrow> iree_spsc_queue_t \<Rightarrow> iree_spsc_queue_t" where
  "store_payload payload bytes q = q\<lparr>ring := write_bytes (ring q) payload bytes\<rparr>"

definition iree_spsc_queue_write ::
  "nat \<Rightarrow> nat \<Rightarrow> u8 list \<Rightarrow> iree_spsc_queue_t \<Rightarrow> bool \<times> iree_spsc_queue_t" where
  "iree_spsc_queue_write loaded1 loaded2 message q =
     (case iree_spsc_queue_begin_write loaded1 loaded2 (length message) q of
        (None, q) \<Rightarrow> (False, q)
      | (Some payload, q) \<Rightarrow>
          (True, iree_spsc_queue_commit_write (length message) (store_payload payload message q)))"

section \<open>Consumer\<close>

text \<open>
  The loop of \<^verbatim>\<open>peek\<close> up to the loaded write position; not returning is \<^term>\<open>None\<close>. The result is the
  offset and length of the payload, if there is an entry.
\<close>

partial_function (option) peek_from ::
  "nat \<Rightarrow> nat \<Rightarrow> iree_spsc_queue_t \<Rightarrow> ((nat \<times> nat) option \<times> iree_spsc_queue_t) option" where
  "peek_from write_pos read_pos q =
     (if read_pos < write_pos
      then let physical_offset = read_pos AND position_mask q;
               entry_length = read_u32 (ring q) physical_offset
           in if entry_length = IREE_SPSC_QUEUE_SKIP_MARKER
              then let read_pos = read_pos + (capacity q - physical_offset)
                   in peek_from write_pos read_pos (q\<lparr>read_position := read_pos\<rparr>)
              else Some (Some (physical_offset + 4, unat entry_length), q)
      else Some (None, q))"

declare peek_from.simps [code]

definition iree_spsc_queue_peek ::
  "nat \<Rightarrow> iree_spsc_queue_t \<Rightarrow> ((nat \<times> nat) option \<times> iree_spsc_queue_t) option" where
  "iree_spsc_queue_peek loaded q = peek_from loaded (read_position q) q"

definition iree_spsc_queue_consume :: "iree_spsc_queue_t \<Rightarrow> iree_spsc_queue_t" where
  "iree_spsc_queue_consume q =
     (let physical_offset = read_position q AND position_mask q;
          entry_length = read_u32 (ring q) physical_offset;
          total_entry_bytes = iree_spsc_queue_entry_size (entry_alignment q) (unat entry_length)
      in q\<lparr>read_position := read_position q + total_entry_bytes\<rparr>)"

text \<open>Reading copies at most \<open>out_capacity\<close> bytes and reports the full length of the payload.\<close>

definition iree_spsc_queue_read ::
  "nat \<Rightarrow> nat \<Rightarrow> iree_spsc_queue_t \<Rightarrow> ((u8 list \<times> nat) option \<times> iree_spsc_queue_t) option" where
  "iree_spsc_queue_read loaded out_capacity q =
     (case iree_spsc_queue_peek loaded q of
        None \<Rightarrow> None
      | Some (None, q) \<Rightarrow> Some (None, q)
      | Some (Some (payload, payload_length), q) \<Rightarrow>
          Some (Some (take (min payload_length out_capacity) (drop payload (ring q)), payload_length),
                iree_spsc_queue_consume q))"

section \<open>Queries\<close>

definition iree_spsc_queue_can_read :: "nat \<Rightarrow> nat \<Rightarrow> bool" where
  "iree_spsc_queue_can_read write_pos read_pos \<longleftrightarrow> write_pos > read_pos"

definition iree_spsc_queue_read_available :: "nat \<Rightarrow> nat \<Rightarrow> nat" where
  "iree_spsc_queue_read_available write_pos read_pos = unat (word_of_int (int write_pos - int read_pos) :: u64)"

definition iree_spsc_queue_write_available :: "iree_spsc_queue_t \<Rightarrow> nat \<Rightarrow> nat \<Rightarrow> nat" where
  "iree_spsc_queue_write_available q write_pos read_pos =
     unat (word_of_int (int (capacity q) - (int write_pos - int read_pos)) :: u64)"

end
