(* ===== verification/Spsc_Laws.thy ===== *)
theory Spsc_Laws
  imports Spsc_Queue
begin

text \<open>
  Laws of the building blocks of the single-producer single-consumer queue: sizes of entries, the masked
  offset as a remainder, 32-bit values in the ring, and the frames between two positions with the fact that
  they only depend on the bytes between these positions.
\<close>

section \<open>Sizes and offsets\<close>

lemma host_size_is_power_of_two:
  "iree_host_size_is_power_of_two v \<longleftrightarrow> iree_device_size_is_power_of_two v"
  by (simp add: iree_host_size_is_power_of_two_def iree_device_size_is_power_of_two_def)

lemma host_align: "iree_host_align v a = iree_device_align v a"
  by (simp add: iree_host_align_def iree_device_align_def)

lemma entry_size_eq:
  assumes "al = 2 ^ k" and "k < 32" and "n < 2 ^ 63"
  shows "iree_spsc_queue_entry_size al n = round_up (4 + n) al"
proof -
  have a: "(word_of_nat al :: u64) = 2 ^ k" using assms(1) by simp
  have ua: "unat (2 ^ k :: u64) = 2 ^ k" using assms(2) by (intro unat_power_of_two) simp
  have kle: "(2 :: nat) ^ k \<le> 2 ^ 31" using assms(2) by (intro power_increasing) auto
  have u: "unat (4 + word_of_nat n :: u64) = 4 + n"
    using assms(3) by (subst unat_add_no_wrap) (auto simp: unat_of_nat take_bit_eq_mod)
  have m: "unat ((2 ^ k :: u64) - 1) = 2 ^ k - 1"
    using ua assms(2) by (subst unat_minus_one) (auto simp: unat_eq_zero)
  have "unat (NOT 0 - ((2 ^ k :: u64) - 1)) = 2 ^ 64 - 1 - (2 ^ k - 1)"
    using m kle by (subst unat_sub_no_wrap) (auto simp: unat_u64_max word_le_nat_alt)
  then have fits: "(4 + word_of_nat n :: u64) \<le> NOT 0 - (2 ^ k - 1)"
    unfolding word_le_nat_alt u using kle assms(3) by simp
  show ?thesis
    unfolding iree_spsc_queue_entry_size_def host_align a
    using device_align_round_up [OF power_of_two_exp fits] assms(1,2) u ua by simp
qed

lemma mask_offset: "c = 2 ^ k \<Longrightarrow> (pos :: nat) AND (c - 1) = pos mod c"
  using take_bit_eq_mask [of k pos] by (simp add: take_bit_eq_mod mask_eq_exp_minus_1)

lemma free_space_eq:
  assumes "r \<le> w" and "w \<le> r + c" and "c < 2 ^ 63"
  shows "iree_spsc_queue_free_space c w r = c - (w - r)"
proof -
  have "int c - (int w - int r) = int (c - (w - r))" using assms by (simp add: of_nat_diff)
  moreover have "unat (word_of_int (int (c - (w - r))) :: u64) = c - (w - r)"
    using assms(3) by (simp only: of_int_of_nat_eq unat_of_nat) (simp add: take_bit_eq_mod)
  ultimately show ?thesis
    unfolding iree_spsc_queue_free_space_def by simp
qed

section \<open>Values in the ring\<close>

lemma read_u32_cong:
  assumes "\<And>j. j < 4 \<Longrightarrow> bytes' ! (k + j) = bytes ! (k + j)"
  shows "read_u32 bytes' k = read_u32 bytes k"
  using assms [of 0] assms [of 1] assms [of 2] assms [of 3] by (simp add: read_u32_def)

lemma length_write_bytes [simp]:
  "k + length new \<le> length bytes \<Longrightarrow> length (write_bytes bytes k new) = length bytes"
  by (simp add: write_bytes_def)

lemma nth_write_bytes:
  assumes "k + length new \<le> length bytes" and "i < length bytes"
  shows "write_bytes bytes k new ! i = (if k \<le> i \<and> i < k + length new then new ! (i - k) else bytes ! i)"
  using assms by (auto simp: write_bytes_def nth_append)

lemma take_drop_write_bytes:
  assumes "k + length new \<le> length bytes"
  shows "take (length new) (drop k (write_bytes bytes k new)) = new"
  using assms by (simp add: write_bytes_def)

lemma length_bytes_u32 [simp]: "length (bytes_u32 w) = 4"
  by (simp add: bytes_u32_def)

lemma join_bytes_u32:
  "ucast (ucast w :: u8) OR push_bit 8 (ucast (ucast (drop_bit 8 w) :: u8)) OR
   push_bit 16 (ucast (ucast (drop_bit 16 w) :: u8)) OR push_bit 24 (ucast (ucast (drop_bit 24 w) :: u8)) = (w :: u32)"
  (is "?joined = w")
proof (rule bit_word_eqI)
  fix n
  assume "n < LENGTH(32)"
  then show "bit ?joined n = bit w n"
    by (cases "n < 16"; cases "n < 24") (auto simp: bit_simps)
qed

lemma read_write_u32:
  assumes "k + 4 \<le> length bytes"
  shows "read_u32 (write_bytes bytes k (bytes_u32 w)) k = w"
proof -
  have "write_bytes bytes k (bytes_u32 w) ! (k + j) = bytes_u32 w ! j" if "j < 4" for j
    using assms that by (subst nth_write_bytes) auto
  from this [of 0] this [of 1] this [of 2] this [of 3] show ?thesis
    unfolding read_u32_def by (simp add: bytes_u32_def numeral_2_eq_2 numeral_3_eq_3 join_bytes_u32)
qed

section \<open>Frames\<close>

text \<open>
  The bytes between two positions are a sequence of frames: skip markers, which cover the rest of the ring
  and are followed by an entry, and contiguous entries with their payload.
\<close>

datatype frame = Skip | Entry "u8 list"

fun frames :: "u8 list \<Rightarrow> nat \<Rightarrow> nat \<Rightarrow> nat \<Rightarrow> frame list \<Rightarrow> nat \<Rightarrow> bool" where
  "frames bytes c al pos [] end_pos \<longleftrightarrow> pos = end_pos"
| "frames bytes c al pos (Skip # fs) end_pos \<longleftrightarrow>
     pos mod c + 4 \<le> c \<and> read_u32 bytes (pos mod c) = IREE_SPSC_QUEUE_SKIP_MARKER \<and>
     (case fs of Entry _ # _ \<Rightarrow> True | _ \<Rightarrow> False) \<and>
     frames bytes c al (pos + (c - pos mod c)) fs end_pos"
| "frames bytes c al pos (Entry m # fs) end_pos \<longleftrightarrow>
     pos mod c + round_up (4 + length m) al \<le> c \<and>
     read_u32 bytes (pos mod c) = word_of_nat (length m) \<and>
     take (length m) (drop (pos mod c + 4) bytes) = m \<and>
     frames bytes c al (pos + round_up (4 + length m) al) fs end_pos"

fun payloads :: "frame list \<Rightarrow> u8 list list" where
  "payloads [] = []"
| "payloads (Skip # fs) = payloads fs"
| "payloads (Entry m # fs) = m # payloads fs"

lemma payloads_append [simp]: "payloads (fs @ gs) = payloads fs @ payloads gs"
  by (induction fs rule: payloads.induct) auto

lemma frames_le: "frames bytes c al pos fs end_pos \<Longrightarrow> pos \<le> end_pos"
  by (induction bytes c al pos fs end_pos rule: frames.induct) auto

lemma frames_less:
  assumes "frames bytes c al pos fs end_pos" and "0 < al" and "fs \<noteq> []"
  shows "pos < end_pos"
proof (cases fs rule: payloads.cases)
  case (3 m fs')
  then show ?thesis using assms round_up(2) [OF assms(2), of "4 + length m"] by (auto dest!: frames_le)
qed (use assms in \<open>auto dest!: frames_le\<close>)

lemma mod_offset_add: "pos mod c + j < c \<Longrightarrow> (pos + j) mod c = pos mod (c :: nat) + j"
  by (metis add.commute mod_add_left_eq mod_less)

lemma take_drop_nth_cong:
  assumes "length xs = length ys" and "\<And>j. j < n \<Longrightarrow> k + j < length xs \<Longrightarrow> xs ! (k + j) = ys ! (k + j)"
  shows "take n (drop k xs) = take n (drop k ys)"
  using assms by (intro nth_equalityI) auto

text \<open>Frames only depend on the bytes from the first position up to the last.\<close>

lemma frames_cong:
  assumes "frames bytes c al pos fs end_pos" and "0 < al" and "length bytes = c" and "length bytes' = c"
    and "\<And>i. pos \<le> i \<Longrightarrow> i < end_pos \<Longrightarrow> bytes' ! (i mod c) = bytes ! (i mod c)"
  shows "frames bytes' c al pos fs end_pos"
  using assms
proof (induction bytes c al pos fs end_pos rule: frames.induct)
  case (1 bytes c al pos end_pos)
  then show ?case by simp
next
  case (2 bytes c al pos fs end_pos)
  have rest: "frames bytes c al (pos + (c - pos mod c)) fs end_pos" and fits: "pos mod c + 4 \<le> c" using 2(2) by auto
  have near: "bytes' ! (pos mod c + j) = bytes ! (pos mod c + j)" if "j < 4" for j
    using 2(6) [of "pos + j"] frames_le [OF rest] fits that mod_offset_add [of pos c j] by auto
  have "read_u32 bytes' (pos mod c) = read_u32 bytes (pos mod c)" by (rule read_u32_cong) (rule near)
  then show ?case using 2 rest by auto
next
  case (3 bytes c al pos m fs end_pos)
  let ?size = "round_up (4 + length m) al"
  have rest: "frames bytes c al (pos + ?size) fs end_pos" and fits: "pos mod c + ?size \<le> c" using 3(2) by auto
  have size: "4 + length m \<le> ?size" using round_up(2) [OF 3(3)] .
  have near: "bytes' ! (pos mod c + j) = bytes ! (pos mod c + j)" if "j < ?size" for j
    using 3(6) [of "pos + j"] frames_le [OF rest] fits that mod_offset_add [of pos c j] by auto
  have "read_u32 bytes' (pos mod c) = read_u32 bytes (pos mod c)"
    using near size by (intro read_u32_cong) auto
  moreover have "take (length m) (drop (pos mod c + 4) bytes') = take (length m) (drop (pos mod c + 4) bytes)"
    using near size 3(4,5) by (intro take_drop_nth_cong) (auto simp: add.assoc)
  ultimately show ?case using 3 rest by auto
qed

lemma frames_append:
  assumes "frames bytes c al pos fs mid" and "frames bytes c al mid gs end_pos"
  shows "frames bytes c al pos (fs @ gs) end_pos"
  using assms
  by (induction bytes c al pos fs mid rule: frames.induct) (auto split: list.splits frame.splits)

text \<open>A write within one lap ahead of the frames leaves them alone.\<close>

lemma ahead_offset_differs:
  fixes i j c :: nat
  assumes "i < j" and "j < i + c"
  shows "i mod c \<noteq> j mod c"
proof
  assume "i mod c = j mod c"
  then have "c dvd j - i" using mod_eq_dvd_iff_nat [of i j c] assms(1) by simp
  then show False using assms by (auto dest: dvd_imp_le)
qed

lemma frames_write:
  assumes "frames bytes c al r fs w" and "0 < al" and "length bytes = c"
    and "w \<le> pos" and "pos mod c + length new \<le> c" and "pos + length new \<le> r + c"
  shows "frames (write_bytes bytes (pos mod c) new) c al r fs w"
proof (rule frames_cong [OF assms(1,2,3)])
  show "length (write_bytes bytes (pos mod c) new) = c" using assms by simp
next
  fix i
  assume i: "r \<le> i" "i < w"
  have c: "i mod c < c" using i assms by (intro mod_less_divisor) (cases c; simp)
  have "\<not> (pos mod c \<le> i mod c \<and> i mod c < pos mod c + length new)"
  proof
    assume a: "pos mod c \<le> i mod c \<and> i mod c < pos mod c + length new"
    define j where "j = i mod c - pos mod c"
    have j: "j < length new" "i mod c = pos mod c + j" using a by (auto simp: j_def)
    have "(pos + j) mod c = i mod c" using mod_offset_add [of pos c j] j c by simp
    moreover have "i < pos + j" "pos + j < i + c" using i j assms by auto
    ultimately show False using ahead_offset_differs by metis
  qed
  then show "write_bytes bytes (pos mod c) new ! (i mod c) = bytes ! (i mod c)"
    using assms c by (subst nth_write_bytes) auto
qed

text \<open>Writing a length turns the bytes behind it into an entry.\<close>

lemma entry_frame:
  assumes "length bytes = c" and "0 < al" and "pos mod c + round_up (4 + len) al \<le> c"
  shows "frames (write_bytes bytes (pos mod c) (bytes_u32 (word_of_nat len))) c al pos
    [Entry (take len (drop (pos mod c + 4) bytes))] (pos + round_up (4 + len) al)"
proof -
  have size: "pos mod c + 4 + len \<le> c" using round_up(2) [OF assms(2), of "4 + len"] assms(3) by simp
  have "take len (drop (pos mod c + 4) (write_bytes bytes (pos mod c) (bytes_u32 (word_of_nat len)))) =
      take len (drop (pos mod c + 4) bytes)"
    using size assms(1) by (intro take_drop_nth_cong) (auto simp: nth_write_bytes)
  then show ?thesis using size assms by (simp add: read_write_u32 min_absorb2)
qed

lemma read_u32_write_elsewhere:
  assumes "k + 4 \<le> length bytes" and "j + length new \<le> length bytes" and "k + 4 \<le> j \<or> j + length new \<le> k"
  shows "read_u32 (write_bytes bytes j new) k = read_u32 bytes k"
  using assms by (intro read_u32_cong) (auto simp: nth_write_bytes)

text \<open>The bytes and the two positions determine the frames.\<close>

lemma entry_length_word:
  assumes "pos mod c + round_up (4 + length m) al \<le> c" and "0 < al" and "c < 2 ^ 32"
    and "read_u32 bytes (pos mod c) = word_of_nat (length m)"
  shows "unat (read_u32 bytes (pos mod c)) = length m" and "read_u32 bytes (pos mod c) \<noteq> IREE_SPSC_QUEUE_SKIP_MARKER"
proof -
  have len: "4 + length m < 2 ^ 32" using round_up(2) [OF assms(2), of "4 + length m"] assms(1,3) by linarith
  then show eq: "unat (read_u32 bytes (pos mod c)) = length m"
    unfolding assms(4) by (simp add: unat_of_nat take_bit_eq_mod)
  then show "read_u32 bytes (pos mod c) \<noteq> IREE_SPSC_QUEUE_SKIP_MARKER"
    using len by (auto simp: IREE_SPSC_QUEUE_SKIP_MARKER_def unat_u32_max)
qed

lemma frames_unique:
  assumes "frames bytes c al pos fs end_pos" and "frames bytes c al pos gs end_pos" and "0 < al" and "c < 2 ^ 32"
  shows "fs = gs"
  using assms
proof (induction bytes c al pos fs end_pos arbitrary: gs rule: frames.induct)
  case (1 bytes c al pos end_pos)
  then show ?case using frames_less [of bytes c al pos gs end_pos] by auto
next
  case (2 bytes c al pos fs end_pos)
  have "gs \<noteq> []" using frames_less [OF 2(2,4)] 2(3) by auto
  moreover have "gs \<noteq> Entry m # gs'" for m gs'
  proof
    assume "gs = Entry m # gs'"
    then show False using entry_length_word(2) [of pos c m al bytes] 2(2,3,4,5) by simp
  qed
  ultimately obtain gs' where gs: "gs = Skip # gs'" by (cases gs rule: payloads.cases) auto
  have "frames bytes c al (pos + (c - pos mod c)) fs end_pos" "frames bytes c al (pos + (c - pos mod c)) gs' end_pos"
    using 2(2,3) unfolding gs frames.simps by blast+
  then have "fs = gs'" using 2(1,4,5) by blast
  then show ?case using gs by simp
next
  case (3 bytes c al pos m fs end_pos)
  have m: "unat (read_u32 bytes (pos mod c)) = length m" "read_u32 bytes (pos mod c) \<noteq> IREE_SPSC_QUEUE_SKIP_MARKER"
    using entry_length_word [of pos c m al bytes] 3(2,4,5) by simp_all
  have "gs \<noteq> []" using frames_less [OF 3(2,4)] 3(3) by auto
  moreover have "gs \<noteq> Skip # gs'" for gs' using m(2) 3(3) by auto
  ultimately obtain m' gs' where gs: "gs = Entry m' # gs'" by (cases gs rule: payloads.cases) auto
  have "length m' = length m" using entry_length_word(1) [of pos c m' al bytes] 3(3,4,5) gs m(1) by simp
  moreover have "take (length m') (drop (pos mod c + 4) bytes) = m'" "take (length m) (drop (pos mod c + 4) bytes) = m"
    using 3(2,3) unfolding gs frames.simps by blast+
  ultimately have m': "m' = m" by metis
  have "frames bytes c al (pos + round_up (4 + length m) al) fs end_pos"
    "frames bytes c al (pos + round_up (4 + length m) al) gs' end_pos"
    using 3(2,3) unfolding gs m' frames.simps by blast+
  then have "fs = gs'" using 3(1,4,5) by blast
  then show ?case using gs m' by simp
qed

end
