(* ===== verification/Spsc_Channel.thy ===== *)
theory Spsc_Channel
  imports Spsc_Laws
begin

text \<open>
  The invariant of the single-producer single-consumer queue, the messages a state holds, and what each
  operation does to them, with the positions loaded from the other side as stale as the memory model allows.
\<close>

section \<open>Invariant\<close>

definition spsc_shape :: "iree_spsc_queue_t \<Rightarrow> bool" where
  "spsc_shape q \<longleftrightarrow>
     (\<exists>k. 6 \<le> k \<and> k < 32 \<and> capacity q = 2 ^ k) \<and> (\<exists>k. 2 \<le> k \<and> k < 32 \<and> entry_alignment q = 2 ^ k) \<and>
     entry_alignment q dvd capacity q \<and> position_mask q = capacity q - 1 \<and> length (ring q) = capacity q \<and>
     header q = \<lparr>magic = IREE_SPSC_QUEUE_MAGIC, version = IREE_SPSC_QUEUE_VERSION,
       header_capacity = word_of_nat (capacity q), header_entry_alignment = word_of_nat (entry_alignment q)\<rparr>"

definition spsc_positions :: "iree_spsc_queue_t \<Rightarrow> bool" where
  "spsc_positions q \<longleftrightarrow>
     cached_read_position q \<le> read_position q \<and> write_position q \<le> cached_read_position q + capacity q \<and>
     entry_alignment q dvd write_position q"

definition spsc_holds :: "iree_spsc_queue_t \<Rightarrow> frame list \<Rightarrow> bool" where
  "spsc_holds q fs \<longleftrightarrow> spsc_shape q \<and> spsc_positions q \<and>
     frames (ring q) (capacity q) (entry_alignment q) (read_position q) fs (write_position q)"

text \<open>The messages of a queue, oldest first.\<close>

definition spsc_contents :: "iree_spsc_queue_t \<Rightarrow> u8 list list \<Rightarrow> bool" where
  "spsc_contents q ms \<longleftrightarrow> (\<exists>fs. spsc_holds q fs \<and> payloads fs = ms)"

text \<open>The space a message of \<open>len\<close> bytes takes at the write position, with the skipped rest of the ring.\<close>

definition entry_bytes :: "iree_spsc_queue_t \<Rightarrow> nat \<Rightarrow> nat" where
  "entry_bytes q len = round_up (4 + len) (entry_alignment q)"

definition needed_bytes :: "iree_spsc_queue_t \<Rightarrow> nat \<Rightarrow> nat" where
  "needed_bytes q len =
     (let off = write_position q mod capacity q
      in if off + entry_bytes q len \<le> capacity q then entry_bytes q len
         else capacity q - off + entry_bytes q len)"

lemma spsc_shape_facts:
  assumes "spsc_shape q"
  shows "64 \<le> capacity q" and "capacity q < 2 ^ 32" and "4 \<le> entry_alignment q" and "length (ring q) = capacity q"
    and "pos AND position_mask q = pos mod capacity q"
    and "n < 2 ^ 63 \<Longrightarrow> iree_spsc_queue_entry_size (entry_alignment q) n = entry_bytes q n"
    and "4 dvd entry_alignment q" and "entry_alignment q dvd capacity q"
proof -
  obtain k where k: "6 \<le> k" "k < 32" "capacity q = 2 ^ k" using assms by (auto simp: spsc_shape_def)
  obtain a where a: "2 \<le> a" "a < 32" "entry_alignment q = 2 ^ a" using assms by (auto simp: spsc_shape_def)
  show "64 \<le> capacity q" using power_increasing [of 6 k "2 :: nat"] k by simp
  show "capacity q < 2 ^ 32" using k by (simp only:) (rule power_strict_increasing; simp)
  show "4 \<le> entry_alignment q" using power_increasing [of 2 a "2 :: nat"] a by simp
  show "4 dvd entry_alignment q" using le_imp_power_dvd [of 2 a "2 :: nat"] a by simp
  show "length (ring q) = capacity q" "entry_alignment q dvd capacity q" using assms by (simp_all add: spsc_shape_def)
  show "pos AND position_mask q = pos mod capacity q"
    using mask_offset [OF k(3)] assms by (simp add: spsc_shape_def)
  show "n < 2 ^ 63 \<Longrightarrow> iree_spsc_queue_entry_size (entry_alignment q) n = entry_bytes q n"
    using entry_size_eq [OF a(3,2)] by (simp add: entry_bytes_def)
qed

lemma entry_bytes:
  assumes "spsc_shape q"
  shows "4 + n \<le> entry_bytes q n" and "entry_alignment q dvd entry_bytes q n"
  using round_up [of "entry_alignment q" "4 + n"] spsc_shape_facts(3) [OF assms] by (auto simp: entry_bytes_def)

lemma free_space_spsc:
  assumes "spsc_shape q" and "r \<le> w" and "w \<le> r + capacity q"
  shows "iree_spsc_queue_free_space (capacity q) w r = capacity q - (w - r)"
  using free_space_eq [OF assms(2,3)] spsc_shape_facts(2) [OF assms(1)] by simp

lemma spsc_holds_le: "spsc_holds q fs \<Longrightarrow> read_position q \<le> write_position q"
  by (auto simp: spsc_holds_def dest: frames_le)

text \<open>An aligned position is at least an alignment away from the end of the ring.\<close>

lemma offset_room:
  assumes "spsc_shape q" and "entry_alignment q dvd pos"
  shows "pos mod capacity q + 4 \<le> capacity q"
proof -
  have "entry_alignment q dvd pos mod capacity q"
    using spsc_shape_facts(8) [OF assms(1)] assms(2) by (simp add: dvd_mod)
  then have "entry_alignment q dvd capacity q - pos mod capacity q"
    using spsc_shape_facts(8) [OF assms(1)] by (simp add: dvd_diff_nat)
  moreover have "pos mod capacity q < capacity q" using spsc_shape_facts(1) [OF assms(1)] by simp
  ultimately show ?thesis using dvd_imp_le [of "entry_alignment q" "capacity q - pos mod capacity q"]
    spsc_shape_facts(3) [OF assms(1)] by linarith
qed

section \<open>Reserving\<close>

text \<open>What the producer may change without publishing anything.\<close>

definition same_published :: "iree_spsc_queue_t \<Rightarrow> iree_spsc_queue_t \<Rightarrow> bool" where
  "same_published q q' \<longleftrightarrow>
     header q' = header q \<and> write_position q' = write_position q \<and> read_position q' = read_position q \<and>
     capacity q' = capacity q \<and> position_mask q' = position_mask q \<and> entry_alignment q' = entry_alignment q"

text \<open>The pending fields describe free room for a message of \<open>len\<close> bytes after the write position.\<close>

definition spsc_reserved :: "iree_spsc_queue_t \<Rightarrow> nat \<Rightarrow> bool" where
  "spsc_reserved q len \<longleftrightarrow>
     len < 2 ^ 32 \<and> pending_entry_offset q = pending_write_pos q mod capacity q \<and>
     pending_entry_offset q + entry_bytes q len \<le> capacity q \<and>
     pending_write_pos q + entry_bytes q len \<le> cached_read_position q + capacity q \<and>
     (if pending_skip_bytes q = 0 then pending_write_pos q = write_position q
      else pending_skip_offset q = write_position q mod capacity q \<and>
           pending_write_pos q = write_position q + (capacity q - write_position q mod capacity q))"

lemma wrap_offset: "0 < c \<Longrightarrow> (w + (c - w mod c)) mod c = (0 :: nat)"
proof -
  assume "0 < c"
  then have "w + (c - w mod c) = c * (w div c) + c" using mult_div_mod_eq [of c w] mod_less_divisor [of c w] by linarith
  then show ?thesis by simp
qed

lemmas reserve_simps = same_published_def spsc_reserved_def needed_bytes_def entry_bytes_def Let_def

lemma plan_write_spec:
  assumes q: "spsc_shape q" "cached_read_position q \<le> loaded" "loaded \<le> write_position q"
      "write_position q \<le> cached_read_position q + capacity q"
    and free: "entry_bytes q len \<le> capacity q - (write_position q - cached_read_position q)"
    and plan: "iree_spsc_queue_plan_write loaded (entry_bytes q len) (write_position q) q = (res, q')"
  shows "same_published q q' \<and> ring q' = ring q \<and> cached_read_position q' \<in> {cached_read_position q, loaded} \<and>
    (case res of
       None \<Rightarrow> capacity q - (write_position q - loaded) < needed_bytes q len
     | Some off \<Rightarrow> off = pending_entry_offset q' \<and> spsc_reserved q' len \<and>
         needed_bytes q len \<le> capacity q - (write_position q - cached_read_position q'))"
proof -
  let ?w = "write_position q"
  obtain off where off_eq: "?w mod capacity q = off" by simp
  let ?size = "entry_bytes q len"
  have off: "off < capacity q" and wrap: "(?w + (capacity q - off)) mod capacity q = 0" and small: "len < 2 ^ 32"
    using off_eq wrap_offset [of "capacity q" ?w] spsc_shape_facts(1,2) [OF q(1)] entry_bytes(1) [OF q(1), of len] free by auto
  note free1 = free_space_spsc [OF q(1), of "cached_read_position q" ?w]
  note free2 = free_space_spsc [OF q(1), of loaded ?w]
  have mask: "?w AND position_mask q = off" using spsc_shape_facts(5) [OF q(1)] off_eq by simp
  consider (fits) "?size \<le> capacity q - off"
    | (cached) "\<not> ?size \<le> capacity q - off" "capacity q - off + ?size \<le> capacity q - (?w - cached_read_position q)"
    | (fresh) "\<not> ?size \<le> capacity q - off" "\<not> capacity q - off + ?size \<le> capacity q - (?w - cached_read_position q)"
        "capacity q - off + ?size \<le> capacity q - (?w - loaded)"
    | (full) "\<not> ?size \<le> capacity q - off" "\<not> capacity q - off + ?size \<le> capacity q - (?w - loaded)"
    by blast
  then show ?thesis
  proof cases
    case fits
    then have "res = Some off"
      and "q' = q\<lparr>pending_skip_offset := 0, pending_skip_bytes := 0, pending_entry_offset := off,
        pending_write_pos := ?w\<rparr>"
      using plan off by (simp_all add: iree_spsc_queue_plan_write_def mask Let_def)
    then show ?thesis
      using fits free off q small by (auto simp: reserve_simps off_eq)
  next
    case cached
    then have "res = Some 0"
      and "q' = q\<lparr>pending_skip_offset := off, pending_skip_bytes := capacity q - off,
        pending_entry_offset := 0, pending_write_pos := ?w + (capacity q - off)\<rparr>"
      using plan off q free1 by (simp_all add: iree_spsc_queue_plan_write_def mask Let_def not_less)
    then show ?thesis
      using cached off q small wrap by (auto simp: reserve_simps off_eq)
  next
    case fresh
    then have "res = Some 0"
      and "q' = q\<lparr>cached_read_position := loaded, pending_skip_offset := off,
        pending_skip_bytes := capacity q - off,
        pending_entry_offset := 0, pending_write_pos := ?w + (capacity q - off)\<rparr>"
      using plan off q free1 free2 by (simp_all add: iree_spsc_queue_plan_write_def mask Let_def not_less)
    then show ?thesis
      using fresh off q small wrap by (auto simp: reserve_simps off_eq)
  next
    case full
    moreover have "\<not> capacity q - off + ?size \<le> capacity q - (?w - cached_read_position q)"
      using full q by linarith
    ultimately have "res = None" and "q' = q\<lparr>cached_read_position := loaded\<rparr>"
      using plan off q free1 free2 by (simp_all add: iree_spsc_queue_plan_write_def mask Let_def not_less)
    then show ?thesis using full by (simp add: reserve_simps off_eq)
  qed
qed

lemma begin_write_spec:
  assumes q: "spsc_shape q" "spsc_positions q" "read_position q \<le> write_position q"
    and loads: "cached_read_position q \<le> loaded1" "loaded1 \<le> loaded2" "loaded2 \<le> read_position q"
    and len: "len < 2 ^ 63"
    and begin_: "iree_spsc_queue_begin_write loaded1 loaded2 len q = (res, q')"
  shows "same_published q q' \<and> ring q' = ring q \<and>
    cached_read_position q \<le> cached_read_position q' \<and> cached_read_position q' \<le> loaded2 \<and>
    (case res of
       None \<Rightarrow> capacity q - (write_position q - loaded1) < needed_bytes q len
     | Some payload \<Rightarrow> payload = pending_entry_offset q' + 4 \<and> spsc_reserved q' len \<and>
         needed_bytes q len \<le> capacity q - (write_position q - loaded2))"
proof -
  let ?w = "write_position q"
  let ?size = "entry_bytes q len"
  note size = spsc_shape_facts(6) [OF q(1) len]
  have w: "?w \<le> cached_read_position q + capacity q" using q(2) by (simp add: spsc_positions_def)
  note free1 = free_space_spsc [OF q(1), of "cached_read_position q" ?w]
  note free2 = free_space_spsc [OF q(1), of loaded1 ?w]
  have planned: ?thesis
    if q1: "q1 = q \<or> q1 = q\<lparr>cached_read_position := loaded1\<rparr>"
      and fits: "?size \<le> capacity q - (?w - cached_read_position q1)"
      and run: "(case iree_spsc_queue_plan_write loaded2 ?size ?w q1 of
                   (None, q) \<Rightarrow> (None, q) | (Some entry_offset, q) \<Rightarrow> (Some (entry_offset + 4), q)) = (res, q')" for q1
  proof -
    obtain off where plan: "iree_spsc_queue_plan_write loaded2 ?size ?w q1 = (off, q')"
      and res: "res = map_option (\<lambda>o'. o' + 4) off"
      using run by (auto split: prod.splits option.splits)
    have same: "entry_bytes q1 len = ?size" "write_position q1 = ?w" "capacity q1 = capacity q"
      "needed_bytes q1 len = needed_bytes q len" "same_published q q1" "ring q1 = ring q" "spsc_shape q1"
      using q1 q(1) by (auto simp: reserve_simps spsc_shape_def)
    have c: "cached_read_position q \<le> cached_read_position q1" "cached_read_position q1 \<le> loaded1"
      using q1 loads by auto
    show ?thesis
      using plan_write_spec [of q1 loaded2 len off q'] plan fits same c loads q(3) w
      by (cases off) (auto simp: res same_published_def)
  qed
  consider (cached) "?size \<le> capacity q - (?w - cached_read_position q)"
    | (fresh) "\<not> ?size \<le> capacity q - (?w - cached_read_position q)" "?size \<le> capacity q - (?w - loaded1)"
    | (full) "\<not> ?size \<le> capacity q - (?w - loaded1)" by blast
  then show ?thesis
  proof cases
    case cached
    show ?thesis
      by (rule planned [of q]) (use begin_ cached loads q w free1 size in \<open>simp_all add: iree_spsc_queue_begin_write_def not_less\<close>)
  next
    case fresh
    show ?thesis
      by (rule planned [of "q\<lparr>cached_read_position := loaded1\<rparr>"])
        (use begin_ fresh loads q w free1 free2 size in \<open>simp_all add: iree_spsc_queue_begin_write_def not_less\<close>)
  next
    case full
    then have "\<not> ?size \<le> capacity q - (?w - cached_read_position q)" using loads by simp
    then have "res = None" "q' = q\<lparr>cached_read_position := loaded1\<rparr>"
      using full begin_ loads q w free1 free2 size by (auto simp: iree_spsc_queue_begin_write_def)
    moreover have "?size \<le> needed_bytes q len" by (simp add: needed_bytes_def Let_def)
    ultimately show ?thesis using full loads by (simp add: same_published_def)
  qed
qed

section \<open>Publishing\<close>

lemma spsc_holds_same:
  assumes "spsc_holds q fs" and "same_published q q'" and "ring q' = ring q"
    and "cached_read_position q \<le> cached_read_position q'" and "cached_read_position q' \<le> read_position q"
  shows "spsc_holds q' fs"
  using assms by (auto simp: spsc_holds_def spsc_shape_def spsc_positions_def same_published_def)

lemma spsc_reservedD:
  assumes "spsc_holds q fs" and "spsc_reserved q len"
  shows "write_position q \<le> pending_write_pos q"
    and "pending_write_pos q + entry_bytes q len \<le> read_position q + capacity q"
    and "pending_write_pos q mod capacity q + entry_bytes q len \<le> capacity q"
    and "entry_alignment q dvd pending_write_pos q"
proof -
  have q: "spsc_shape q" "spsc_positions q" using assms(1) by (auto simp: spsc_holds_def)
  show "write_position q \<le> pending_write_pos q"
    and "pending_write_pos q mod capacity q + entry_bytes q len \<le> capacity q"
    using assms(2) by (auto simp: spsc_reserved_def split: if_splits)
  show "pending_write_pos q + entry_bytes q len \<le> read_position q + capacity q"
    using assms(2) q(2) by (auto simp: spsc_reserved_def spsc_positions_def)
  show "entry_alignment q dvd pending_write_pos q"
    using assms(2) q(2) spsc_shape_facts(8) [OF q(1)]
    by (auto simp: spsc_reserved_def spsc_positions_def dvd_mod dvd_diff_nat split: if_splits)
qed

lemma store_payload_holds:
  assumes "spsc_holds q fs" and "spsc_reserved q len" and "k + length new \<le> len"
  shows "spsc_holds (store_payload (pending_entry_offset q + 4 + k) new q) fs"
    and "spsc_reserved (store_payload (pending_entry_offset q + 4 + k) new q) len"
proof -
  let ?q = "store_payload (pending_entry_offset q + 4 + k) new q"
  let ?pos = "pending_write_pos q + (4 + k)"
  have q: "spsc_shape q" "spsc_positions q"
    and fs: "frames (ring q) (capacity q) (entry_alignment q) (read_position q) fs (write_position q)"
    using assms(1) by (auto simp: spsc_holds_def)
  note r = spsc_reservedD [OF assms(1,2)] and size = entry_bytes(1) [OF q(1), of len]
  have off: "pending_entry_offset q + 4 + k + length new \<le> capacity q" "pending_entry_offset q = pending_write_pos q mod capacity q"
    using assms(2,3) size by (auto simp: spsc_reserved_def)
  have cap: "0 < capacity q" "0 < entry_alignment q" using spsc_shape_facts(1,3) [OF q(1)] by auto
  show "spsc_reserved ?q len" using assms(2) by (simp add: spsc_reserved_def store_payload_def entry_bytes_def)
  have "frames (ring ?q) (capacity q) (entry_alignment q) (read_position q) fs (write_position q)"
  proof (cases "new = []")
    case True
    then show ?thesis using fs by (simp add: store_payload_def write_bytes_def)
  next
    case False
    then have "?pos mod capacity q = pending_entry_offset q + 4 + k"
      using off mod_offset_add [of "pending_write_pos q" "capacity q" "4 + k"] by (cases new) auto
    then show ?thesis
      using frames_write [OF fs cap(2), of ?pos new] spsc_shape_facts(4) [OF q(1)] off r size assms(3)
      by (simp add: store_payload_def)
  qed
  then show "spsc_holds ?q fs"
    using q off spsc_shape_facts(4) [OF q(1)]
    by (auto simp: spsc_holds_def spsc_shape_def spsc_positions_def store_payload_def)
qed

lemma commit_plain:
  assumes "spsc_holds q fs" and "spsc_reserved q len" and "pending_skip_bytes q = 0"
  shows "frames (write_bytes (ring q) (pending_entry_offset q) (bytes_u32 (word_of_nat len)))
    (capacity q) (entry_alignment q) (read_position q)
    (fs @ [Entry (take len (drop (pending_entry_offset q + 4) (ring q)))]) (pending_write_pos q + entry_bytes q len)"
proof -
  have q: "spsc_shape q" and pos: "write_position q = pending_write_pos q" "pending_entry_offset q = pending_write_pos q mod capacity q"
    and fs: "frames (ring q) (capacity q) (entry_alignment q) (read_position q) fs (write_position q)"
    using assms by (auto simp: spsc_holds_def spsc_reserved_def)
  note r = spsc_reservedD [OF assms(1,2)] and size = entry_bytes(1) [OF q, of len]
  have al: "0 < entry_alignment q" and ring: "length (ring q) = capacity q"
    using spsc_shape_facts(3,4) [OF q] by auto
  have "frames (write_bytes (ring q) (pending_entry_offset q) (bytes_u32 (word_of_nat len)))
      (capacity q) (entry_alignment q) (read_position q) fs (pending_write_pos q)"
    using frames_write [OF fs al ring, of "pending_write_pos q" "bytes_u32 (word_of_nat len)"] r size pos by simp
  from frames_append [OF this] show ?thesis
    using entry_frame [OF ring al, of "pending_write_pos q" len] r(3) pos by (simp add: entry_bytes_def)
qed

lemma commit_skip:
  assumes "spsc_holds q fs" and "spsc_reserved q len" and "pending_skip_bytes q \<noteq> 0"
  shows "frames (write_bytes (write_bytes (ring q) (pending_skip_offset q) (bytes_u32 IREE_SPSC_QUEUE_SKIP_MARKER))
      (pending_entry_offset q) (bytes_u32 (word_of_nat len)))
    (capacity q) (entry_alignment q) (read_position q)
    (fs @ [Skip, Entry (take len (drop (pending_entry_offset q + 4) (ring q)))]) (pending_write_pos q + entry_bytes q len)"
proof -
  define w c where "w = write_position q" and "c = capacity q"
  define ring1 where "ring1 = write_bytes (ring q) (w mod c) (bytes_u32 IREE_SPSC_QUEUE_SKIP_MARKER)"
  let ?ring = "write_bytes ring1 0 (bytes_u32 (word_of_nat len))"
  have q: "spsc_shape q" "entry_alignment q dvd write_position q"
    and fs: "frames (ring q) c (entry_alignment q) (read_position q) fs w"
    using assms(1) by (auto simp: spsc_holds_def spsc_positions_def w_def c_def)
  have pos: "pending_skip_offset q = w mod c" "pending_write_pos q = w + (c - w mod c)"
    "pending_entry_offset q = pending_write_pos q mod c"
    using assms by (auto simp: spsc_reserved_def w_def c_def)
  note facts = spsc_shape_facts(1,3,4) [OF q(1), folded c_def]
    and r = spsc_reservedD(2,3) [OF assms(1,2), folded c_def] and size = entry_bytes(1) [OF q(1), of len]
    and room = offset_room [OF q, folded w_def c_def]
  have al: "0 < entry_alignment q" and zero: "pending_write_pos q mod c = 0" "pending_entry_offset q = 0"
    using facts pos wrap_offset [of c w] by auto
  have before: "entry_bytes q len \<le> w mod c"
    using r(1) pos(2) room spsc_holds_le [OF assms(1)] by (simp add: w_def)
  have ring1: "length ring1 = c" using room facts by (simp add: ring1_def)
  have fs1: "frames ring1 c (entry_alignment q) (read_position q) fs w"
    using frames_write [OF fs al facts(3), of w "bytes_u32 IREE_SPSC_QUEUE_SKIP_MARKER"] room r size pos
    by (simp add: ring1_def)
  have fs2: "frames ?ring c (entry_alignment q) (read_position q) fs w"
    using frames_write [OF fs1 al ring1, of "pending_write_pos q" "bytes_u32 (word_of_nat len)"] zero r size pos room by simp
  have "read_u32 ?ring (w mod c) = IREE_SPSC_QUEUE_SKIP_MARKER"
    using read_u32_write_elsewhere [of "w mod c" ring1 0 "bytes_u32 (word_of_nat len)"]
      read_write_u32 [of "w mod c" "ring q"] before size room facts ring1 by (simp add: ring1_def)
  moreover have "take len (drop 4 ring1) = take len (drop 4 (ring q))"
    using ring1 facts before size room unfolding ring1_def
    by (intro take_drop_nth_cong) (auto simp: nth_write_bytes)
  ultimately have "frames ?ring c (entry_alignment q) w [Skip, Entry (take len (drop 4 (ring q)))]
      (pending_write_pos q + entry_bytes q len)"
    using entry_frame [OF ring1 al, of "pending_write_pos q" len] r(2) room pos zero ring1 facts(3)
    by (simp add: entry_bytes_def)
  from frames_append [OF fs2 this] show ?thesis using pos zero by (simp add: ring1_def c_def)
qed

lemma commit_write_spec:
  assumes "spsc_holds q fs" and "spsc_reserved q len"
  shows "\<exists>gs. payloads gs = [] \<and>
    spsc_holds (iree_spsc_queue_commit_write len q)
      (fs @ gs @ [Entry (take len (drop (pending_entry_offset q + 4) (ring q)))])"
proof -
  let ?q = "iree_spsc_queue_commit_write len q"
  have q: "spsc_shape q" "spsc_positions q" using assms(1) by (auto simp: spsc_holds_def)
  note r = spsc_reservedD [OF assms] and size = entry_bytes [OF q(1), of len] and ring = spsc_shape_facts(4) [OF q(1)]
  have len: "len < 2 ^ 63" and off: "pending_entry_offset q + 4 \<le> capacity q"
    and skip: "pending_skip_bytes q \<noteq> 0 \<Longrightarrow> pending_skip_offset q + 4 \<le> capacity q"
    using assms(2) size offset_room [OF q(1), of "write_position q"] q(2)
    by (auto simp: spsc_reserved_def spsc_positions_def)
  have "spsc_shape ?q" using q(1) off skip ring
    by (auto simp: spsc_shape_def iree_spsc_queue_commit_write_def Let_def)
  moreover have pos: "write_position ?q = pending_write_pos q + entry_bytes q len"
      "cached_read_position ?q = cached_read_position q" "read_position ?q = read_position q"
      "capacity ?q = capacity q" "entry_alignment ?q = entry_alignment q"
    using spsc_shape_facts(6) [OF q(1) len] by (simp_all add: iree_spsc_queue_commit_write_def Let_def)
  moreover have "spsc_positions ?q"
    using q(2) r size assms(2) unfolding spsc_positions_def pos spsc_reserved_def by simp
  ultimately show ?thesis
    using commit_plain [OF assms] commit_skip [OF assms]
    by (cases "pending_skip_bytes q = 0")
      (auto simp: spsc_holds_def iree_spsc_queue_commit_write_def Let_def intro: exI [of _ "[]"] exI [of _ "[Skip]"])
qed

section \<open>Consuming\<close>

text \<open>What the consumer leaves alone.\<close>

definition same_but_read :: "iree_spsc_queue_t \<Rightarrow> iree_spsc_queue_t \<Rightarrow> bool" where
  "same_but_read q q' \<longleftrightarrow> (\<exists>r. read_position q \<le> r \<and> q' = q\<lparr>read_position := r\<rparr>)"

lemma same_but_read_refl [simp]: "same_but_read q q"
  by (auto simp: same_but_read_def intro!: exI [of _ "read_position q"])

lemma same_but_read_trans: "same_but_read q q1 \<Longrightarrow> same_but_read q1 q2 \<Longrightarrow> same_but_read q q2"
proof -
  assume "same_but_read q q1" "same_but_read q1 q2"
  then obtain r r' where "read_position q \<le> r" "q1 = q\<lparr>read_position := r\<rparr>"
      "read_position q1 \<le> r'" "q2 = q1\<lparr>read_position := r'\<rparr>"
    by (auto simp: same_but_read_def)
  then show ?thesis unfolding same_but_read_def by (intro exI [of _ r']) simp
qed

lemma spsc_holds_less: "spsc_holds q fs \<Longrightarrow> fs \<noteq> [] \<Longrightarrow> read_position q < write_position q"
  using frames_less spsc_shape_facts(3) [of q] by (fastforce simp: spsc_holds_def)

lemma spsc_reserved_read: "same_but_read q q' \<Longrightarrow> spsc_reserved q' len \<longleftrightarrow> spsc_reserved q len"
  by (auto simp: same_but_read_def spsc_reserved_def entry_bytes_def)

lemma spsc_holds_advance:
  assumes "spsc_holds q fs" and "read_position q \<le> r"
    and "frames (ring q) (capacity q) (entry_alignment q) r fs' (write_position q)"
  shows "spsc_holds (q\<lparr>read_position := r\<rparr>) fs'"
  using assms by (auto simp: spsc_holds_def spsc_shape_def spsc_positions_def)

text \<open>The length of an entry is read back, and differs from the skip marker.\<close>

lemma entry_length:
  assumes "spsc_holds q (Entry m # fs)"
  shows "unat (read_u32 (ring q) (read_position q AND position_mask q)) = length m"
    and "read_u32 (ring q) (read_position q AND position_mask q) \<noteq> IREE_SPSC_QUEUE_SKIP_MARKER"
    and "iree_spsc_queue_entry_size (entry_alignment q) (length m) = entry_bytes q (length m)"
proof -
  have q: "spsc_shape q"
    and fs: "frames (ring q) (capacity q) (entry_alignment q) (read_position q) (Entry m # fs) (write_position q)"
    using assms by (auto simp: spsc_holds_def)
  have room: "read_position q mod capacity q + round_up (4 + length m) (entry_alignment q) \<le> capacity q"
    and al: "0 < entry_alignment q" using fs spsc_shape_facts(3) [OF q] by auto
  note len = entry_length_word [OF room al spsc_shape_facts(2) [OF q], of "ring q"]
  show "unat (read_u32 (ring q) (read_position q AND position_mask q)) = length m"
    and "read_u32 (ring q) (read_position q AND position_mask q) \<noteq> IREE_SPSC_QUEUE_SKIP_MARKER"
    using len fs spsc_shape_facts(5) [OF q] by auto
  have "length m < 2 ^ 63"
    using room entry_bytes(1) [OF q, of "length m"] spsc_shape_facts(2) [OF q] by (simp add: entry_bytes_def)
  then show "iree_spsc_queue_entry_size (entry_alignment q) (length m) = entry_bytes q (length m)"
    using spsc_shape_facts(6) [OF q] by simp
qed

lemma peek_entry:
  assumes "spsc_holds q (Entry m # fs)"
  shows "peek_from loaded (read_position q) q =
    Some (if read_position q < loaded then Some ((read_position q mod capacity q) + 4, length m) else None, q)"
proof -
  have q: "spsc_shape q" using assms by (simp add: spsc_holds_def)
  show ?thesis
    using entry_length(1,2) [OF assms] spsc_shape_facts(5) [OF q]
    by (subst peek_from.simps) (simp add: Let_def)
qed

lemma peek_skip:
  assumes "spsc_holds q (Skip # fs)" and "read_position q < loaded"
  defines "q' \<equiv> q\<lparr>read_position := read_position q + (capacity q - read_position q mod capacity q)\<rparr>"
  shows "spsc_holds q' fs" and "peek_from loaded (read_position q) q = peek_from loaded (read_position q') q'"
proof -
  have q: "spsc_shape q" and fs: "read_u32 (ring q) (read_position q mod capacity q) = IREE_SPSC_QUEUE_SKIP_MARKER"
    using assms(1) by (auto simp: spsc_holds_def)
  show "spsc_holds q' fs" unfolding q'_def by (rule spsc_holds_advance [OF assms(1)]) (use assms(1) in \<open>auto simp: spsc_holds_def\<close>)
  show "peek_from loaded (read_position q) q = peek_from loaded (read_position q') q'"
    using assms(2) spsc_shape_facts(5) [OF q] fs by (subst peek_from.simps) (simp add: Let_def q'_def)
qed

text \<open>
  Peeking returns with the oldest message, unless the queue is empty or the loaded position does not reach it.
\<close>

lemma peek_spec:
  assumes "spsc_holds q fs" and "loaded \<le> write_position q"
  shows "\<exists>res q' fs'. iree_spsc_queue_peek loaded q = Some (res, q') \<and> same_but_read q q' \<and>
    spsc_holds q' fs' \<and> payloads fs' = payloads fs \<and>
    (case res of
       None \<Rightarrow> loaded \<le> read_position q' \<and> (loaded = write_position q \<longrightarrow> fs = [])
     | Some (off, len) \<Rightarrow> \<exists>m fs''. fs' = Entry m # fs'' \<and> off = read_position q' mod capacity q' + 4 \<and> len = length m)"
proof -
  have entry_case: ?thesis
    if "peek_from loaded (read_position q) q = peek_from loaded (read_position q1) q1"
      "spsc_holds q1 (Entry m # fs1)" "same_but_read q q1" "payloads fs = m # payloads fs1" for q1 m fs1
    using that peek_entry [OF that(2), of loaded] spsc_holds_less [OF that(2)]
    by (intro exI [of _ "if read_position q1 < loaded then Some (read_position q1 mod capacity q1 + 4, length m) else None"]
        exI [of _ q1] exI [of _ "Entry m # fs1"])
      (auto simp: iree_spsc_queue_peek_def same_but_read_def)
  consider (none) "fs = []" | (entry) m fs1 where "fs = Entry m # fs1"
    | (skip) m fs1 where "fs = Skip # Entry m # fs1"
    using assms(1) unfolding spsc_holds_def by (cases fs rule: payloads.cases) (auto split: list.splits frame.splits)
  then show ?thesis
  proof cases
    case none
    then have "iree_spsc_queue_peek loaded q = Some (None, q)"
      using assms by (subst iree_spsc_queue_peek_def, subst peek_from.simps) (auto simp: spsc_holds_def)
    then show ?thesis using none assms by (auto simp: spsc_holds_def intro!: exI [of _ "[]"])
  next
    case entry
    then show ?thesis using entry_case [of q m fs1] assms(1) by simp
  next
    case skip
    show ?thesis
    proof (cases "read_position q < loaded")
      case True
      let ?r = "read_position q + (capacity q - read_position q mod capacity q)"
      have "same_but_read q (q\<lparr>read_position := ?r\<rparr>)" unfolding same_but_read_def by (rule exI [of _ ?r]) simp
      then show ?thesis
        using peek_skip [OF assms(1) [unfolded skip] True] skip by (intro entry_case) auto
    next
      case False
      then have "iree_spsc_queue_peek loaded q = Some (None, q)"
        by (subst iree_spsc_queue_peek_def, subst peek_from.simps) simp
      moreover have "read_position q < write_position q" using spsc_holds_less [OF assms(1)] skip by simp
      ultimately show ?thesis using False assms by auto
    qed
  qed
qed

lemma consume_spec:
  assumes "spsc_holds q (Entry m # fs)"
  shows "spsc_holds (iree_spsc_queue_consume q) fs" and "same_but_read q (iree_spsc_queue_consume q)"
    and "take (length m) (drop (read_position q mod capacity q + 4) (ring q)) = m"
proof -
  have eq: "iree_spsc_queue_consume q = q\<lparr>read_position := read_position q + entry_bytes q (length m)\<rparr>"
    using entry_length(1,3) [OF assms] by (simp add: iree_spsc_queue_consume_def Let_def)
  show "spsc_holds (iree_spsc_queue_consume q) fs"
    unfolding eq by (rule spsc_holds_advance [OF assms]) (use assms in \<open>auto simp: spsc_holds_def entry_bytes_def\<close>)
  show "same_but_read q (iree_spsc_queue_consume q)" unfolding eq same_but_read_def by (rule exI [of _ "read_position q + entry_bytes q (length m)"]) simp
  show "take (length m) (drop (read_position q mod capacity q + 4) (ring q)) = m"
    using assms by (simp add: spsc_holds_def)
qed

text \<open>A queue state determines its messages.\<close>

lemma spsc_contents_unique:
  assumes "spsc_contents q ms" and "spsc_contents q ms'"
  shows "ms = ms'"
  using assms frames_unique spsc_shape_facts(2,3) [of q] by (fastforce simp: spsc_contents_def spsc_holds_def)

text \<open>The queries, with the positions of the queue.\<close>

lemma spsc_queries:
  assumes "spsc_contents q ms"
  shows "iree_spsc_queue_can_read (write_position q) (read_position q) \<longleftrightarrow> ms \<noteq> []"
    and "iree_spsc_queue_read_available (write_position q) (read_position q) = write_position q - read_position q"
    and "iree_spsc_queue_write_available q (write_position q) (read_position q) =
      capacity q - (write_position q - read_position q)"
proof -
  obtain fs where fs: "spsc_holds q fs" "payloads fs = ms" using assms by (auto simp: spsc_contents_def)
  have q: "spsc_shape q" "spsc_positions q" and le: "read_position q \<le> write_position q"
    using fs(1) spsc_holds_le by (auto simp: spsc_holds_def)
  have "ms = [] \<longleftrightarrow> fs = []"
    using fs by (cases fs rule: payloads.cases) (auto simp: spsc_holds_def split: list.splits frame.splits)
  then show "iree_spsc_queue_can_read (write_position q) (read_position q) \<longleftrightarrow> ms \<noteq> []"
    using spsc_holds_less [OF fs(1)] fs(1) by (cases fs) (auto simp: iree_spsc_queue_can_read_def spsc_holds_def)
  have used: "write_position q - read_position q < 2 ^ 32" "write_position q \<le> read_position q + capacity q"
    using q(2) spsc_shape_facts(2) [OF q(1)] by (auto simp: spsc_positions_def)
  have "int (write_position q) - int (read_position q) = int (write_position q - read_position q)" using le by simp
  then show "iree_spsc_queue_read_available (write_position q) (read_position q) = write_position q - read_position q"
    unfolding iree_spsc_queue_read_available_def using used(1)
    by (simp only: of_int_of_nat_eq unat_of_nat) (simp add: take_bit_eq_mod)
  show "iree_spsc_queue_write_available q (write_position q) (read_position q) =
      capacity q - (write_position q - read_position q)"
    using free_space_spsc [OF q(1) le used(2)]
    by (simp add: iree_spsc_queue_write_available_def iree_spsc_queue_free_space_def)
qed

end
