(* ===== verification/Spsc_Fifo.thy ===== *)
theory Spsc_Fifo
  imports Spsc_Channel
begin

text \<open>
  The queue as a channel between a producer and a consumer that run concurrently. A channel is an interface:
  an implementation with its steps, and the messages its states hold. Every run of an implementation that
  obeys the laws is a run of an unbounded first-in first-out queue. The model of the queue, with the
  reservation of the producer and the entry peeked by the consumer, obeys them.
\<close>

section \<open>Channels\<close>

datatype 'm channel_event = Produced 'm | Seen 'm | Consumed 'm | Internal

text \<open>The abstract queue replays the events; \<^term>\<open>None\<close> if it could not have shown them.\<close>

fun replay :: "'m list \<Rightarrow> 'm channel_event list \<Rightarrow> 'm list option" where
  "replay ms [] = Some ms"
| "replay ms (Produced m # evs) = replay (ms @ [m]) evs"
| "replay ms (Seen m # evs) = (case ms of x # _ \<Rightarrow> if x = m then replay ms evs else None | [] \<Rightarrow> None)"
| "replay ms (Consumed m # evs) = (case ms of x # xs \<Rightarrow> if x = m then replay xs evs else None | [] \<Rightarrow> None)"
| "replay ms (Internal # evs) = replay ms evs"

fun produced :: "'m channel_event list \<Rightarrow> 'm list" where
  "produced [] = []"
| "produced (Produced m # evs) = m # produced evs"
| "produced (_ # evs) = produced evs"

fun consumed :: "'m channel_event list \<Rightarrow> 'm list" where
  "consumed [] = []"
| "consumed (Consumed m # evs) = m # consumed evs"
| "consumed (_ # evs) = consumed evs"

lemma replay_order: "replay ms evs = Some ms' \<Longrightarrow> ms @ produced evs = consumed evs @ ms'"
  by (induction ms evs rule: replay.induct) (auto split: list.splits if_splits)

inductive channel_run :: "('s \<Rightarrow> 'm channel_event \<Rightarrow> 's \<Rightarrow> bool) \<Rightarrow> 's \<Rightarrow> 'm channel_event list \<Rightarrow> 's \<Rightarrow> bool"
  for step where
  run_nil: "channel_run step s [] s"
| run_cons: "step s ev s' \<Longrightarrow> channel_run step s' evs s'' \<Longrightarrow> channel_run step s (ev # evs) s''"

locale fifo_channel =
  fixes holds :: "'s \<Rightarrow> 'm list \<Rightarrow> bool"
    and step :: "'s \<Rightarrow> 'm channel_event \<Rightarrow> 's \<Rightarrow> bool"
  assumes produce: "holds s ms \<Longrightarrow> step s (Produced m) s' \<Longrightarrow> holds s' (ms @ [m])"
    and see: "holds s ms \<Longrightarrow> step s (Seen m) s' \<Longrightarrow> (\<exists>rest. ms = m # rest) \<and> holds s' ms"
    and consume: "holds s ms \<Longrightarrow> step s (Consumed m) s' \<Longrightarrow> \<exists>rest. ms = m # rest \<and> holds s' rest"
    and internal: "holds s ms \<Longrightarrow> step s Internal s' \<Longrightarrow> holds s' ms"
begin

lemma refines_queue:
  assumes "channel_run step s evs s'" and "holds s ms"
  shows "\<exists>ms'. replay ms evs = Some ms' \<and> holds s' ms'"
  using assms
proof (induction arbitrary: ms rule: channel_run.induct)
  case (run_nil s)
  then show ?case by simp
next
  case (run_cons s ev s' evs s'')
  show ?case
  proof (cases ev)
    case (Produced m)
    then show ?thesis using run_cons produce by auto
  next
    case (Seen m)
    then show ?thesis using run_cons see by fastforce
  next
    case (Consumed m)
    then show ?thesis using run_cons consume by fastforce
  next
    case Internal
    then show ?thesis using run_cons internal by auto
  qed
qed

lemma delivers_in_order:
  assumes "channel_run step s evs s'" and "holds s []"
  shows "\<exists>ms. produced evs = consumed evs @ ms \<and> holds s' ms"
  using refines_queue [OF assms] by (auto dest: replay_order)

end

section \<open>The producer and the consumer\<close>

text \<open>
  The state of the two sides: the queue, the payload pointer and length the producer has reserved, and the
  payload pointer and length the consumer has peeked.
\<close>

record spsc_system =
  queue :: iree_spsc_queue_t
  reserved :: "(nat \<times> nat) option"
  peeked :: "(nat \<times> nat) option"

inductive spsc_step :: "spsc_system \<Rightarrow> u8 list channel_event \<Rightarrow> spsc_system \<Rightarrow> bool" where
  begin_write: "reserved s = None \<Longrightarrow> cached_read_position (queue s) \<le> loaded1 \<Longrightarrow> loaded1 \<le> loaded2 \<Longrightarrow>
    loaded2 \<le> read_position (queue s) \<Longrightarrow> len < 2 ^ 63 \<Longrightarrow>
    iree_spsc_queue_begin_write loaded1 loaded2 len (queue s) = (res, q) \<Longrightarrow>
    spsc_step s Internal (s\<lparr>queue := q, reserved := map_option (\<lambda>payload. (payload, len)) res\<rparr>)"
| store: "reserved s = Some (payload, len) \<Longrightarrow> k + length bytes \<le> len \<Longrightarrow>
    spsc_step s Internal (s\<lparr>queue := store_payload (payload + k) bytes (queue s)\<rparr>)"
| commit: "reserved s = Some (payload, len) \<Longrightarrow>
    spsc_step s (Produced (take len (drop payload (ring (queue s)))))
      (s\<lparr>queue := iree_spsc_queue_commit_write len (queue s), reserved := None\<rparr>)"
| cancel: "reserved s = Some (payload, len) \<Longrightarrow>
    spsc_step s Internal (s\<lparr>queue := iree_spsc_queue_cancel_write (queue s), reserved := None\<rparr>)"
| peek: "peeked s = None \<Longrightarrow> loaded \<le> write_position (queue s) \<Longrightarrow>
    iree_spsc_queue_peek loaded (queue s) = Some (res, q) \<Longrightarrow>
    spsc_step s Internal (s\<lparr>queue := q, peeked := res\<rparr>)"
| look: "peeked s = Some (payload, len) \<Longrightarrow>
    spsc_step s (Seen (take len (drop payload (ring (queue s))))) s"
| consume: "peeked s = Some (payload, len) \<Longrightarrow>
    spsc_step s (Consumed (take len (drop payload (ring (queue s)))))
      (s\<lparr>queue := iree_spsc_queue_consume (queue s), peeked := None\<rparr>)"

inductive_cases spsc_seeE: "spsc_step s (Seen m) s'"

definition reservation_ok :: "spsc_system \<Rightarrow> bool" where
  "reservation_ok s \<longleftrightarrow>
     (case reserved s of None \<Rightarrow> True
      | Some (payload, len) \<Rightarrow> payload = pending_entry_offset (queue s) + 4 \<and> spsc_reserved (queue s) len)"

definition peeked_ok :: "spsc_system \<Rightarrow> frame list \<Rightarrow> bool" where
  "peeked_ok s fs \<longleftrightarrow>
     (case peeked s of None \<Rightarrow> True
      | Some (payload, len) \<Rightarrow>
          \<exists>m rest. fs = Entry m # rest \<and> len = length m \<and>
            payload = read_position (queue s) mod capacity (queue s) + 4)"

definition system_holds :: "spsc_system \<Rightarrow> u8 list list \<Rightarrow> bool" where
  "system_holds s ms \<longleftrightarrow>
     (\<exists>fs. spsc_holds (queue s) fs \<and> payloads fs = ms \<and> reservation_ok s \<and> peeked_ok s fs)"

lemma internal_law:
  assumes "system_holds s ms" and "spsc_step s Internal s'"
  shows "system_holds s' ms"
proof -
  obtain fs where fs: "spsc_holds (queue s) fs" "payloads fs = ms" and rsv: "reservation_ok s" and pk: "peeked_ok s fs"
    using assms(1) by (auto simp: system_holds_def)
  have q: "spsc_shape (queue s)" "spsc_positions (queue s)" using fs by (auto simp: spsc_holds_def)
  show ?thesis
    using assms(2)
  proof cases
    case (begin_write loaded1 loaded2 len res q')
    note b = begin_write_spec [OF q spsc_holds_le [OF fs(1)] begin_write(3,4,5,6,7)]
    then have "spsc_holds q' fs" using spsc_holds_same [OF fs(1)] begin_write by auto
    then show ?thesis
      unfolding system_holds_def
      by (intro exI [of _ fs])
        (use b begin_write fs pk in \<open>auto simp: reservation_ok_def peeked_ok_def same_published_def split: option.splits\<close>)
  next
    case (store payload len k bytes)
    have p: "payload = pending_entry_offset (queue s) + 4" "spsc_reserved (queue s) len"
      using rsv store by (auto simp: reservation_ok_def)
    then show ?thesis
      using store_payload_holds [OF fs(1) p(2) store(3)] p fs(2) pk store unfolding system_holds_def
      by (intro exI [of _ fs]) (auto simp: reservation_ok_def peeked_ok_def store_payload_def split: option.splits)
  next
    case (cancel payload len)
    then show ?thesis
      using fs pk unfolding system_holds_def
      by (intro exI [of _ fs]) (auto simp: reservation_ok_def peeked_ok_def iree_spsc_queue_cancel_write_def split: option.splits)
  next
    case (peek loaded res q')
    obtain fs' where fs': "same_but_read (queue s) q'" "spsc_holds q' fs'" "payloads fs' = payloads fs"
        "case res of None \<Rightarrow> True
         | Some (off, len) \<Rightarrow> \<exists>m rest. fs' = Entry m # rest \<and> off = read_position q' mod capacity q' + 4 \<and> len = length m"
      using peek_spec [OF fs(1) peek(3)] peek(4) by (fastforce split: option.splits)
    moreover have "pending_entry_offset q' = pending_entry_offset (queue s)" using fs'(1) by (auto simp: same_but_read_def)
    ultimately show ?thesis
      using fs(2) rsv peek spsc_reserved_read [OF fs'(1)] unfolding system_holds_def
      by (intro exI [of _ fs']) (auto simp: reservation_ok_def peeked_ok_def split: option.splits)
  qed
qed

lemma produce_law:
  assumes "system_holds s ms" and "spsc_step s (Produced m) s'"
  shows "system_holds s' (ms @ [m])"
proof -
  obtain fs where fs: "spsc_holds (queue s) fs" "payloads fs = ms" and rsv: "reservation_ok s" and pk: "peeked_ok s fs"
    using assms(1) by (auto simp: system_holds_def)
  show ?thesis
    using assms(2)
  proof cases
    case (commit payload len)
    then have p: "payload = pending_entry_offset (queue s) + 4" "spsc_reserved (queue s) len"
      using rsv by (auto simp: reservation_ok_def)
    obtain gs where gs: "payloads gs = []"
        "spsc_holds (iree_spsc_queue_commit_write len (queue s)) (fs @ gs @ [Entry m])"
      using commit_write_spec [OF fs(1) p(2)] commit(1) p(1) by auto
    have "read_position (iree_spsc_queue_commit_write len (queue s)) = read_position (queue s)"
      "capacity (iree_spsc_queue_commit_write len (queue s)) = capacity (queue s)"
      by (simp_all add: iree_spsc_queue_commit_write_def Let_def)
    then show ?thesis
      using gs fs(2) pk commit unfolding system_holds_def
      by (intro exI [of _ "fs @ gs @ [Entry m]"]) (auto simp: reservation_ok_def peeked_ok_def split: option.splits)
  qed
qed

lemma see_law:
  assumes "system_holds s ms" and "spsc_step s (Seen m) s'"
  shows "(\<exists>rest. ms = m # rest) \<and> system_holds s' ms"
  using assms consume_spec(3)
  by (fastforce elim!: spsc_seeE simp: system_holds_def peeked_ok_def)

lemma consume_law:
  assumes "system_holds s ms" and "spsc_step s (Consumed m) s'"
  shows "\<exists>rest. ms = m # rest \<and> system_holds s' rest"
proof -
  obtain fs where fs: "spsc_holds (queue s) fs" "payloads fs = ms" and rsv: "reservation_ok s" and pk: "peeked_ok s fs"
    using assms(1) by (auto simp: system_holds_def)
  show ?thesis
    using assms(2)
  proof cases
    case (consume payload len)
    then obtain m' rest where hd: "fs = Entry m' # rest" "len = length m'"
        "payload = read_position (queue s) mod capacity (queue s) + 4"
      using pk by (auto simp: peeked_ok_def)
    note c = consume_spec [of "queue s" m' rest]
    have "pending_entry_offset (iree_spsc_queue_consume (queue s)) = pending_entry_offset (queue s)"
      by (simp add: iree_spsc_queue_consume_def Let_def)
    then have "system_holds s' (payloads rest)"
      using c fs(1) hd rsv consume spsc_reserved_read unfolding system_holds_def
      by (intro exI [of _ rest]) (auto simp: reservation_ok_def peeked_ok_def split: option.splits)
    then show ?thesis using c(3) fs hd consume by auto
  qed
qed

interpretation spsc: fifo_channel system_holds spsc_step
  by unfold_locales (fact produce_law see_law consume_law internal_law)+

end
