(* ===== verification/Spsc_Properties.thy ===== *)
theory Spsc_Properties
  imports Spsc_Fifo
begin

text \<open>
  The properties of the single-producer single-consumer queue: initialization, whole writes and reads, the
  progress of a drained queue, and the first-in first-out order under any interleaving of the two sides.
\<close>

section \<open>Initialization\<close>

lemma unat_ucast_u32: "unat (ucast (c :: u32) :: u64) = unat c"
  using unat_u32_lt [of c] by (simp add: unsigned_ucast_eq take_bit_eq_mod)

lemma power_of_two_u32:
  "iree_host_size_is_power_of_two (ucast (c :: u32)) \<longleftrightarrow> (\<exists>k < 32. unat c = 2 ^ k)"
proof
  assume "iree_host_size_is_power_of_two (ucast c)"
  then obtain k where k: "unat c = 2 ^ k"
    unfolding host_size_is_power_of_two using power_of_two_value unat_ucast_u32 by metis
  then have "(2 :: nat) ^ k < 2 ^ 32" using unat_u32_lt [of c] by simp
  then have "k < 32" by (rule power_less_imp_less_exp [rotated]) simp
  then show "\<exists>k < 32. unat c = 2 ^ k" using k by blast
next
  assume "\<exists>k < 32. unat c = 2 ^ k"
  then obtain k where k: "k < 32" "unat c = 2 ^ k" by blast
  then have "unat (ucast c :: u64) = unat (2 ^ k :: u64)" by (simp add: unat_ucast_u32 unat_power_of_two)
  then have "(ucast c :: u64) = 2 ^ k" by (rule word_unat_eq_iff [THEN iffD2])
  then show "iree_host_size_is_power_of_two (ucast c)"
    using k(1) by (simp add: host_size_is_power_of_two power_of_two_exp)
qed

lemma required_size: "unat (iree_spsc_queue_required_size c) = 256 + unat c"
  unfolding iree_spsc_queue_required_size_def IREE_SPSC_QUEUE_HEADER_SIZE_def
  using unat_u32_lt [of c] by (subst unat_add_no_wrap) (auto simp: unat_ucast_u32)

lemma spsc_initialize_ok:
  assumes "iree_spsc_queue_initialize memory memory_size c = Inr q"
  shows "spsc_holds q []" and "capacity q = unat c" and "entry_alignment q = 8"
    and "write_position q = 0" and "read_position q = 0"
proof -
  have c: "\<not> c < 64" "iree_host_size_is_power_of_two (ucast c)"
    using assms by (auto simp: iree_spsc_queue_initialize_def IREE_SPSC_QUEUE_MIN_CAPACITY_def
        split: option.splits if_splits)
  have q: "q = iree_spsc_queue_bind
      \<lparr>header = \<lparr>magic = IREE_SPSC_QUEUE_MAGIC, version = IREE_SPSC_QUEUE_VERSION, header_capacity = c,
         header_entry_alignment = IREE_SPSC_QUEUE_DEFAULT_ENTRY_ALIGNMENT\<rparr>,
       write_position = 0, read_position = 0, cached_read_position = 0, ring = replicate (unat c) 0\<rparr>"
    using assms by (auto simp: iree_spsc_queue_initialize_def split: option.splits if_splits)
  obtain k where k: "k < 32" "unat c = 2 ^ k" using c(2) by (auto simp: power_of_two_u32)
  have "64 \<le> unat c" using c(1) by (simp add: word_less_nat_alt)
  then have "(2 :: nat) ^ 6 \<le> 2 ^ k" using k by simp
  then have k6: "6 \<le> k" by (subst (asm) power_increasing_iff) auto
  then have "(2 :: nat) ^ 3 dvd 2 ^ k" by (intro le_imp_power_dvd) simp
  moreover have "unat (c - 1) = unat c - 1" using \<open>64 \<le> unat c\<close> by (intro unat_minus_one) auto
  moreover have "c = 2 ^ k" using k(2) by (metis of_nat_numeral of_nat_power of_nat_unat ucast_id)
  ultimately have "spsc_shape q"
    using k k6 unfolding spsc_shape_def q iree_spsc_queue_bind_def
    by (auto simp: IREE_SPSC_QUEUE_DEFAULT_ENTRY_ALIGNMENT_def intro: exI [of _ k] exI [of _ 3])
  then show "spsc_holds q []"
    by (simp add: spsc_holds_def spsc_positions_def q iree_spsc_queue_bind_def)
  show "capacity q = unat c" "entry_alignment q = 8" "write_position q = 0" "read_position q = 0"
    by (simp_all add: q iree_spsc_queue_bind_def IREE_SPSC_QUEUE_DEFAULT_ENTRY_ALIGNMENT_def)
qed

text \<open>
  The region of a queue can be opened again, with the messages it holds.
\<close>

lemma open_holds:
  assumes "spsc_holds q fs" and "256 + capacity q \<le> unat memory_size"
  shows "\<exists>q'. iree_spsc_queue_open (Some (spsc_memory.truncate q)) memory_size = Inr q' \<and> spsc_holds q' fs"
proof -
  obtain k where k: "6 \<le> k" "k < 32" "capacity q = 2 ^ k" using assms(1) by (auto simp: spsc_holds_def spsc_shape_def)
  obtain a where a: "2 \<le> a" "a < 32" "entry_alignment q = 2 ^ a" using assms(1) by (auto simp: spsc_holds_def spsc_shape_def)
  have h: "header q = \<lparr>magic = IREE_SPSC_QUEUE_MAGIC, version = IREE_SPSC_QUEUE_VERSION,
       header_capacity = 2 ^ k, header_entry_alignment = 2 ^ a\<rparr>"
    using assms(1) k a by (simp add: spsc_holds_def spsc_shape_def)
  define m where "m = spsc_memory.truncate q"
  have m: "header m = header q" "write_position m = write_position q" "read_position m = read_position q"
    "cached_read_position m = cached_read_position q" "ring m = ring q"
    by (simp_all add: m_def spsc_memory.truncate_def)
  have u: "unat (2 ^ k :: u32) = 2 ^ k" "unat (2 ^ a :: u32) = 2 ^ a"
    using k a unsigned_of_nat [of "2 ^ k", where 'b = 32] unsigned_of_nat [of "2 ^ a", where 'b = 32]
    by (simp_all add: take_bit_nat_eq_self)
  have "64 \<le> (2 :: nat) ^ k" "4 \<le> (2 :: nat) ^ a"
    using power_increasing [of 6 k "2 :: nat"] power_increasing [of 2 a "2 :: nat"] k a by simp_all
  then have le: "\<not> (2 ^ k :: u32) < 64" "\<not> (2 ^ a :: u32) < 4"
    using u by (simp_all add: word_less_nat_alt not_less)
  have "iree_spsc_queue_validate_header (header m) memory_size = Inr ()"
    using le u k a assms(2) required_size [of "2 ^ k"]
    by (auto simp: iree_spsc_queue_validate_header_def m h power_of_two_u32 IREE_SPSC_QUEUE_MIN_CAPACITY_def word_less_nat_alt)
  moreover have "\<not> memory_size < IREE_SPSC_QUEUE_HEADER_SIZE"
    using assms(2) by (simp add: IREE_SPSC_QUEUE_HEADER_SIZE_def word_less_nat_alt)
  ultimately have "iree_spsc_queue_open (Some m) memory_size = Inr (iree_spsc_queue_bind m)"
    by (simp add: iree_spsc_queue_open_def)
  moreover have "unat (2 ^ k - 1 :: u32) = 2 ^ k - 1" using u k(2) by (subst unat_minus_one) auto
  then have "spsc_holds (iree_spsc_queue_bind m) fs"
    using assms(1) u k a by (auto simp: spsc_holds_def spsc_shape_def spsc_positions_def iree_spsc_queue_bind_def m h)
  ultimately show ?thesis by (simp add: m_def)
qed

section \<open>Whole messages\<close>

lemma write_holds:
  assumes "spsc_holds q fs" and "length m < 2 ^ 63"
    and loads: "cached_read_position q \<le> loaded1" "loaded1 \<le> loaded2" "loaded2 \<le> read_position q"
    and wr: "iree_spsc_queue_write loaded1 loaded2 m q = (ok, q')"
  shows "if ok then needed_bytes q (length m) \<le> capacity q - (write_position q - loaded2) \<and>
      (\<exists>gs. payloads gs = [] \<and> spsc_holds q' (fs @ gs @ [Entry m]))
    else capacity q - (write_position q - loaded1) < needed_bytes q (length m) \<and> spsc_holds q' fs"
proof -
  have q: "spsc_shape q" "spsc_positions q" using assms(1) by (auto simp: spsc_holds_def)
  obtain res q1 where b: "iree_spsc_queue_begin_write loaded1 loaded2 (length m) q = (res, q1)" by fastforce
  note spec = begin_write_spec [OF q spsc_holds_le [OF assms(1)] loads assms(2) b]
  have q1: "spsc_holds q1 fs" using spsc_holds_same [OF assms(1)] spec loads by auto
  show ?thesis
  proof (cases res)
    case None
    then show ?thesis using wr b spec q1 by (auto simp: iree_spsc_queue_write_def)
  next
    case (Some payload)
    then have p: "payload = pending_entry_offset q1 + 4" "spsc_reserved q1 (length m)" using spec by auto
    let ?q2 = "store_payload payload m q1"
    have q2: "spsc_holds ?q2 fs" "spsc_reserved ?q2 (length m)" "pending_entry_offset ?q2 + 4 = payload"
      using store_payload_holds [OF q1 p(2), of 0 m] p(1) by (auto simp: store_payload_def)
    have "payload + length m \<le> length (ring q1)"
      using p entry_bytes(1) [of q1 "length m"] q1 spsc_shape_facts(4) [of q1]
      by (auto simp: spsc_reserved_def spsc_holds_def)
    then have "take (length m) (drop payload (ring ?q2)) = m"
      by (simp add: store_payload_def take_drop_write_bytes)
    then show ?thesis
      using commit_write_spec [OF q2(1,2)] q2(3) wr b Some spec by (auto simp: iree_spsc_queue_write_def)
  qed
qed

lemma read_holds:
  assumes "spsc_holds q fs" and "loaded \<le> write_position q"
  shows "\<exists>res q' fs'. iree_spsc_queue_read loaded out_capacity q = Some (res, q') \<and>
    same_but_read q q' \<and> spsc_holds q' fs' \<and>
    (case res of
       None \<Rightarrow> payloads fs' = payloads fs \<and> (loaded = write_position q \<longrightarrow> fs = [])
     | Some (bytes, len) \<Rightarrow> \<exists>m. payloads fs = m # payloads fs' \<and> bytes = take out_capacity m \<and> len = length m \<and>
         length m \<le> capacity q)"
proof -
  obtain res q1 fs1 where p: "iree_spsc_queue_peek loaded q = Some (res, q1)" "same_but_read q q1"
      "spsc_holds q1 fs1" "payloads fs1 = payloads fs" and res: "case res of
       None \<Rightarrow> loaded \<le> read_position q1 \<and> (loaded = write_position q \<longrightarrow> fs = [])
     | Some (off, len) \<Rightarrow> \<exists>m fs''. fs1 = Entry m # fs'' \<and> off = read_position q1 mod capacity q1 + 4 \<and> len = length m"
    using peek_spec [OF assms] by blast
  show ?thesis
  proof (cases res)
    case None
    then show ?thesis using p res by (auto simp: iree_spsc_queue_read_def)
  next
    case (Some r)
    then obtain m fs' where hd: "fs1 = Entry m # fs'" "r = (read_position q1 mod capacity q1 + 4, length m)"
      using res by auto
    note c = consume_spec [OF p(3) [unfolded hd(1)]]
    have "same_but_read q (iree_spsc_queue_consume q1)"
      using p(2) c(2) by (rule same_but_read_trans)
    moreover have "take (min (length m) out_capacity) (drop (read_position q1 mod capacity q1 + 4) (ring q1)) =
        take out_capacity m"
      using c(3) by (metis min.commute take_take)
    moreover have "length m \<le> capacity q"
      using p(3) entry_bytes(1) [of q1 "length m"] p(2) unfolding hd(1)
      by (auto simp: spsc_holds_def entry_bytes_def same_but_read_def)
    moreover have "payloads fs = m # payloads fs'" using p(4) hd by simp
    ultimately show ?thesis
      using p(1) c(1) hd Some by (auto simp: iree_spsc_queue_read_def)
  qed
qed

text \<open>
  C34. Initialization succeeds exactly for a non-null region, a power of two of at least 64 as the capacity, and
  enough memory, and reports invalid-argument otherwise; the result is a well-formed empty queue of that
  capacity. The region of a queue that holds messages can be opened again, and holds the same messages.
\<close>

theorem spsc_initialize_open:
  assumes "spsc_contents q ms" and "256 + capacity q \<le> unat opened_size"
  shows "(case iree_spsc_queue_initialize memory memory_size c of
      Inl e \<Rightarrow> e = IREE_STATUS_INVALID_ARGUMENT \<and>
        (memory = None \<or> unat c < 64 \<or> (\<nexists>k. unat c = 2 ^ k) \<or> unat memory_size < 256 + unat c)
    | Inr q0 \<Rightarrow> memory \<noteq> None \<and> 64 \<le> unat c \<and> (\<exists>k. unat c = 2 ^ k) \<and> 256 + unat c \<le> unat memory_size \<and>
        spsc_contents q0 [] \<and> capacity q0 = unat c) \<and>
    (\<exists>q'. iree_spsc_queue_open (Some (spsc_memory.truncate q)) opened_size = Inr q' \<and> spsc_contents q' ms)"
proof -
  have pow: "(\<exists>k. unat c = 2 ^ k) \<longleftrightarrow> (\<exists>k < 32. unat c = 2 ^ k)"
  proof -
    have "k < 32" if "unat c = 2 ^ k" for k
      using that unat_u32_lt [of c] power_less_imp_less_exp [of "2 :: nat" k 32] by simp
    then show ?thesis by blast
  qed
  have open_: "\<exists>q'. iree_spsc_queue_open (Some (spsc_memory.truncate q)) opened_size = Inr q' \<and> spsc_contents q' ms"
    using open_holds assms by (fastforce simp: spsc_contents_def)
  show ?thesis
  proof (cases "iree_spsc_queue_initialize memory memory_size c")
    case (Inl e)
    then show ?thesis
      using open_ unfolding pow
      by (auto simp: iree_spsc_queue_initialize_def IREE_SPSC_QUEUE_MIN_CAPACITY_def power_of_two_u32
          word_less_nat_alt required_size split: option.splits if_splits)
  next
    case (Inr q0)
    then show ?thesis
      using open_ spsc_initialize_ok [OF Inr] unfolding pow spsc_contents_def
      by (auto simp: iree_spsc_queue_initialize_def IREE_SPSC_QUEUE_MIN_CAPACITY_def power_of_two_u32
          word_less_nat_alt required_size split: option.splits if_splits intro: exI [of _ "[]"])
  qed
qed

text \<open>
  C10. A whole write appends the message if the space it needs, with the skipped rest of the ring, is free for
  the producer, and otherwise leaves the messages alone; a whole read returns and delivers the oldest message,
  truncated to the buffer, with its full length, and reports an empty queue only if there is no message up to
  the write position it loaded. The positions of the other side may be stale.
\<close>

theorem spsc_write_read:
  assumes "spsc_contents q ms" and "length m < 2 ^ 63"
    and "cached_read_position q \<le> loaded1" and "loaded1 \<le> loaded2" and "loaded2 \<le> read_position q"
    and "loaded \<le> write_position q"
  shows "(case iree_spsc_queue_write loaded1 loaded2 m q of (ok, q') \<Rightarrow>
       if ok then needed_bytes q (length m) \<le> capacity q - (write_position q - loaded2) \<and> spsc_contents q' (ms @ [m])
       else capacity q - (write_position q - loaded1) < needed_bytes q (length m) \<and> spsc_contents q' ms) \<and>
    (\<exists>res q'. iree_spsc_queue_read loaded out_capacity q = Some (res, q') \<and>
       (case res of
          None \<Rightarrow> spsc_contents q' ms \<and> (loaded = write_position q \<longrightarrow> ms = [])
        | Some (bytes, len) \<Rightarrow> \<exists>x rest. ms = x # rest \<and> bytes = take out_capacity x \<and> len = length x \<and>
            spsc_contents q' rest))"
proof -
  obtain fs where fs: "spsc_holds q fs" "payloads fs = ms" using assms(1) by (auto simp: spsc_contents_def)
  obtain ok q' where w: "iree_spsc_queue_write loaded1 loaded2 m q = (ok, q')" by fastforce
  obtain res q2 fs2 where r: "iree_spsc_queue_read loaded out_capacity q = Some (res, q2)" "spsc_holds q2 fs2"
      "case res of
       None \<Rightarrow> payloads fs2 = payloads fs \<and> (loaded = write_position q \<longrightarrow> fs = [])
     | Some (bytes, len) \<Rightarrow> \<exists>m. payloads fs = m # payloads fs2 \<and> bytes = take out_capacity m \<and> len = length m \<and>
         length m \<le> capacity q"
    using read_holds [OF fs(1) assms(6)] by blast
  have "\<exists>res q'. iree_spsc_queue_read loaded out_capacity q = Some (res, q') \<and>
       (case res of
          None \<Rightarrow> spsc_contents q' ms \<and> (loaded = write_position q \<longrightarrow> ms = [])
        | Some (bytes, len) \<Rightarrow> \<exists>x rest. ms = x # rest \<and> bytes = take out_capacity x \<and> len = length x \<and>
            spsc_contents q' rest)"
    using r fs by (fastforce simp: spsc_contents_def split: option.splits)
  then show ?thesis
    using write_holds [OF fs(1) assms(2-5) w] w fs(2) by (fastforce simp: spsc_contents_def split: if_splits)
qed

text \<open>The consumer reads \<open>n\<close> messages with a buffer of the capacity.\<close>

primrec drain :: "nat \<Rightarrow> iree_spsc_queue_t \<Rightarrow> (u8 list list \<times> iree_spsc_queue_t) option" where
  "drain 0 q = Some ([], q)"
| "drain (Suc n) q =
     (case iree_spsc_queue_read (write_position q) (capacity q) q of
        Some (Some (m, _), q) \<Rightarrow> map_option (\<lambda>(ms, q). (m # ms, q)) (drain n q)
      | _ \<Rightarrow> None)"

lemma drain_all:
  assumes "spsc_holds q fs"
  shows "\<exists>q'. drain (length (payloads fs)) q = Some (payloads fs, q') \<and> spsc_holds q' [] \<and> same_but_read q q'"
  using assms
proof (induction "payloads fs" arbitrary: q fs)
  case Nil
  have "fs = []" using Nil spsc_holds_def by (cases fs rule: payloads.cases) (auto split: list.splits frame.splits)
  then show ?case using Nil by auto
next
  case (Cons m ms)
  have "fs \<noteq> []" using Cons(2) by auto
  then obtain q1 fs1 where r: "iree_spsc_queue_read (write_position q) (capacity q) q = Some (Some (m, length m), q1)"
      "same_but_read q q1" "spsc_holds q1 fs1" "ms = payloads fs1"
    using read_holds [OF Cons(3), of "write_position q" "capacity q"] Cons(2)
    by (fastforce split: option.splits)
  obtain q' where "drain (length ms) q1 = Some (ms, q')" "spsc_holds q' []" "same_but_read q1 q'"
    using Cons(1) [OF r(4,3)] r(4) by auto
  then show ?case using r Cons(2) same_but_read_trans by (auto simp flip: Cons(2))
qed

text \<open>
  C11. A message whose entry takes at most half the ring can always be sent eventually: the consumer reads all
  messages, in order, each read returning, and then the write of the producer succeeds.
\<close>

theorem spsc_progress:
  assumes "spsc_contents q ms" and "2 * entry_bytes q (length m) \<le> capacity q"
  shows "\<exists>q' q''. drain (length ms) q = Some (ms, q') \<and>
    iree_spsc_queue_write (read_position q') (read_position q') m q' = (True, q'') \<and> spsc_contents q'' [m]"
proof -
  obtain fs where fs: "spsc_holds q fs" "payloads fs = ms" using assms(1) by (auto simp: spsc_contents_def)
  obtain q' where q': "drain (length ms) q = Some (ms, q')" "spsc_holds q' []" "same_but_read q q'"
    using drain_all [OF fs(1)] fs(2) by auto
  have s: "spsc_shape q'" "spsc_positions q'" "read_position q' = write_position q'"
    using q'(2) by (auto simp: spsc_holds_def)
  have same: "entry_bytes q' (length m) = entry_bytes q (length m)" "capacity q' = capacity q"
    using q'(3) by (auto simp: same_but_read_def entry_bytes_def)
  have len: "length m < 2 ^ 63"
    using entry_bytes(1) [OF s(1), of "length m"] spsc_shape_facts(2) [OF s(1)] assms(2) same by simp
  have fits: "needed_bytes q' (length m) \<le> capacity q'"
    using assms(2) same by (auto simp: needed_bytes_def Let_def)
  obtain ok q'' where w: "iree_spsc_queue_write (read_position q') (read_position q') m q' = (ok, q'')" by fastforce
  have ok: ok
    using write_holds [OF q'(2) len _ _ _ w] s(2,3) fits by (auto simp: spsc_positions_def split: if_splits)
  then show ?thesis
    using write_holds [OF q'(2) len _ _ _ w] s(2) q'(1) w by (fastforce simp: spsc_positions_def spsc_contents_def)
qed

text \<open>
  C9. Under any interleaving of producer and consumer, with stale positions, partial stores into a reservation,
  cancelled writes and wraps, every run from an initialized queue is a run of an unbounded
  first-in first-out queue: what was consumed is a prefix of what was produced, the queue holds the rest, and a
  peeked message keeps its bytes until it is consumed.
\<close>

theorem spsc_refines_fifo:
  assumes "iree_spsc_queue_initialize memory memory_size c = Inr q"
    and "channel_run spsc_step \<lparr>queue = q, reserved = None, peeked = None\<rparr> evs s"
  shows "\<exists>ms. replay [] evs = Some ms \<and> produced evs = consumed evs @ ms \<and> spsc_contents (queue s) ms"
proof -
  have "system_holds \<lparr>queue = q, reserved = None, peeked = None\<rparr> []"
    using spsc_initialize_ok(1) [OF assms(1)] unfolding system_holds_def
    by (intro exI [of _ "[]"]) (simp add: reservation_ok_def peeked_ok_def)
  from spsc.refines_queue [OF assms(2) this] show ?thesis
    using replay_order [of "[]" evs] by (fastforce simp: system_holds_def spsc_contents_def)
qed

definition example_memory :: spsc_memory where
  "example_memory =
     \<lparr>header = \<lparr>magic = IREE_SPSC_QUEUE_MAGIC, version = IREE_SPSC_QUEUE_VERSION, header_capacity = 64,
                header_entry_alignment = IREE_SPSC_QUEUE_DEFAULT_ENTRY_ALIGNMENT\<rparr>,
      write_position = 0, read_position = 0, cached_read_position = 0, ring = replicate 64 0\<rparr>"

definition example_queue :: iree_spsc_queue_t where
  "example_queue = iree_spsc_queue_bind example_memory"

definition example_written :: iree_spsc_queue_t where
  "example_written = snd (iree_spsc_queue_write 0 0 [1, 2, 3] example_queue)"

lemma example_initialize: "iree_spsc_queue_initialize (Some example_memory) 320 64 = Inr example_queue"
  by code_simp

lemma example_write: "iree_spsc_queue_write 0 0 [1, 2, 3] example_queue = (True, example_written)"
  by code_simp

lemma example_positions:
  "cached_read_position example_written = 0" "read_position example_written = 0" "write_position example_written = 8"
  "capacity example_written = 64" "entry_alignment example_written = 8"
  by code_simp+

lemma example_contents: "spsc_contents example_queue []" "spsc_contents example_written [[1, 2, 3]]"
proof -
  note q = spsc_initialize_ok [OF example_initialize]
  show "spsc_contents example_queue []" using q(1) by (auto simp: spsc_contents_def)
  have "cached_read_position example_queue = 0" by code_simp
  then show "spsc_contents example_written [[1, 2, 3]]"
    using write_holds [OF q(1) _ _ _ _ example_write] q(5) by (fastforce simp: spsc_contents_def)
qed

theorem spsc_initialize_open_witness:
  "spsc_contents example_written [[1, 2, 3]] \<and> 256 + capacity example_written \<le> unat (320 :: u64) \<and>
   (\<exists>q'. iree_spsc_queue_open (Some (spsc_memory.truncate example_written)) 320 = Inr q' \<and> spsc_contents q' [[1, 2, 3]])"
  using spsc_initialize_open [OF example_contents(2), of 320 "Some example_memory" 320 64] example_contents(2) example_positions(4)
  by simp

theorem spsc_write_read_witness:
  "spsc_contents example_written [[1, 2, 3]] \<and>
   spsc_contents (snd (iree_spsc_queue_write 0 0 [7] example_written)) [[1, 2, 3], [7]] \<and>
   (\<exists>q'. iree_spsc_queue_read 8 2 example_written = Some (Some ([1, 2], 3), q') \<and> spsc_contents q' [])"
proof -
  have "fst (iree_spsc_queue_write 0 0 [7] example_written)" by code_simp
  then show ?thesis
    using spsc_write_read [OF example_contents(2), of "[7]" 0 0 8 2] example_positions example_contents(2)
    by (auto split: prod.splits option.splits)
qed

theorem spsc_progress_witness:
  "2 * entry_bytes example_written (length [7 :: u8]) \<le> capacity example_written \<and>
   (\<exists>q' q''. drain 1 example_written = Some ([[1, 2, 3]], q') \<and>
      iree_spsc_queue_write (read_position q') (read_position q') [7] q' = (True, q''))"
proof -
  have "2 * entry_bytes example_written (length [7 :: u8]) \<le> capacity example_written"
    by (simp add: entry_bytes_def round_up_def example_positions)
  then show ?thesis using spsc_progress [OF example_contents(2)] by fastforce
qed

text \<open>A run in which a message is written in two parts, peeked and consumed.\<close>

definition example_start :: spsc_system where
  "example_start = \<lparr>queue = example_queue, reserved = None, peeked = None\<rparr>"

definition example_events :: "u8 list channel_event list" where
  "example_events = [Internal, Internal, Internal, Produced [5, 6, 7], Internal, Seen [5, 6, 7], Consumed [5, 6, 7]]"

lemma example_run: "\<exists>s. channel_run spsc_step example_start example_events s"
proof -
  define q1 where "q1 = snd (iree_spsc_queue_begin_write 0 0 3 example_queue)"
  define q2 where "q2 = store_payload 5 [6, 7] q1"
  define q3 where "q3 = store_payload 4 [5] q2"
  define q4 where "q4 = iree_spsc_queue_commit_write 3 q3"
  have b: "iree_spsc_queue_begin_write 0 0 3 example_queue = (Some 4, q1)" unfolding q1_def by code_simp
  have c: "take 3 (drop 4 (ring q3)) = [5, 6, 7]" "take 3 (drop 4 (ring q4)) = [5, 6, 7]"
    unfolding q4_def q3_def q2_def q1_def by code_simp+
  have p: "iree_spsc_queue_peek 8 q4 = Some (Some (4, 3), q4)" "write_position q4 = 8"
    unfolding q4_def q3_def q2_def q1_def by code_simp+
  have "cached_read_position example_queue = 0" by code_simp
  then have "spsc_step example_start Internal \<lparr>queue = q1, reserved = Some (4, 3), peeked = None\<rparr>"
    using spsc_step.begin_write [of example_start 0 0 3 "Some 4" q1] b by (simp add: example_start_def)
  moreover have "spsc_step \<lparr>queue = q1, reserved = Some (4, 3), peeked = None\<rparr> Internal \<lparr>queue = q2, reserved = Some (4, 3), peeked = None\<rparr>"
    using spsc_step.store [of "\<lparr>queue = q1, reserved = Some (4, 3), peeked = None\<rparr>" 4 3 1 "[6, 7]"] by (simp add: q2_def)
  moreover have "spsc_step \<lparr>queue = q2, reserved = Some (4, 3), peeked = None\<rparr> Internal \<lparr>queue = q3, reserved = Some (4, 3), peeked = None\<rparr>"
    using spsc_step.store [of "\<lparr>queue = q2, reserved = Some (4, 3), peeked = None\<rparr>" 4 3 0 "[5]"] by (simp add: q3_def)
  moreover have "spsc_step \<lparr>queue = q3, reserved = Some (4, 3), peeked = None\<rparr> (Produced [5, 6, 7]) \<lparr>queue = q4, reserved = None, peeked = None\<rparr>"
    using spsc_step.commit [of "\<lparr>queue = q3, reserved = Some (4, 3), peeked = None\<rparr>" 4 3] c by (simp add: q4_def)
  moreover have "spsc_step \<lparr>queue = q4, reserved = None, peeked = None\<rparr> Internal \<lparr>queue = q4, reserved = None, peeked = Some (4, 3)\<rparr>"
    using spsc_step.peek [of "\<lparr>queue = q4, reserved = None, peeked = None\<rparr>" 8] p by simp
  moreover have "spsc_step \<lparr>queue = q4, reserved = None, peeked = Some (4, 3)\<rparr> (Seen [5, 6, 7]) \<lparr>queue = q4, reserved = None, peeked = Some (4, 3)\<rparr>"
    using spsc_step.look [of "\<lparr>queue = q4, reserved = None, peeked = Some (4, 3)\<rparr>" 4 3] c by simp
  moreover have "spsc_step \<lparr>queue = q4, reserved = None, peeked = Some (4, 3)\<rparr> (Consumed [5, 6, 7])
      \<lparr>queue = iree_spsc_queue_consume q4, reserved = None, peeked = None\<rparr>"
    using spsc_step.consume [of "\<lparr>queue = q4, reserved = None, peeked = Some (4, 3)\<rparr>" 4 3] c by simp
  ultimately show ?thesis unfolding example_events_def by (blast intro: channel_run.intros)
qed

theorem spsc_refines_fifo_witness:
  "iree_spsc_queue_initialize (Some example_memory) 320 64 = Inr example_queue \<and>
   (\<exists>s. channel_run spsc_step \<lparr>queue = example_queue, reserved = None, peeked = None\<rparr> example_events s \<and>
      spsc_contents (queue s) [])"
proof -
  obtain s where s: "channel_run spsc_step \<lparr>queue = example_queue, reserved = None, peeked = None\<rparr> example_events s"
    using example_run by (auto simp: example_start_def)
  show ?thesis
    using spsc_refines_fifo [OF example_initialize s] s example_initialize by (auto simp: example_events_def)
qed

end
