(* ===== verification/Fixed_Block.thy ===== *)
theory Fixed_Block
  imports Frontier Host_Allocator
begin

text \<open>
  The fixed-block allocator of \<^verbatim>\<open>runtime/src/iree/hal/memory/fixed_block_allocator.{h,c}\<close>: blocks of one size
  claimed lock-free in an atomic bitmap, each with the frontier of its last release.

  The allocator is a record; block metadata is a list indexed by block. Block indices and counts below 4096 are
  natural numbers, bitmap words keep their width. Acquisition and release are given as sequences of atomic
  steps, so that they can be run alone or interleaved with those of other threads.
\<close>

section \<open>Types\<close>

definition IREE_HAL_MEMORY_FIXED_BLOCK_ALLOCATOR_MAX_BLOCKS :: nat where "IREE_HAL_MEMORY_FIXED_BLOCK_ALLOCATOR_MAX_BLOCKS = 4096"
definition IREE_HAL_MEMORY_FIXED_BLOCK_ALLOCATOR_DEFAULT_FRONTIER_CAPACITY :: nat where "IREE_HAL_MEMORY_FIXED_BLOCK_ALLOCATOR_DEFAULT_FRONTIER_CAPACITY = 4"
definition IREE_HAL_MEMORY_FIXED_BLOCK_ALLOCATOR_BITMAP_WORDS :: nat where "IREE_HAL_MEMORY_FIXED_BLOCK_ALLOCATOR_BITMAP_WORDS = 64"
definition FLAG_NONE :: u32 where "FLAG_NONE = 0"
definition FLAG_TAINT :: u32 where "FLAG_TAINT = 1"

record iree_hal_memory_fixed_block_allocator_block_t =
  bflags :: u32
  bgeneration :: u32
  bfrontier :: iree_async_frontier_t

record iree_hal_memory_fixed_block_allocator_options_t =
  obs_block_size :: iree_device_size_t
  obs_block_count :: u32
  obs_frontier_capacity :: u16
  obs_initial_frontier :: "iree_async_frontier_t option"

record iree_hal_memory_fixed_block_allocator_allocation_t =
  aoffset :: iree_device_size_t
  ablock_index :: nat
  adeath_frontier :: "iree_async_frontier_t option"
  ablock_flags :: u32

record iree_hal_memory_fixed_block_allocator_t =
  pblock_size :: iree_device_size_t
  pblock_count :: nat
  pfrontier_capacity :: nat
  pword_count :: nat
  pblock_stride :: iree_host_size_t
  pfrontier_offset :: iree_host_size_t
  pgeneration :: u32
  pinitial_frontier :: iree_async_frontier_t
  preturned_bitmap :: "u64 list"
  palloc_hint_word :: nat
  pallocation_count :: u32
  phost_allocator :: iree_allocator_t
  pbitmap :: "u64 list"
  pblocks :: "iree_hal_memory_fixed_block_allocator_block_t list"

text \<open>Position of a block in a bitmap.\<close>

definition bit_mask :: "nat \<Rightarrow> u64" where "bit_mask block_index = push_bit (block_index mod 64) 1"

definition set_block_bit :: "u64 list \<Rightarrow> nat \<Rightarrow> u64 list" where
  "set_block_bit words i = words[i div 64 := words ! (i div 64) OR bit_mask i]"

definition clear_block_bit :: "u64 list \<Rightarrow> nat \<Rightarrow> u64 list" where
  "clear_block_bit words i = words[i div 64 := words ! (i div 64) AND NOT (bit_mask i)]"

definition iree_hal_memory_fixed_block_allocator_read_block ::
  "iree_hal_memory_fixed_block_allocator_t \<Rightarrow> nat \<Rightarrow> iree_hal_memory_fixed_block_allocator_allocation_t" where
  "iree_hal_memory_fixed_block_allocator_read_block pool block_index =
     (let block = pblocks pool ! block_index;
          returned = (bgeneration block = pgeneration pool);
          frontier = (if returned then bfrontier block else pinitial_frontier pool)
      in \<lparr>aoffset = word_of_nat block_index * pblock_size pool, ablock_index = block_index,
          adeath_frontier = (if entry_count frontier \<noteq> 0 then Some frontier else None),
          ablock_flags = (if returned then bflags block else 0)\<rparr>)"

section \<open>Creation\<close>

definition iree_hal_memory_fixed_block_allocator_reset ::
  "iree_async_frontier_t option \<Rightarrow> iree_hal_memory_fixed_block_allocator_t \<Rightarrow>
   iree_hal_memory_fixed_block_allocator_t" where
  "iree_hal_memory_fixed_block_allocator_reset initial_frontier pool =
     (let pool = pool\<lparr>pgeneration := pgeneration pool + 1\<rparr>;
          pool = (if pgeneration pool = 0
                  then pool\<lparr>pblocks := map (\<lambda>b. b\<lparr>bgeneration := 0\<rparr>) (pblocks pool), pgeneration := 1\<rparr>
                  else pool);
          pool = pool\<lparr>pinitial_frontier :=
                   (case initial_frontier of
                      Some f \<Rightarrow> frontier_copy (pinitial_frontier pool) f
                    | None \<Rightarrow> iree_async_frontier_initialize (pinitial_frontier pool) 0)\<rparr>
      in pool\<lparr>preturned_bitmap := replicate (pword_count pool) 0, palloc_hint_word := 0\<rparr>)"

text \<open>
  The storage comes zeroed. The first 64 words of the bitmap are inline, with the bits past the last block set.
\<close>

definition empty_frontier :: "nat \<Rightarrow> iree_async_frontier_t" where
  "empty_frontier n = \<lparr>entry_count = 0, entries = replicate n \<lparr>axis = 0, epoch = 0\<rparr>\<rparr>"

definition initial_bitmap :: "nat \<Rightarrow> u64 list" where
  "initial_bitmap block_count =
     (let words = replicate IREE_HAL_MEMORY_FIXED_BLOCK_ALLOCATOR_BITMAP_WORDS 0;
          blocks_in_last_word = block_count mod 64
      in if blocks_in_last_word \<noteq> 0
         then words[(block_count + 63) div 64 - 1 := NOT (push_bit blocks_in_last_word 1 - 1)]
         else words)"

definition iree_hal_memory_fixed_block_allocator_allocate ::
  "iree_hal_memory_fixed_block_allocator_options_t \<Rightarrow> iree_allocator_t \<Rightarrow>
   iree_hal_memory_fixed_block_allocator_t iree_result" where
  "iree_hal_memory_fixed_block_allocator_allocate options allocator =
     (let count = unat (obs_block_count options);
          capacity = (if obs_frontier_capacity options = 0 then IREE_HAL_MEMORY_FIXED_BLOCK_ALLOCATOR_DEFAULT_FRONTIER_CAPACITY
                      else unat (obs_frontier_capacity options));
          word_count = (count + 63) div 64
      in if obs_block_size options = 0 then Inl IREE_STATUS_INVALID_ARGUMENT
         else if count = 0 then Inl IREE_STATUS_INVALID_ARGUMENT
         else if count > IREE_HAL_MEMORY_FIXED_BLOCK_ALLOCATOR_MAX_BLOCKS then Inl IREE_STATUS_INVALID_ARGUMENT
         else if iree_checked_mul_u64 (ucast (obs_block_count options)) (obs_block_size options) = None
         then Inl IREE_STATUS_INVALID_ARGUMENT
         else if (case obs_initial_frontier options of None \<Rightarrow> False | Some f \<Rightarrow> entry_count f > capacity)
         then Inl IREE_STATUS_OUT_OF_RANGE
         else case iree_struct_layout_calculate 8
                [\<lparr>count0 = 1, count1 = 1, element_size = 8, field_alignment = 8\<rparr>,
                 \<lparr>count0 = word_of_nat capacity, count1 = 1, element_size = 16, field_alignment = 0\<rparr>] of
           Inl e \<Rightarrow> Inl e
         | Inr (block_stride, offsets) \<Rightarrow>
         (case iree_struct_layout_calculate 704
                [\<lparr>count0 = word_of_nat count, count1 = block_stride, element_size = 1, field_alignment = 0\<rparr>,
                 \<lparr>count0 = 1, count1 = 1, element_size = 8, field_alignment = 8\<rparr>,
                 \<lparr>count0 = word_of_nat capacity, count1 = 1, element_size = 16, field_alignment = 0\<rparr>,
                 \<lparr>count0 = word_of_nat word_count, count1 = 1, element_size = 8, field_alignment = 0\<rparr>] of
           Inl e \<Rightarrow> Inl e
         | Inr (total_size, _) \<Rightarrow>
         (case iree_allocator_malloc_aligned allocator total_size 64 of
           IREE_STATUS_OK \<Rightarrow>
             Inr (iree_hal_memory_fixed_block_allocator_reset (obs_initial_frontier options)
               \<lparr>pblock_size = obs_block_size options, pblock_count = count, pfrontier_capacity = capacity,
                pword_count = word_count, pblock_stride = block_stride, pfrontier_offset = hd offsets,
                pgeneration = 0, pinitial_frontier = empty_frontier capacity,
                preturned_bitmap = replicate word_count 0, palloc_hint_word = 0, pallocation_count = 0,
                phost_allocator = allocator, pbitmap = initial_bitmap count,
                pblocks = replicate count \<lparr>bflags = 0, bgeneration = 0, bfrontier = empty_frontier capacity\<rparr>\<rparr>)
         | e \<Rightarrow> Inl e)))"

section \<open>Acquisition\<close>

text \<open>
  The points of an acquisition at which it next touches shared memory: loading a word, claiming a bit of a
  loaded word, storing the hint, counting; then the outcome.
\<close>

datatype acquire_state =
    Scan nat nat
  | Claim nat nat u64
  | Store_hint nat nat
  | Add_count iree_hal_memory_fixed_block_allocator_allocation_t
  | Acquired iree_hal_memory_fixed_block_allocator_allocation_t
  | Exhausted

definition next_word :: "iree_hal_memory_fixed_block_allocator_t \<Rightarrow> nat \<Rightarrow> nat" where
  "next_word pool word_index = (if word_index + 1 \<ge> pword_count pool then 0 else word_index + 1)"

definition try_word :: "iree_hal_memory_fixed_block_allocator_t \<Rightarrow> nat \<Rightarrow> nat \<Rightarrow> u64 \<Rightarrow> acquire_state" where
  "try_word pool word_index pass word =
     (if word \<noteq> NOT 0 then Claim word_index pass word else Scan (next_word pool word_index) (pass + 1))"

definition acquire_start :: "iree_hal_memory_fixed_block_allocator_t \<Rightarrow> acquire_state" where
  "acquire_start pool =
     Scan (if palloc_hint_word pool \<ge> pword_count pool then 0 else palloc_hint_word pool) 0"

fun acquire_step ::
  "acquire_state \<Rightarrow> iree_hal_memory_fixed_block_allocator_t \<Rightarrow>
   acquire_state \<times> iree_hal_memory_fixed_block_allocator_t" where
  "acquire_step (Scan word_index pass) pool =
     (if pass < pword_count pool then (try_word pool word_index pass (pbitmap pool ! word_index), pool)
      else (Exhausted, pool))"
| "acquire_step (Claim word_index pass word) pool =
     (let bit = iree_math_count_trailing_zeros_u64 (NOT word);
          mask = push_bit bit 1;
          old = pbitmap pool ! word_index;
          pool = pool\<lparr>pbitmap := (pbitmap pool)[word_index := old OR mask]\<rparr>
      in if old AND mask = 0 then (Store_hint word_index (word_index * 64 + bit), pool)
         else (try_word pool word_index pass (old OR mask), pool))"
| "acquire_step (Store_hint word_index block_index) pool =
     (Add_count (iree_hal_memory_fixed_block_allocator_read_block pool block_index),
      pool\<lparr>palloc_hint_word := word_index\<rparr>)"
| "acquire_step (Add_count a) pool = (Acquired a, pool\<lparr>pallocation_count := pallocation_count pool + 1\<rparr>)"
| "acquire_step (Acquired a) pool = (Acquired a, pool)"
| "acquire_step Exhausted pool = (Exhausted, pool)"

text \<open>The loop of an acquisition that runs alone; not returning is \<^term>\<open>None\<close>.\<close>

partial_function (option) acquire_loop ::
  "acquire_state \<Rightarrow> iree_hal_memory_fixed_block_allocator_t \<Rightarrow>
   (iree_hal_memory_fixed_block_allocator_allocation_t option \<times> iree_hal_memory_fixed_block_allocator_t) option" where
  "acquire_loop st pool =
     (case st of
        Acquired a \<Rightarrow> Some (Some a, pool)
      | Exhausted \<Rightarrow> Some (None, pool)
      | _ \<Rightarrow> acquire_loop (fst (acquire_step st pool)) (snd (acquire_step st pool)))"

declare acquire_loop.simps [code]

definition iree_hal_memory_fixed_block_allocator_try_acquire ::
  "iree_hal_memory_fixed_block_allocator_t \<Rightarrow>
   (iree_hal_memory_fixed_block_allocator_allocation_t option \<times> iree_hal_memory_fixed_block_allocator_t) option" where
  "iree_hal_memory_fixed_block_allocator_try_acquire pool = acquire_loop (acquire_start pool) pool"

definition iree_hal_memory_fixed_block_allocator_acquire ::
  "iree_hal_memory_fixed_block_allocator_t \<Rightarrow>
   (iree_hal_memory_fixed_block_allocator_allocation_t iree_result \<times> iree_hal_memory_fixed_block_allocator_t) option" where
  "iree_hal_memory_fixed_block_allocator_acquire pool =
     (case iree_hal_memory_fixed_block_allocator_try_acquire pool of
        None \<Rightarrow> None
      | Some (None, pool) \<Rightarrow> Some (Inl IREE_STATUS_RESOURCE_EXHAUSTED, pool)
      | Some (Some a, pool) \<Rightarrow> Some (Inr a, pool))"

section \<open>Candidates\<close>

function query_candidate_from ::
  "iree_hal_memory_fixed_block_allocator_t \<Rightarrow> nat \<Rightarrow> u64 \<Rightarrow>
   iree_hal_memory_fixed_block_allocator_allocation_t option" where
  "query_candidate_from pool word_index candidate_mask =
     (if word_index < pword_count pool
      then let available = NOT (pbitmap pool ! word_index) AND candidate_mask
           in if available \<noteq> 0
              then Some (iree_hal_memory_fixed_block_allocator_read_block pool
                     (word_index * 64 + iree_math_count_trailing_zeros_u64 available))
              else query_candidate_from pool (word_index + 1) (NOT 0)
      else None)"
  by pat_completeness auto
termination
  by (relation "measure (\<lambda>(pool, word_index, mask). pword_count pool - word_index)") auto

definition iree_hal_memory_fixed_block_allocator_query_candidate ::
  "iree_hal_memory_fixed_block_allocator_t \<Rightarrow> nat \<Rightarrow>
   iree_hal_memory_fixed_block_allocator_allocation_t option" where
  "iree_hal_memory_fixed_block_allocator_query_candidate pool start_block_index =
     query_candidate_from pool (start_block_index div 64) (push_bit (start_block_index mod 64) (NOT 0))"

definition iree_hal_memory_fixed_block_allocator_candidate_is_current ::
  "iree_hal_memory_fixed_block_allocator_t \<Rightarrow> iree_hal_memory_fixed_block_allocator_allocation_t \<Rightarrow> bool" where
  "iree_hal_memory_fixed_block_allocator_candidate_is_current pool candidate =
     (let i = ablock_index candidate;
          current = iree_hal_memory_fixed_block_allocator_read_block pool i
      in if pbitmap pool ! (i div 64) AND bit_mask i \<noteq> 0 then False
         else if ablock_flags current \<noteq> ablock_flags candidate then False
         else case (adeath_frontier current, adeath_frontier candidate) of
                (Some f, Some snapshot) \<Rightarrow>
                  entry_count f = entry_count snapshot \<and>
                  take (entry_count snapshot) (entries f) = take (entry_count snapshot) (entries snapshot)
              | (None, None) \<Rightarrow> True
              | _ \<Rightarrow> False)"

definition iree_hal_memory_fixed_block_allocator_acquire_candidate ::
  "nat \<Rightarrow> iree_hal_memory_fixed_block_allocator_t \<Rightarrow>
   iree_hal_memory_fixed_block_allocator_allocation_t \<times> iree_hal_memory_fixed_block_allocator_t" where
  "iree_hal_memory_fixed_block_allocator_acquire_candidate block_index pool =
     (let pool = pool\<lparr>pbitmap := set_block_bit (pbitmap pool) block_index\<rparr>;
          pool = pool\<lparr>palloc_hint_word := block_index div 64\<rparr>;
          pool = pool\<lparr>pallocation_count := pallocation_count pool + 1\<rparr>
      in (iree_hal_memory_fixed_block_allocator_read_block pool block_index, pool))"

section \<open>Release\<close>

text \<open>
  The writes of a release to the metadata of its block, then its atomic steps: recording that the block was
  returned in this generation, clearing its bit, and the counter.
\<close>

definition write_history ::
  "nat \<Rightarrow> iree_async_frontier_t option \<Rightarrow> iree_hal_memory_fixed_block_allocator_t \<Rightarrow>
   iree_hal_memory_fixed_block_allocator_t" where
  "write_history block_index death_frontier pool =
     (let block = (pblocks pool ! block_index)\<lparr>bflags := FLAG_NONE\<rparr>;
          block = (case death_frontier of
              None \<Rightarrow> block\<lparr>bfrontier := iree_async_frontier_initialize (bfrontier block) 0\<rparr>
            | Some death \<Rightarrow>
                if entry_count death > 0
                then if entry_count death \<le> pfrontier_capacity pool
                     then block\<lparr>bfrontier := frontier_copy (bfrontier block) death\<rparr>
                     else block\<lparr>bfrontier := iree_async_frontier_initialize (bfrontier block) 0,
                                bflags := bflags block OR FLAG_TAINT\<rparr>
                else block\<lparr>bfrontier := iree_async_frontier_initialize (bfrontier block) 0\<rparr>)
      in pool\<lparr>pblocks := (pblocks pool)[block_index := block]\<rparr>)"

definition adopt_generation ::
  "nat \<Rightarrow> iree_hal_memory_fixed_block_allocator_t \<Rightarrow> iree_hal_memory_fixed_block_allocator_t" where
  "adopt_generation block_index pool =
     pool\<lparr>pblocks := (pblocks pool)[block_index := (pblocks pool ! block_index)\<lparr>bgeneration := pgeneration pool\<rparr>]\<rparr>"

definition mark_returned ::
  "nat \<Rightarrow> iree_hal_memory_fixed_block_allocator_t \<Rightarrow> iree_hal_memory_fixed_block_allocator_t" where
  "mark_returned block_index pool =
     pool\<lparr>preturned_bitmap := set_block_bit (preturned_bitmap pool) block_index\<rparr>"

definition clear_bit ::
  "nat \<Rightarrow> iree_hal_memory_fixed_block_allocator_t \<Rightarrow> iree_hal_memory_fixed_block_allocator_t" where
  "clear_bit block_index pool = pool\<lparr>pbitmap := clear_block_bit (pbitmap pool) block_index\<rparr>"

definition sub_count :: "iree_hal_memory_fixed_block_allocator_t \<Rightarrow> iree_hal_memory_fixed_block_allocator_t" where
  "sub_count pool = pool\<lparr>pallocation_count := pallocation_count pool - 1\<rparr>"

definition iree_hal_memory_fixed_block_allocator_release_bit ::
  "nat \<Rightarrow> iree_hal_memory_fixed_block_allocator_t \<Rightarrow> iree_hal_memory_fixed_block_allocator_t" where
  "iree_hal_memory_fixed_block_allocator_release_bit block_index pool = sub_count (clear_bit block_index pool)"

definition iree_hal_memory_fixed_block_allocator_release ::
  "nat \<Rightarrow> iree_async_frontier_t option \<Rightarrow> iree_hal_memory_fixed_block_allocator_t \<Rightarrow>
   iree_hal_memory_fixed_block_allocator_t" where
  "iree_hal_memory_fixed_block_allocator_release block_index death_frontier pool =
     (let pool = write_history block_index death_frontier pool;
          pool = (if bgeneration (pblocks pool ! block_index) \<noteq> pgeneration pool
                  then mark_returned block_index (adopt_generation block_index pool) else pool)
      in iree_hal_memory_fixed_block_allocator_release_bit block_index pool)"

text \<open>The points of a release between its accesses to shared memory; \<^term>\<open>None\<close> when it has returned.\<close>

datatype release_state =
    Write nat "iree_async_frontier_t option"
  | Mark nat
  | Clear nat
  | Subtract

fun release_step ::
  "release_state \<Rightarrow> iree_hal_memory_fixed_block_allocator_t \<Rightarrow>
   release_state option \<times> iree_hal_memory_fixed_block_allocator_t" where
  "release_step (Write i death) pool =
     (let pool = write_history i death pool
      in if bgeneration (pblocks pool ! i) \<noteq> pgeneration pool then (Some (Mark i), adopt_generation i pool)
         else (Some (Clear i), pool))"
| "release_step (Mark i) pool = (Some (Clear i), mark_returned i pool)"
| "release_step (Clear i) pool = (Some Subtract, clear_bit i pool)"
| "release_step Subtract pool = (None, sub_count pool)"

fun release_all ::
  "nat \<Rightarrow> release_state option \<times> iree_hal_memory_fixed_block_allocator_t \<Rightarrow>
   release_state option \<times> iree_hal_memory_fixed_block_allocator_t" where
  "release_all (Suc n) (Some st, pool) = release_all n (release_step st pool)"
| "release_all n (st, pool) = (st, pool)"

lemma release_all_steps:
  "release_all 4 (Some (Write i death), pool) = (None, iree_hal_memory_fixed_block_allocator_release i death pool)"
  by (simp add: eval_nat_numeral Let_def iree_hal_memory_fixed_block_allocator_release_def
      iree_hal_memory_fixed_block_allocator_release_bit_def)

definition iree_hal_memory_fixed_block_allocator_restore ::
  "nat \<Rightarrow> iree_hal_memory_fixed_block_allocator_t \<Rightarrow> iree_hal_memory_fixed_block_allocator_t" where
  "iree_hal_memory_fixed_block_allocator_restore block_index pool =
     iree_hal_memory_fixed_block_allocator_release_bit block_index pool"

section \<open>Whole-range history and queries\<close>

text \<open>The bits of a word, lowest first, as the loop with \<^verbatim>\<open>returned &= returned - 1\<close> visits them.\<close>

lemma clear_lowest_less: "w \<noteq> 0 \<Longrightarrow> w AND (w - 1) < (w :: u64)"
proof -
  assume w: "w \<noteq> 0"
  then have "unat w \<noteq> 0" by (simp add: unsigned_eq_0_iff)
  then have "unat (w - 1) < unat w" using w by (simp add: unat_minus_one)
  then show ?thesis using word_and_le1 [of w "w - 1"] by (simp add: word_less_nat_alt word_le_nat_alt)
qed

function merge_returned ::
  "iree_hal_memory_fixed_block_allocator_t \<Rightarrow> nat \<Rightarrow>
   (iree_async_frontier_t \<Rightarrow> iree_async_frontier_t \<Rightarrow> iree_async_frontier_t) option \<Rightarrow> nat \<Rightarrow> u64 \<Rightarrow>
   iree_async_frontier_t \<Rightarrow> bool \<times> iree_async_frontier_t" where
  "merge_returned pool cap overflow i returned out =
     (if returned = 0 then (True, out)
      else let block = pblocks pool ! (i * 64 + iree_math_count_trailing_zeros_u64 returned)
           in if bflags block \<noteq> 0 then (False, out)
              else case iree_async_frontier_merge out cap (bfrontier block) of
                     (True, out) \<Rightarrow> merge_returned pool cap overflow i (returned AND (returned - 1)) out
                   | (False, out) \<Rightarrow>
                       (case overflow of
                          None \<Rightarrow> (False, out)
                        | Some handler \<Rightarrow>
                            merge_returned pool cap overflow i (returned AND (returned - 1)) (handler out (bfrontier block))))"
  by pat_completeness auto
termination
  by (relation "measure (\<lambda>(pool, cap, overflow, i, returned, out). unat returned)")
    (auto simp: word_less_nat_alt [symmetric] clear_lowest_less)

function merge_words ::
  "iree_hal_memory_fixed_block_allocator_t \<Rightarrow> nat \<Rightarrow>
   (iree_async_frontier_t \<Rightarrow> iree_async_frontier_t \<Rightarrow> iree_async_frontier_t) option \<Rightarrow> nat \<Rightarrow> bool \<Rightarrow>
   iree_async_frontier_t \<Rightarrow> bool \<times> bool \<times> iree_async_frontier_t" where
  "merge_words pool cap overflow i has_untouched_blocks out =
     (if i < pword_count pool
      then let returned = preturned_bitmap pool ! i;
               valid = (if i + 1 = pword_count pool
                        then drop_bit (unat ((- word_of_nat (pblock_count pool) :: u32) AND 63)) (NOT 0) else NOT 0);
               has_untouched_blocks = (has_untouched_blocks \<or> returned \<noteq> valid)
           in case merge_returned pool cap overflow i returned out of
                (False, out) \<Rightarrow> (False, has_untouched_blocks, out)
              | (True, out) \<Rightarrow> merge_words pool cap overflow (i + 1) has_untouched_blocks out
      else (True, has_untouched_blocks, out))"
  by pat_completeness auto
termination
  by (relation "measure (\<lambda>(pool, cap, overflow, i, u, out). pword_count pool - i)") auto

text \<open>The handler for frontiers that do not fit is a parameter, \<^term>\<open>None\<close> for a null pointer.\<close>

definition iree_hal_memory_fixed_block_allocator_merge_free_frontiers ::
  "iree_hal_memory_fixed_block_allocator_t \<Rightarrow> nat \<Rightarrow>
   (iree_async_frontier_t \<Rightarrow> iree_async_frontier_t \<Rightarrow> iree_async_frontier_t) option \<Rightarrow>
   iree_async_frontier_t \<Rightarrow> bool \<times> iree_async_frontier_t" where
  "iree_hal_memory_fixed_block_allocator_merge_free_frontiers pool cap overflow out =
     (case merge_words pool cap overflow 0 False (iree_async_frontier_initialize out 0) of
        (False, _, out) \<Rightarrow> (False, out)
      | (True, has_untouched_blocks, out) \<Rightarrow>
          if has_untouched_blocks
          then case iree_async_frontier_merge out cap (pinitial_frontier pool) of
                 (True, out) \<Rightarrow> (True, out)
               | (False, out) \<Rightarrow>
                   (case overflow of
                      None \<Rightarrow> (False, out)
                    | Some handler \<Rightarrow> (True, handler out (pinitial_frontier pool)))
          else (True, out))"

declare merge_returned.simps [simp del] merge_words.simps [simp del] query_candidate_from.simps [simp del]

record iree_hal_memory_fixed_block_allocator_stats_t =
  stat_block_count :: nat
  stat_allocations :: u32

definition iree_hal_memory_fixed_block_allocator_query_stats ::
  "iree_hal_memory_fixed_block_allocator_t \<Rightarrow> iree_hal_memory_fixed_block_allocator_stats_t" where
  "iree_hal_memory_fixed_block_allocator_query_stats pool =
     \<lparr>stat_block_count = pblock_count pool, stat_allocations = pallocation_count pool\<rparr>"

definition iree_hal_memory_fixed_block_allocator_block_death_frontier ::
  "iree_hal_memory_fixed_block_allocator_t \<Rightarrow> nat \<Rightarrow> iree_async_frontier_t option" where
  "iree_hal_memory_fixed_block_allocator_block_death_frontier pool block_index =
     adeath_frontier (iree_hal_memory_fixed_block_allocator_read_block pool block_index)"

definition iree_hal_memory_fixed_block_allocator_block_flags ::
  "iree_hal_memory_fixed_block_allocator_t \<Rightarrow> nat \<Rightarrow> u32" where
  "iree_hal_memory_fixed_block_allocator_block_flags pool block_index =
     (let block = pblocks pool ! block_index
      in if bgeneration block = pgeneration pool then bflags block else 0)"

end
