(* ===== verification/Fixed_Block_Laws.thy ===== *)
theory Fixed_Block_Laws
  imports Fixed_Block Frontier_Properties Machine_Laws
begin

text \<open>
  The invariant of the fixed-block allocator and what its operations do alone: which blocks are acquired, what
  history a block reports, and the history of the whole range.
\<close>

section \<open>Bitmaps\<close>

definition block_bit :: "u64 list \<Rightarrow> nat \<Rightarrow> bool" where
  "block_bit words i \<longleftrightarrow> bit (words ! (i div 64)) (i mod 64)"

lemma bit_bit_mask: "bit (bit_mask i) k \<longleftrightarrow> k = i mod 64"
  by (auto simp: bit_mask_def bit_simps)

lemma and_bit_mask: "w AND bit_mask i = 0 \<longleftrightarrow> \<not> bit w (i mod 64)"
proof
  assume "w AND bit_mask i = 0"
  then have "\<not> bit (w AND bit_mask i) (i mod 64)" by simp
  then show "\<not> bit w (i mod 64)" by (simp add: bit_and_iff bit_bit_mask)
qed (auto intro!: bit_word_eqI simp: bit_and_iff bit_bit_mask)

lemma and_push_bit: "b < 64 \<Longrightarrow> (w :: u64) AND push_bit b 1 = 0 \<longleftrightarrow> \<not> bit w b"
  using and_bit_mask [of w b] by (simp add: bit_mask_def)

lemma div_mod_64_eq: "i div 64 = j div 64 \<Longrightarrow> i mod 64 = j mod (64 :: nat) \<Longrightarrow> i = j"
  by (metis div_mod_decomp)

lemma block_bit_set:
  assumes "i div 64 < length words"
  shows "block_bit (set_block_bit words i) j \<longleftrightarrow> block_bit words j \<or> j = i"
  using assms div_mod_64_eq [of i j]
  by (cases "i div 64 = j div 64") (auto simp: block_bit_def set_block_bit_def bit_simps bit_bit_mask)

lemma block_bit_clear:
  assumes "i div 64 < length words"
  shows "block_bit (clear_block_bit words i) j \<longleftrightarrow> block_bit words j \<and> j \<noteq> i"
  using assms div_mod_64_eq [of i j]
  by (cases "i div 64 = j div 64") (auto simp: block_bit_def clear_block_bit_def bit_simps bit_bit_mask)

lemma length_block_bit [simp]:
  "length (set_block_bit words i) = length words" "length (clear_block_bit words i) = length words"
  by (simp_all add: set_block_bit_def clear_block_bit_def)

lemma full_word:
  "words ! w = NOT 0 \<longleftrightarrow> (\<forall>b < 64. block_bit words (w * 64 + b))"
proof -
  have "block_bit words (w * 64 + b) \<longleftrightarrow> bit (words ! w) b" if "b < 64" for b
    using that by (simp add: block_bit_def)
  moreover have "words ! w = NOT 0 \<longleftrightarrow> (\<forall>b < 64. bit (words ! w) b)"
    by (auto simp: bit_eq_iff bit_simps dest: bit_imp_le_length)
  ultimately show ?thesis by simp
qed

text \<open>The lowest clear bit of a word that is not full.\<close>

lemma lowest_clear:
  assumes "w \<noteq> NOT 0"
  defines "b \<equiv> iree_math_count_trailing_zeros_u64 (NOT w)"
  shows "b < 64" and "\<not> bit w b"
proof -
  have "NOT w \<noteq> 0" using assms(1) by (metis bit.double_compl)
  then have "bit (NOT w) b" unfolding b_def by (rule ctz_u64_bit)
  then show "b < 64" "\<not> bit w b" by (auto simp: bit_simps dest: bit_imp_le_length)
qed

section \<open>Invariant\<close>

definition history_ok :: "nat \<Rightarrow> iree_async_frontier_t \<Rightarrow> bool" where
  "history_ok cap f \<longleftrightarrow> frontier_ok f \<and> length (entries f) = cap"

definition pool_ok :: "iree_hal_memory_fixed_block_allocator_t \<Rightarrow> bool" where
  "pool_ok pool \<longleftrightarrow>
     0 < pblock_count pool \<and> pblock_count pool \<le> 4096 \<and> pword_count pool = (pblock_count pool + 63) div 64 \<and>
     length (pbitmap pool) = 64 \<and> length (preturned_bitmap pool) = pword_count pool \<and>
     length (pblocks pool) = pblock_count pool \<and>
     (\<forall>i. pblock_count pool \<le> i \<longrightarrow> i < pword_count pool * 64 \<longrightarrow> block_bit (pbitmap pool) i) \<and>
     (\<forall>b \<in> set (pblocks pool). history_ok (pfrontier_capacity pool) (bfrontier b) \<and> bgeneration b \<le> pgeneration pool) \<and>
     history_ok (pfrontier_capacity pool) (pinitial_frontier pool) \<and>
     0 < pblock_size pool \<and> pblock_count pool * unat (pblock_size pool) < 2 ^ 64"

definition acquired_blocks :: "iree_hal_memory_fixed_block_allocator_t \<Rightarrow> nat set" where
  "acquired_blocks pool = {i. i < pblock_count pool \<and> block_bit (pbitmap pool) i}"

lemma pool_okD:
  assumes "pool_ok pool"
  shows "0 < pword_count pool" and "pword_count pool \<le> 64" and "pblock_count pool \<le> pword_count pool * 64"
    and "length (pbitmap pool) = 64" and "length (pblocks pool) = pblock_count pool"
    and "i < pblock_count pool \<Longrightarrow> i div 64 < pword_count pool"
    and "\<not> block_bit (pbitmap pool) i \<Longrightarrow> i < pword_count pool * 64 \<Longrightarrow> i < pblock_count pool"
proof -
  have wc: "pword_count pool = (pblock_count pool + 63) div 64" and c: "0 < pblock_count pool" "pblock_count pool \<le> 4096"
    using assms by (auto simp: pool_ok_def)
  show "0 < pword_count pool" "pword_count pool \<le> 64" "pblock_count pool \<le> pword_count pool * 64"
    using wc c by linarith+
  show "length (pbitmap pool) = 64" "length (pblocks pool) = pblock_count pool" using assms by (auto simp: pool_ok_def)
  show "i < pblock_count pool \<Longrightarrow> i div 64 < pword_count pool" using wc by linarith
  show "\<not> block_bit (pbitmap pool) i \<Longrightarrow> i < pword_count pool * 64 \<Longrightarrow> i < pblock_count pool"
    using assms unfolding pool_ok_def by (meson not_le)
qed

section \<open>Acquiring alone\<close>

text \<open>A block is claimed, with the hint and the counter, and its history reported.\<close>

definition claimed ::
  "iree_hal_memory_fixed_block_allocator_t \<Rightarrow> iree_hal_memory_fixed_block_allocator_allocation_t \<Rightarrow>
   iree_hal_memory_fixed_block_allocator_t \<Rightarrow> bool" where
  "claimed pool a pool' \<longleftrightarrow>
     (\<exists>i. i < pblock_count pool \<and> \<not> block_bit (pbitmap pool) i \<and>
        a = iree_hal_memory_fixed_block_allocator_read_block pool i \<and>
        pool' = pool\<lparr>pbitmap := set_block_bit (pbitmap pool) i, palloc_hint_word := i div 64,
                     pallocation_count := pallocation_count pool + 1\<rparr>)"

lemma read_block_bitmap [simp]:
  "iree_hal_memory_fixed_block_allocator_read_block (pool\<lparr>pbitmap := words\<rparr>) i =
   iree_hal_memory_fixed_block_allocator_read_block pool i"
  by (simp add: iree_hal_memory_fixed_block_allocator_read_block_def Let_def)

lemma claim_alone:
  assumes "pool_ok pool" and "w < pword_count pool" and "pbitmap pool ! w \<noteq> NOT 0"
  shows "\<exists>a pool'. acquire_loop (Claim w pass (pbitmap pool ! w)) pool = Some (Some a, pool') \<and> claimed pool a pool'"
proof -
  define b where "b = iree_math_count_trailing_zeros_u64 (NOT (pbitmap pool ! w))"
  let ?i = "w * 64 + b"
  have b: "b < 64" "\<not> bit (pbitmap pool ! w) b" unfolding b_def by (rule lowest_clear [OF assms(3)])+
  have i: "?i div 64 = w" "?i mod 64 = b" using b(1) by auto
  have clear: "\<not> block_bit (pbitmap pool) ?i" using b i by (simp add: block_bit_def)
  then have "?i < pblock_count pool" using pool_okD(7) [OF assms(1)] assms(2) b(1) by simp
  moreover have "(pbitmap pool)[w := pbitmap pool ! w OR push_bit b 1] = set_block_bit (pbitmap pool) ?i"
    using i by (simp add: set_block_bit_def bit_mask_def)
  then have "acquire_loop (Claim w pass (pbitmap pool ! w)) pool =
      Some (Some (iree_hal_memory_fixed_block_allocator_read_block pool ?i),
        pool\<lparr>pbitmap := set_block_bit (pbitmap pool) ?i, palloc_hint_word := w,
             pallocation_count := pallocation_count pool + 1\<rparr>)"
    using and_push_bit [OF b(1)] b(2)
    by (simp add: acquire_loop.simps Let_def flip: b_def)
  ultimately show ?thesis using clear i(1) unfolding claimed_def by (metis (no_types))
qed

lemma next_word_mod: "w < pword_count pool \<Longrightarrow> next_word pool w = Suc w mod pword_count pool"
  by (cases "Suc w = pword_count pool") (auto simp: next_word_def)

text \<open>
  The scan from a word, in cyclic order, over the words left: it claims a block, or every word it saw is full.
\<close>

lemma scan_alone:
  assumes "pool_ok pool" and "w < pword_count pool" and "n = pword_count pool - pass"
  shows "\<exists>res pool'. acquire_loop (Scan w pass) pool = Some (res, pool') \<and>
    (case res of
       None \<Rightarrow> pool' = pool \<and> (\<forall>p < n. pbitmap pool ! ((w + p) mod pword_count pool) = NOT 0)
     | Some a \<Rightarrow> claimed pool a pool')"
  using assms(2,3)
proof (induction n arbitrary: w pass)
  case 0
  then have "acquire_loop (Scan w pass) pool = Some (None, pool)"
    by (simp add: acquire_loop.simps [of "Scan w pass"] acquire_loop.simps [of Exhausted])
  then show ?case by simp
next
  case (Suc n)
  then have "pass < pword_count pool" by simp
  then have step: "acquire_loop (Scan w pass) pool = acquire_loop (try_word pool w pass (pbitmap pool ! w)) pool"
    by (simp add: acquire_loop.simps [of "Scan w pass"])
  show ?case
  proof (cases "pbitmap pool ! w = NOT 0")
    case False
    then show ?thesis
      using claim_alone [OF assms(1) Suc(2) False, of pass] step by (fastforce simp: try_word_def)
  next
    case True
    let ?w = "next_word pool w"
    have w: "?w < pword_count pool" "?w = Suc w mod pword_count pool"
      using Suc(2) by (simp_all add: next_word_mod)
    have shift: "(?w + p) mod pword_count pool = (w + Suc p) mod pword_count pool" for p
      by (simp add: w(2) mod_add_left_eq)
    have "\<exists>res pool'. acquire_loop (Scan ?w (pass + 1)) pool = Some (res, pool') \<and>
      (case res of
         None \<Rightarrow> pool' = pool \<and> (\<forall>p < n. pbitmap pool ! ((?w + p) mod pword_count pool) = NOT 0)
       | Some a \<Rightarrow> claimed pool a pool')"
      by (rule Suc.IH) (use w(1) Suc(3) in simp_all)
    then show ?thesis
      using step True Suc(2) by (fastforce simp: try_word_def shift less_Suc_eq_0_disj split: option.splits)
  qed
qed

lemma try_acquire_alone:
  assumes "pool_ok pool"
  shows "\<exists>res pool'. iree_hal_memory_fixed_block_allocator_try_acquire pool = Some (res, pool') \<and>
    (case res of
       None \<Rightarrow> pool' = pool \<and> acquired_blocks pool = {..<pblock_count pool}
     | Some a \<Rightarrow> claimed pool a pool')"
proof -
  define w where "w = (if palloc_hint_word pool \<ge> pword_count pool then 0 else palloc_hint_word pool)"
  have w: "w < pword_count pool" using pool_okD(1) [OF assms] by (simp add: w_def)
  obtain res pool' where r: "acquire_loop (Scan w 0) pool = Some (res, pool')"
    "case res of
       None \<Rightarrow> pool' = pool \<and> (\<forall>p < pword_count pool. pbitmap pool ! ((w + p) mod pword_count pool) = NOT 0)
     | Some a \<Rightarrow> claimed pool a pool'"
    using scan_alone [OF assms w, of "pword_count pool" 0] by auto
  have full: "pbitmap pool ! v = NOT 0"
    if "\<forall>p < pword_count pool. pbitmap pool ! ((w + p) mod pword_count pool) = NOT 0" "v < pword_count pool" for v
  proof -
    have "(w + (v + pword_count pool - w) mod pword_count pool) mod pword_count pool = v"
      using that(2) w by (simp add: mod_add_right_eq)
    then show ?thesis using that(1) w by (metis mod_less_divisor pool_okD(1) [OF assms])
  qed
  have "acquired_blocks pool = {..<pblock_count pool}" if "res = None"
  proof -
    have "block_bit (pbitmap pool) i" if "i < pblock_count pool" for i
      using full [of "i div 64"] \<open>res = None\<close> r(2) pool_okD(6) [OF assms that] full_word [of "pbitmap pool" "i div 64"]
      by (simp add: block_bit_def)
    then show ?thesis by (auto simp: acquired_blocks_def)
  qed
  then show ?thesis
    using r unfolding iree_hal_memory_fixed_block_allocator_try_acquire_def acquire_start_def w_def [symmetric]
    by (auto split: option.splits)
qed

section \<open>History\<close>

text \<open>What became of a block since its range was attached: nothing, or a last release.\<close>

datatype block_history = Initial | Freed "iree_async_frontier_t option"

definition release_record :: "nat \<Rightarrow> iree_async_frontier_t option \<Rightarrow> u32 \<times> clock" where
  "release_record cap death =
     (case death of
        None \<Rightarrow> (0, [])
      | Some f \<Rightarrow> if entry_count f \<le> cap then (0, live f) else (FLAG_TAINT, []))"

definition recorded :: "iree_hal_memory_fixed_block_allocator_t \<Rightarrow> nat \<Rightarrow> block_history \<Rightarrow> bool" where
  "recorded pool i h \<longleftrightarrow>
     (let b = pblocks pool ! i
      in case h of
           Initial \<Rightarrow> bgeneration b \<noteq> pgeneration pool
         | Freed d \<Rightarrow> bgeneration b = pgeneration pool \<and>
             (bflags b, live (bfrontier b)) = release_record (pfrontier_capacity pool) d)"

text \<open>What an acquisition or a candidate reports: flags and clock.\<close>

definition reported :: "iree_hal_memory_fixed_block_allocator_allocation_t \<Rightarrow> u32 \<times> clock" where
  "reported a = (ablock_flags a, case adeath_frontier a of None \<Rightarrow> [] | Some f \<Rightarrow> live f)"

definition history_record :: "iree_hal_memory_fixed_block_allocator_t \<Rightarrow> block_history \<Rightarrow> u32 \<times> clock" where
  "history_record pool h =
     (case h of Initial \<Rightarrow> (0, live (pinitial_frontier pool)) | Freed d \<Rightarrow> release_record (pfrontier_capacity pool) d)"

lemma live_none: "entry_count f = 0 \<Longrightarrow> live f = []"
  by (simp add: live_def)

lemma read_block_reports:
  "recorded pool i h \<Longrightarrow>
   reported (iree_hal_memory_fixed_block_allocator_read_block pool i) = history_record pool h"
  by (cases h)
    (auto simp: recorded_def reported_def history_record_def iree_hal_memory_fixed_block_allocator_read_block_def
      Let_def live_none)

lemma read_block_index [simp]:
  "ablock_index (iree_hal_memory_fixed_block_allocator_read_block pool i) = i"
  "aoffset (iree_hal_memory_fixed_block_allocator_read_block pool i) = word_of_nat i * pblock_size pool"
  by (simp_all add: iree_hal_memory_fixed_block_allocator_read_block_def Let_def)

text \<open>Offsets do not wrap: they are the multiples of the block size.\<close>

lemma block_offset:
  assumes "pool_ok pool" and "i < pblock_count pool"
  shows "unat (word_of_nat i * pblock_size pool) = i * unat (pblock_size pool)"
proof -
  have "i * unat (pblock_size pool) \<le> pblock_count pool * unat (pblock_size pool)"
    using assms(2) by (intro mult_le_mono1) simp
  moreover have "pblock_count pool * unat (pblock_size pool) < 2 ^ 64" using assms(1) by (simp add: pool_ok_def)
  ultimately have "i * unat (pblock_size pool) < 2 ^ 64" by (rule le_less_trans)
  moreover have "i < 2 ^ 64" using assms by (auto simp: pool_ok_def)
  ultimately show ?thesis by (simp add: unat_word_ariths unat_of_nat take_bit_eq_mod)
qed

lemma write_history_block:
  assumes "pool_ok pool" and "i < pblock_count pool" and "\<forall>f. death = Some f \<longrightarrow> frontier_ok f"
  defines "b \<equiv> pblocks (write_history i death pool) ! i"
  shows "(bflags b, live (bfrontier b)) = release_record (pfrontier_capacity pool) death"
    and "history_ok (pfrontier_capacity pool) (bfrontier b)" and "bgeneration b = bgeneration (pblocks pool ! i)"
    and "write_history i death pool = pool\<lparr>pblocks := (pblocks pool)[i := b]\<rparr>"
proof -
  have len: "i < length (pblocks pool)" using assms(2) pool_okD(5) [OF assms(1)] by simp
  have old: "history_ok (pfrontier_capacity pool) (bfrontier (pblocks pool ! i))"
    using assms(1) len by (auto simp: pool_ok_def)
  have b: "b = (case death of
              None \<Rightarrow> (pblocks pool ! i)\<lparr>bflags := 0, bfrontier := (bfrontier (pblocks pool ! i))\<lparr>entry_count := 0\<rparr>\<rparr>
            | Some d \<Rightarrow>
                if entry_count d > 0
                then if entry_count d \<le> pfrontier_capacity pool
                     then (pblocks pool ! i)\<lparr>bflags := 0, bfrontier := frontier_copy (bfrontier (pblocks pool ! i)) d\<rparr>
                     else (pblocks pool ! i)\<lparr>bflags := FLAG_TAINT, bfrontier := (bfrontier (pblocks pool ! i))\<lparr>entry_count := 0\<rparr>\<rparr>
                else (pblocks pool ! i)\<lparr>bflags := 0, bfrontier := (bfrontier (pblocks pool ! i))\<lparr>entry_count := 0\<rparr>\<rparr>)"
    using len by (auto simp: b_def write_history_def Let_def FLAG_NONE_def FLAG_TAINT_def
        iree_async_frontier_initialize_def split: option.splits)
  show "(bflags b, live (bfrontier b)) = release_record (pfrontier_capacity pool) death"
    using assms(3) by (auto simp: b release_record_def frontier_copy frontier_empty live_none split: option.splits)
  show "history_ok (pfrontier_capacity pool) (bfrontier b)"
    using assms(3) old by (auto simp: b history_ok_def frontier_copy frontier_empty split: option.splits)
  show "bgeneration b = bgeneration (pblocks pool ! i)" by (auto simp: b split: option.splits)
  show "write_history i death pool = pool\<lparr>pblocks := (pblocks pool)[i := b]\<rparr>"
    using len by (simp add: b_def write_history_def Let_def)
qed

text \<open>Pool updates that keep the invariant, and what they leave alone.\<close>

lemma pool_ok_write_block:
  assumes "pool_ok pool" and "i < pblock_count pool"
    and "history_ok (pfrontier_capacity pool) (bfrontier b)" and "bgeneration b \<le> pgeneration pool"
  shows "pool_ok (pool\<lparr>pblocks := (pblocks pool)[i := b]\<rparr>)"
  using assms by (auto simp: pool_ok_def dest!: set_update_subset_insert [THEN subsetD])

lemma pool_ok_bitmap:
  assumes "pool_ok pool" and "length words = 64"
    and "\<And>j. pblock_count pool \<le> j \<Longrightarrow> j < pword_count pool * 64 \<Longrightarrow> block_bit words j"
  shows "pool_ok (pool\<lparr>pbitmap := words\<rparr>)"
  using assms by (simp add: pool_ok_def)

lemma pool_ok_set_bit: "pool_ok pool \<Longrightarrow> i < pword_count pool * 64 \<Longrightarrow> pool_ok (pool\<lparr>pbitmap := set_block_bit (pbitmap pool) i\<rparr>)"
  using pool_okD(2,4) [of pool] by (intro pool_ok_bitmap) (auto simp: block_bit_set pool_ok_def)

lemma pool_ok_clear_bit:
  assumes "pool_ok pool" and "i < pblock_count pool"
  shows "pool_ok (clear_bit i pool)"
  unfolding clear_bit_def
  using assms pool_okD(2,4,6) [OF assms(1)] by (intro pool_ok_bitmap) (force simp: block_bit_clear pool_ok_def)+

lemma pool_ok_others:
  "pool_ok (pool\<lparr>palloc_hint_word := h\<rparr>) = pool_ok pool"
  "pool_ok (pool\<lparr>pallocation_count := n\<rparr>) = pool_ok pool"
  "pool_ok (sub_count pool) = pool_ok pool"
  "pool_ok (mark_returned i pool) = pool_ok pool"
  by (simp_all add: pool_ok_def sub_count_def mark_returned_def)

lemma adopt_generation_ok:
  assumes "pool_ok pool" and "i < pblock_count pool"
  shows "pool_ok (adopt_generation i pool)"
  unfolding adopt_generation_def
  by (rule pool_ok_write_block [OF assms]) (use assms pool_okD(5) [OF assms(1)] in \<open>auto simp: pool_ok_def\<close>)

text \<open>The history written by a release: the metadata of its block, with the generation.\<close>

definition write_release ::
  "nat \<Rightarrow> iree_async_frontier_t option \<Rightarrow> iree_hal_memory_fixed_block_allocator_t \<Rightarrow>
   iree_hal_memory_fixed_block_allocator_t" where
  "write_release i death pool = adopt_generation i (write_history i death pool)"

lemma write_release:
  assumes "pool_ok pool" and "i < pblock_count pool" and "\<forall>f. death = Some f \<longrightarrow> frontier_ok f"
  defines "pool' \<equiv> write_release i death pool"
  shows "pool_ok pool'" and "recorded pool' i (Freed death)"
    and "j \<noteq> i \<Longrightarrow> recorded pool' j h = recorded pool j h"
    and "pool' = pool\<lparr>pblocks := pblocks pool'\<rparr>"
proof -
  define b where "b = pblocks (write_history i death pool) ! i"
  note w = write_history_block [OF assms(1-3), folded b_def]
  have len: "i < length (pblocks pool)" using assms(2) pool_okD(5) [OF assms(1)] by simp
  have pool': "pool' = pool\<lparr>pblocks := (pblocks pool)[i := b\<lparr>bgeneration := pgeneration pool\<rparr>]\<rparr>"
    unfolding pool'_def write_release_def w(4) adopt_generation_def using len by simp
  show "pool_ok pool'" unfolding pool' by (rule pool_ok_write_block [OF assms(1,2)]) (use w(2) in simp_all)
  show "recorded pool' i (Freed death)" using w(1) len by (simp add: pool' recorded_def Let_def)
  show "j \<noteq> i \<Longrightarrow> recorded pool' j h = recorded pool j h" by (simp add: pool' recorded_def Let_def split: block_history.splits)
  show "pool' = pool\<lparr>pblocks := pblocks pool'\<rparr>" by (simp add: pool')
qed

section \<open>Releasing alone\<close>

lemma recorded_release_bit [simp]:
  "recorded (iree_hal_memory_fixed_block_allocator_release_bit i pool) j h = recorded pool j h"
  "recorded (mark_returned i pool) j h = recorded pool j h"
  by (cases h; simp add: iree_hal_memory_fixed_block_allocator_release_bit_def sub_count_def clear_bit_def
      mark_returned_def recorded_def Let_def)+

lemma release_bit_alone:
  assumes "pool_ok pool" and "i < pblock_count pool"
  shows "pool_ok (iree_hal_memory_fixed_block_allocator_release_bit i pool)"
    and "acquired_blocks (iree_hal_memory_fixed_block_allocator_release_bit i pool) = acquired_blocks pool - {i}"
proof -
  have "i div 64 < length (pbitmap pool)" using pool_okD(2,4,6) [OF assms(1)] assms(2) by fastforce
  from block_bit_clear [OF this]
  show "acquired_blocks (iree_hal_memory_fixed_block_allocator_release_bit i pool) = acquired_blocks pool - {i}"
    by (auto simp: acquired_blocks_def iree_hal_memory_fixed_block_allocator_release_bit_def sub_count_def clear_bit_def)
  show "pool_ok (iree_hal_memory_fixed_block_allocator_release_bit i pool)"
    using pool_ok_clear_bit [OF assms] by (simp add: iree_hal_memory_fixed_block_allocator_release_bit_def pool_ok_others)
qed

text \<open>The metadata part of a release, with or without the returned bit.\<close>

lemma release_history:
  assumes "i < length (pblocks pool)"
  shows "(let q = write_history i death pool
     in if bgeneration (pblocks q ! i) \<noteq> pgeneration q then mark_returned i (adopt_generation i q) else q) \<in>
    {write_release i death pool, mark_returned i (write_release i death pool)}"
proof -
  let ?q = "write_history i death pool"
  have "i < length (pblocks ?q)" using assms by (simp add: write_history_def Let_def)
  then have "adopt_generation i ?q = ?q" if "bgeneration (pblocks ?q ! i) = pgeneration ?q"
    using that by (simp add: adopt_generation_def list_update_id flip: that)
  then show ?thesis by (simp add: Let_def write_release_def)
qed

lemma release_alone:
  assumes "pool_ok pool" and "i < pblock_count pool" and "\<forall>f. death = Some f \<longrightarrow> frontier_ok f"
  defines "pool' \<equiv> iree_hal_memory_fixed_block_allocator_release i death pool"
  shows "pool_ok pool'" and "acquired_blocks pool' = acquired_blocks pool - {i}"
    and "recorded pool' i (Freed death)" and "j \<noteq> i \<Longrightarrow> recorded pool' j h = recorded pool j h"
    and "pfrontier_capacity pool' = pfrontier_capacity pool" and "pblock_count pool' = pblock_count pool"
proof -
  note w = write_release [OF assms(1-3)]
  let ?q = "write_release i death pool"
  obtain q where q: "pool' = iree_hal_memory_fixed_block_allocator_release_bit i q" "q \<in> {?q, mark_returned i ?q}"
    using release_history [of i pool death] assms(2) pool_okD(5) [OF assms(1)]
    unfolding pool'_def iree_hal_memory_fixed_block_allocator_release_def Let_def by auto
  have same: "pbitmap ?q = pbitmap pool" "pblock_count ?q = pblock_count pool" "pfrontier_capacity ?q = pfrontier_capacity pool"
    by (simp_all add: write_release_def adopt_generation_def write_history_def Let_def)
  then have q_same: "acquired_blocks q = acquired_blocks pool" "pblock_count q = pblock_count pool"
    "pfrontier_capacity q = pfrontier_capacity pool"
    using q(2) by (auto simp: acquired_blocks_def mark_returned_def)
  have q_ok: "pool_ok q" "recorded q j h = recorded ?q j h" for j h
    using q(2) w(1) by (auto simp: pool_ok_others)
  note r = release_bit_alone [OF q_ok(1), of i, folded q(1)]
  show "pool_ok pool'" "acquired_blocks pool' = acquired_blocks pool - {i}"
    using r assms(2) q_same by simp_all
  show "recorded pool' i (Freed death)" "j \<noteq> i \<Longrightarrow> recorded pool' j h = recorded pool j h"
    using w(2,3) q_ok(2) by (simp_all add: q(1))
  show "pfrontier_capacity pool' = pfrontier_capacity pool" "pblock_count pool' = pblock_count pool"
    using q_same by (simp_all add: q(1) iree_hal_memory_fixed_block_allocator_release_bit_def sub_count_def clear_bit_def)
qed

lemma claimedD:
  assumes "pool_ok pool" and "claimed pool a pool'"
  shows "ablock_index a < pblock_count pool" and "ablock_index a \<notin> acquired_blocks pool"
    and "acquired_blocks pool' = insert (ablock_index a) (acquired_blocks pool)" and "pool_ok pool'"
    and "a = iree_hal_memory_fixed_block_allocator_read_block pool (ablock_index a)"
    and "recorded pool' j h = recorded pool j h" and "pblock_count pool' = pblock_count pool"
    and "pfrontier_capacity pool' = pfrontier_capacity pool"
proof -
  obtain i where i: "i < pblock_count pool" "\<not> block_bit (pbitmap pool) i"
    and a: "a = iree_hal_memory_fixed_block_allocator_read_block pool i"
    and p: "pool' = pool\<lparr>pbitmap := set_block_bit (pbitmap pool) i, palloc_hint_word := i div 64,
                     pallocation_count := pallocation_count pool + 1\<rparr>"
    using assms(2) by (auto simp: claimed_def)
  show "ablock_index a < pblock_count pool" "ablock_index a \<notin> acquired_blocks pool"
    "a = iree_hal_memory_fixed_block_allocator_read_block pool (ablock_index a)"
    using i a by (auto simp: acquired_blocks_def)
  have "i div 64 < length (pbitmap pool)" using pool_okD(2,4,6) [OF assms(1)] i(1) by fastforce
  from block_bit_set [OF this] show "acquired_blocks pool' = insert (ablock_index a) (acquired_blocks pool)"
    using i(1) by (auto simp: acquired_blocks_def a p)
  have "i < pword_count pool * 64" using i(1) pool_okD(3) [OF assms(1)] by simp
  from pool_ok_set_bit [OF assms(1) this] show "pool_ok pool'" by (simp add: p pool_ok_def)
  show "recorded pool' j h = recorded pool j h" by (cases h) (simp_all add: p recorded_def Let_def)
  show "pblock_count pool' = pblock_count pool" "pfrontier_capacity pool' = pfrontier_capacity pool" by (simp_all add: p)
qed

section \<open>Candidates\<close>

text \<open>The scan from a word, whose first word is masked, finds the first free block in it.\<close>

lemma query_candidate_from:
  assumes "pool_ok pool"
  defines "eligible \<equiv> \<lambda>w m j. w \<le> j div 64 \<and> j div 64 < pword_count pool \<and> (j div 64 = w \<longrightarrow> bit (m :: u64) (j mod 64))"
  shows "case query_candidate_from pool w m of
      None \<Rightarrow> (\<forall>j. eligible w m j \<longrightarrow> block_bit (pbitmap pool) j)
    | Some a \<Rightarrow> \<exists>i. a = iree_hal_memory_fixed_block_allocator_read_block pool i \<and> eligible w m i \<and>
        \<not> block_bit (pbitmap pool) i \<and> (\<forall>j < i. eligible w m j \<longrightarrow> block_bit (pbitmap pool) j)"
proof (induction "pword_count pool - w" arbitrary: w m)
  case 0
  then show ?case using query_candidate_from.simps [of pool w m] by (auto simp: eligible_def)
next
  case (Suc n)
  define free where "free = NOT (pbitmap pool ! w) AND m"
  have w: "w < pword_count pool" using Suc(2) by simp
  have word: "bit free b \<longleftrightarrow> \<not> block_bit (pbitmap pool) (w * 64 + b) \<and> bit m b" if "b < 64" for b
    using that by (simp add: free_def bit_simps block_bit_def)
  show ?case
  proof (cases "free = 0")
    case True
    then have here: "block_bit (pbitmap pool) j" if "j div 64 = w" "bit m (j mod 64)" for j
      using word [of "j mod 64"] that div_mod_decomp [of j 64] by auto
    have split: "eligible w m j \<longleftrightarrow> (j div 64 = w \<and> bit m (j mod 64)) \<or> eligible (w + 1) (NOT 0) j" for j
      using w by (auto simp: eligible_def bit_simps)
    have "query_candidate_from pool w m = query_candidate_from pool (w + 1) (NOT 0)"
      using query_candidate_from.simps [of pool w m] w True by (simp add: Let_def flip: free_def)
    moreover have "case query_candidate_from pool (w + 1) (NOT 0) of
        None \<Rightarrow> (\<forall>j. eligible (w + 1) (NOT 0) j \<longrightarrow> block_bit (pbitmap pool) j)
      | Some a \<Rightarrow> \<exists>i. a = iree_hal_memory_fixed_block_allocator_read_block pool i \<and> eligible (w + 1) (NOT 0) i \<and>
          \<not> block_bit (pbitmap pool) i \<and> (\<forall>j < i. eligible (w + 1) (NOT 0) j \<longrightarrow> block_bit (pbitmap pool) j)"
      by (rule Suc(1)) (use Suc(2) in simp)
    ultimately show ?thesis
      unfolding split using here by (cases "query_candidate_from pool (w + 1) (NOT 0)") (simp_all, blast+)
  next
    case False
    define b where "b = iree_math_count_trailing_zeros_u64 free"
    have b: "bit free b" "\<And>j. j < b \<Longrightarrow> \<not> bit free j" using ctz_u64_bit [OF False] by (auto simp: b_def)
    have b64: "b < 64" using bit_imp_le_length [OF b(1)] by simp
    have "block_bit (pbitmap pool) j" if "j < w * 64 + b" "eligible w m j" for j
    proof -
      have "j div 64 = w" using that b64 by (auto simp: eligible_def)
      moreover have "j = (j div 64) * 64 + j mod 64" by simp
      ultimately have "j mod 64 < b" using that(1) by simp
      then show ?thesis
        using b(2) [of "j mod 64"] word [of "j mod 64"] that(2) \<open>j div 64 = w\<close> \<open>j = (j div 64) * 64 + j mod 64\<close>
        by (auto simp: eligible_def)
    qed
    moreover have "eligible w m (w * 64 + b)" "\<not> block_bit (pbitmap pool) (w * 64 + b)"
      using word [OF b64] b(1) b64 w by (auto simp: eligible_def)
    moreover have "query_candidate_from pool w m = Some (iree_hal_memory_fixed_block_allocator_read_block pool (w * 64 + b))"
      using query_candidate_from.simps [of pool w m] w False by (simp add: Let_def b_def flip: free_def)
    ultimately show ?thesis by auto
  qed
qed

lemma block_order:
  fixes a b c d :: nat
  assumes "c < 64" and "d < 64"
  shows "a * 64 + c \<le> b * 64 + d \<longleftrightarrow> a < b \<or> a = b \<and> c \<le> d"
  using assms by (cases a b rule: linorder_cases) auto

lemma query_candidate:
  assumes "pool_ok pool"
  shows "case iree_hal_memory_fixed_block_allocator_query_candidate pool start of
      None \<Rightarrow> {start..<pblock_count pool} \<subseteq> acquired_blocks pool
    | Some a \<Rightarrow> \<exists>i. a = iree_hal_memory_fixed_block_allocator_read_block pool i \<and> start \<le> i \<and> i < pblock_count pool \<and>
        i \<notin> acquired_blocks pool \<and> {start..<i} \<subseteq> acquired_blocks pool"
proof -
  have eligible: "start div 64 \<le> j div 64 \<and> j div 64 < pword_count pool \<and>
      (j div 64 = start div 64 \<longrightarrow> bit (push_bit (start mod 64) (NOT 0) :: u64) (j mod 64)) \<longleftrightarrow>
      start \<le> j \<and> j div 64 < pword_count pool" for j
  proof -
    have "start \<le> j \<longleftrightarrow> start div 64 < j div 64 \<or> start div 64 = j div 64 \<and> start mod 64 \<le> j mod 64"
      using block_order [of "start mod 64" "j mod 64" "start div 64" "j div 64"] by simp
    moreover have "bit (push_bit (start mod 64) (NOT 0) :: u64) (j mod 64) \<longleftrightarrow> start mod 64 \<le> j mod 64"
      by (auto simp: bit_simps)
    ultimately show ?thesis by (cases "start div 64" "j div 64" rule: linorder_cases) (simp_all add: conj_commute)
  qed
  have in_range: "j div 64 < pword_count pool" if "j < pblock_count pool" for j using pool_okD(6) [OF assms that] .
  have count: "i < pblock_count pool" if "\<not> block_bit (pbitmap pool) i" "i div 64 < pword_count pool" for i
    using pool_okD(7) [OF assms that(1)] that(2) by (simp add: div_less_iff_less_mult)
  show ?thesis
    using query_candidate_from [OF assms, of "start div 64" "push_bit (start mod 64) (NOT 0)"] in_range count
    unfolding iree_hal_memory_fixed_block_allocator_query_candidate_def eligible
    by (fastforce simp: acquired_blocks_def split: option.splits)
qed

end
