(* ===== verification/Fixed_Block_Threads.thy ===== *)
theory Fixed_Block_Threads
  imports Fixed_Block_Laws
begin

text \<open>
  The fixed-block allocator under concurrent use. Any number of clients acquire, hold, release and restore one
  block each (a thread that holds several blocks is several clients); their atomic steps interleave in any
  order. A ghost component records the last release of every block.
\<close>

section \<open>Interleaved steps\<close>

datatype client = Idle | Acquiring acquire_state | Releasing release_state

record fb_system =
  fpool :: iree_hal_memory_fixed_block_allocator_t
  fclients :: "nat \<Rightarrow> client"
  fhistory :: "nat \<Rightarrow> block_history"

definition move :: "nat \<Rightarrow> client \<Rightarrow> iree_hal_memory_fixed_block_allocator_t \<Rightarrow> fb_system \<Rightarrow> fb_system" where
  "move c x pool s = s\<lparr>fpool := pool, fclients := (fclients s)(c := x)\<rparr>"

inductive fb_step :: "fb_system \<Rightarrow> fb_system \<Rightarrow> bool" where
  start: "fclients s c = Idle \<Longrightarrow> fb_step s (move c (Acquiring (acquire_start (fpool s))) (fpool s) s)"
| acquire: "fclients s c = Acquiring st \<Longrightarrow> acquire_step st (fpool s) = (st', pool) \<Longrightarrow>
    fb_step s (move c (Acquiring st') pool s)"
| give_up: "fclients s c = Acquiring Exhausted \<Longrightarrow> fb_step s (move c Idle (fpool s) s)"
| begin_release: "fclients s c = Acquiring (Acquired a) \<Longrightarrow> \<forall>f. death = Some f \<longrightarrow> frontier_ok f \<Longrightarrow>
    fb_step s (move c (Releasing (Write (ablock_index a) death)) (fpool s) s)"
| begin_restore: "fclients s c = Acquiring (Acquired a) \<Longrightarrow>
    fb_step s (move c (Releasing (Clear (ablock_index a))) (fpool s) s)"
| write_back: "fclients s c = Releasing (Write i death) \<Longrightarrow> release_step (Write i death) (fpool s) = (Some st, pool) \<Longrightarrow>
    fb_step s (move c (Releasing st) pool s\<lparr>fhistory := (fhistory s)(i := Freed death)\<rparr>)"
| release: "fclients s c = Releasing st \<Longrightarrow> \<forall>i death. st \<noteq> Write i death \<Longrightarrow> release_step st (fpool s) = (st', pool) \<Longrightarrow>
    fb_step s (move c (case st' of None \<Rightarrow> Idle | Some st \<Rightarrow> Releasing st) pool s)"

text \<open>The block a client owns, from winning its bit to clearing it, and the clients the counter counts.\<close>

fun owned :: "client \<Rightarrow> nat option" where
  "owned (Acquiring (Store_hint w i)) = Some i"
| "owned (Acquiring (Add_count a)) = Some (ablock_index a)"
| "owned (Acquiring (Acquired a)) = Some (ablock_index a)"
| "owned (Releasing (Write i death)) = Some i"
| "owned (Releasing (Mark i)) = Some i"
| "owned (Releasing (Clear i)) = Some i"
| "owned _ = None"

fun counted :: "client \<Rightarrow> bool" where
  "counted (Acquiring (Acquired a)) = True"
| "counted (Releasing st) = True"
| "counted _ = False"

section \<open>Invariant\<close>

fun client_ok :: "iree_hal_memory_fixed_block_allocator_t \<Rightarrow> (nat \<Rightarrow> block_history) \<Rightarrow> client \<Rightarrow> bool" where
  "client_ok pool hist (Acquiring (Scan w pass)) \<longleftrightarrow> w < pword_count pool"
| "client_ok pool hist (Acquiring (Claim w pass word)) \<longleftrightarrow> w < pword_count pool \<and> word \<noteq> NOT 0"
| "client_ok pool hist (Acquiring (Add_count a)) \<longleftrightarrow>
     reported a = history_record pool (hist (ablock_index a)) \<and>
     aoffset a = word_of_nat (ablock_index a) * pblock_size pool"
| "client_ok pool hist (Acquiring (Acquired a)) \<longleftrightarrow>
     reported a = history_record pool (hist (ablock_index a)) \<and>
     aoffset a = word_of_nat (ablock_index a) * pblock_size pool"
| "client_ok pool hist (Releasing (Write i death)) \<longleftrightarrow> (\<forall>f. death = Some f \<longrightarrow> frontier_ok f)"
| "client_ok pool hist _ \<longleftrightarrow> True"

definition system_ok :: "fb_system \<Rightarrow> bool" where
  "system_ok s \<longleftrightarrow>
     pool_ok (fpool s) \<and>
     (\<forall>c. client_ok (fpool s) (fhistory s) (fclients s c)) \<and>
     (\<forall>c i. owned (fclients s c) = Some i \<longrightarrow> i < pblock_count (fpool s)) \<and>
     (\<forall>i < pblock_count (fpool s). block_bit (pbitmap (fpool s)) i \<longleftrightarrow> (\<exists>c. owned (fclients s c) = Some i)) \<and>
     (\<forall>c d i. owned (fclients s c) = Some i \<longrightarrow> owned (fclients s d) = Some i \<longrightarrow> c = d) \<and>
     (\<forall>i < pblock_count (fpool s). recorded (fpool s) i (fhistory s i)) \<and>
     finite {c. counted (fclients s c)} \<and>
     pallocation_count (fpool s) = word_of_nat (card {c. counted (fclients s c)})"

definition same_range ::
  "iree_hal_memory_fixed_block_allocator_t \<Rightarrow> iree_hal_memory_fixed_block_allocator_t \<Rightarrow> bool" where
  "same_range pool pool' \<longleftrightarrow>
     pblock_size pool' = pblock_size pool \<and> pblock_count pool' = pblock_count pool \<and>
     pword_count pool' = pword_count pool \<and> pfrontier_capacity pool' = pfrontier_capacity pool \<and>
     pinitial_frontier pool' = pinitial_frontier pool"

lemma history_record_range: "same_range pool pool' \<Longrightarrow> history_record pool' h = history_record pool h"
  by (auto simp: same_range_def history_record_def split: block_history.splits)

lemma client_ok_range:
  assumes "client_ok pool hist x" and "same_range pool pool'" and "\<forall>i. owned x = Some i \<longrightarrow> hist' i = hist i"
  shows "client_ok pool' hist' x"
  using assms history_record_range [OF assms(2)]
  by (cases "(pool, hist, x)" rule: client_ok.cases) (auto simp: same_range_def)

lemma counted_update:
  assumes "finite {c. counted (f c)}"
  shows "finite {d. counted ((f(c := x)) d)}"
    and "(word_of_nat (card {d. counted ((f(c := x)) d)}) :: u32) =
      word_of_nat (card {d. counted (f d)}) - of_bool (counted (f c)) + of_bool (counted x)"
proof -
  let ?S = "{d. counted (f d)}"
  have S: "{d. counted ((f(c := x)) d)} = (if counted x then insert c ?S else ?S - {c})" by auto
  then show "finite {d. counted ((f(c := x)) d)}" using assms by simp
  have "card (?S - {c}) = card ?S - 1 \<and> 0 < card ?S" if "c \<in> ?S"
    using that assms by (auto simp: card_gt_0_iff)
  moreover have "insert c ?S = ?S" if "c \<in> ?S" using that by auto
  ultimately show "(word_of_nat (card {d. counted ((f(c := x)) d)}) :: u32) =
      word_of_nat (card ?S) - of_bool (counted (f c)) + of_bool (counted x)"
    unfolding S using assms by (cases "c \<in> ?S"; cases "counted x") (auto simp: of_nat_diff card_insert_if)
qed

text \<open>One client moves: what has to be checked for the invariant.\<close>

lemma system_ok_move:
  assumes ok: "system_ok s"
    and pool: "pool_ok pool" "same_range (fpool s) pool"
    and x: "client_ok pool hist x" "\<And>i. owned x = Some i \<Longrightarrow> i < pblock_count pool"
      "\<And>i d. owned x = Some i \<Longrightarrow> d \<noteq> c \<Longrightarrow> owned (fclients s d) \<noteq> Some i"
    and bits: "\<And>i. i < pblock_count pool \<Longrightarrow>
      block_bit (pbitmap pool) i \<longleftrightarrow> owned x = Some i \<or> (\<exists>d. d \<noteq> c \<and> owned (fclients s d) = Some i)"
    and hist: "\<And>i. i < pblock_count pool \<Longrightarrow> recorded pool i (hist i)"
      "\<And>i. hist i \<noteq> fhistory s i \<Longrightarrow> owned (fclients s c) = Some i"
    and count: "pallocation_count pool =
      pallocation_count (fpool s) - of_bool (counted (fclients s c)) + of_bool (counted x)"
  shows "system_ok (s\<lparr>fpool := pool, fclients := (fclients s)(c := x), fhistory := hist\<rparr>)" (is "system_ok ?s")
proof -
  have s: "\<And>c. client_ok (fpool s) (fhistory s) (fclients s c)"
      "\<And>c i. owned (fclients s c) = Some i \<Longrightarrow> i < pblock_count (fpool s)"
      "\<And>c d i. owned (fclients s c) = Some i \<Longrightarrow> owned (fclients s d) = Some i \<Longrightarrow> c = d"
      "finite {c. counted (fclients s c)}"
      "pallocation_count (fpool s) = word_of_nat (card {c. counted (fclients s c)})"
    using ok by (auto simp: system_ok_def)
  have others: "client_ok pool hist (fclients s d)" if "d \<noteq> c" for d
    by (rule client_ok_range [OF s(1) pool(2)]) (use hist(2) s(3) that in blast)
  have range: "pblock_count pool = pblock_count (fpool s)" using pool(2) by (simp add: same_range_def)
  let ?f = "(fclients s)(c := x)"
  have "\<forall>d. client_ok pool hist (?f d)" using others x(1) by simp
  moreover have "\<forall>d i. owned (?f d) = Some i \<longrightarrow> i < pblock_count pool" using x(2) s(2) range by simp
  moreover have "\<forall>i < pblock_count pool. block_bit (pbitmap pool) i \<longleftrightarrow> (\<exists>d. owned (?f d) = Some i)"
    using bits by (metis fun_upd_apply)
  moreover have "\<forall>d e i. owned (?f d) = Some i \<longrightarrow> owned (?f e) = Some i \<longrightarrow> d = e"
  proof (intro allI impI)
    fix d e i
    assume "owned (?f d) = Some i" "owned (?f e) = Some i"
    then show "d = e" using x(3) [of i] s(3) [of d i e] by (cases "d = c"; cases "e = c") simp_all
  qed
  moreover have "pallocation_count pool = word_of_nat (card {d. counted (?f d)})"
    unfolding count s(5) using counted_update(2) [OF s(4), of c x] by (rule sym)
  moreover have "\<forall>i < pblock_count pool. recorded pool i (hist i)" using hist(1) by blast
  moreover have "fpool ?s = pool" "fclients ?s = ?f" "fhistory ?s = hist" by simp_all
  ultimately show ?thesis
    using pool(1) counted_update(1) [OF s(4), of c x] by (simp only: system_ok_def simp_thms)
qed

lemma system_okD:
  assumes "system_ok s"
  shows "pool_ok (fpool s)" and "client_ok (fpool s) (fhistory s) (fclients s c)"
    and "owned (fclients s c) = Some i \<Longrightarrow> i < pblock_count (fpool s)"
    and "i < pblock_count (fpool s) \<Longrightarrow>
      block_bit (pbitmap (fpool s)) i \<longleftrightarrow> owned (fclients s c) = Some i \<or> (\<exists>d. d \<noteq> c \<and> owned (fclients s d) = Some i)"
    and "owned (fclients s c) = Some i \<Longrightarrow> d \<noteq> c \<Longrightarrow> owned (fclients s d) \<noteq> Some i"
    and "i < pblock_count (fpool s) \<Longrightarrow> recorded (fpool s) i (fhistory s i)"
proof -
  have "\<forall>i < pblock_count (fpool s). block_bit (pbitmap (fpool s)) i \<longleftrightarrow> (\<exists>c. owned (fclients s c) = Some i)"
    using assms unfolding system_ok_def by (elim conjE) assumption
  moreover have "\<forall>c d i. owned (fclients s c) = Some i \<longrightarrow> owned (fclients s d) = Some i \<longrightarrow> c = d"
    using assms unfolding system_ok_def by (elim conjE) assumption
  ultimately show "i < pblock_count (fpool s) \<Longrightarrow>
      block_bit (pbitmap (fpool s)) i \<longleftrightarrow> owned (fclients s c) = Some i \<or> (\<exists>d. d \<noteq> c \<and> owned (fclients s d) = Some i)"
    and "owned (fclients s c) = Some i \<Longrightarrow> d \<noteq> c \<Longrightarrow> owned (fclients s d) \<noteq> Some i"
    by metis+
qed (use assms in \<open>simp_all add: system_ok_def\<close>)

text \<open>A move that leaves the bitmap, the histories and the block of the client alone.\<close>

lemma system_ok_quiet:
  assumes ok: "system_ok s" and pool: "pool_ok pool" "same_range (fpool s) pool"
    and bits: "\<And>i. i < pblock_count (fpool s) \<Longrightarrow> block_bit (pbitmap pool) i = block_bit (pbitmap (fpool s)) i"
    and blocks: "\<And>i h. recorded pool i h = recorded (fpool s) i h"
    and x: "owned x = owned (fclients s c)" "client_ok pool (fhistory s) x"
    and count: "pallocation_count pool =
      pallocation_count (fpool s) - of_bool (counted (fclients s c)) + of_bool (counted x)"
  shows "system_ok (move c x pool s)"
proof -
  have range: "pblock_count pool = pblock_count (fpool s)" using pool(2) by (simp add: same_range_def)
  have "system_ok (s\<lparr>fpool := pool, fclients := (fclients s)(c := x), fhistory := fhistory s\<rparr>)"
    by (rule system_ok_move [OF ok pool x(2)])
      (use system_okD [OF ok] x(1) range bits blocks count in auto)
  then show ?thesis by (simp add: move_def)
qed

lemma same_range_refl [simp]: "same_range pool pool"
  by (simp add: same_range_def)

lemma recorded_others [simp]:
  "recorded (pool\<lparr>pbitmap := words\<rparr>) i h = recorded pool i h"
  "recorded (pool\<lparr>palloc_hint_word := w\<rparr>) i h = recorded pool i h"
  "recorded (pool\<lparr>pallocation_count := n\<rparr>) i h = recorded pool i h"
  "recorded (clear_bit j pool) i h = recorded pool i h"
  "recorded (sub_count pool) i h = recorded pool i h"
  by (cases h; simp add: recorded_def clear_bit_def sub_count_def Let_def)+

lemma try_word_ok:
  assumes "pool_ok pool" and "w < pword_count pool"
  shows "client_ok pool hist (Acquiring (try_word pool w pass word))" and "owned (Acquiring (try_word pool w pass word)) = None"
    and "\<not> counted (Acquiring (try_word pool w pass word))"
  using assms pool_okD(1) [OF assms(1)] by (auto simp: try_word_def next_word_def)

text \<open>The claim, in which a bit is set that may have been taken meanwhile.\<close>

lemma claim_ok:
  assumes ok: "system_ok s" and c: "fclients s c = Acquiring (Claim w pass word)"
    and step: "acquire_step (Claim w pass word) (fpool s) = (st, pool)"
  shows "system_ok (move c (Acquiring st) pool s)"
proof -
  define b where "b = iree_math_count_trailing_zeros_u64 (NOT word)"
  let ?p = "fpool s"
  let ?i = "w * 64 + b"
  have w: "w < pword_count ?p" "word \<noteq> NOT 0" using system_okD(2) [OF ok, of c] c by auto
  have b: "b < 64" unfolding b_def by (rule lowest_clear [OF w(2)])
  have i: "?i div 64 = w" "?i mod 64 = b" "?i < pword_count ?p * 64" using b w(1) by auto
  note p = system_okD(1) [OF ok]
  have bit: "pbitmap ?p ! w AND push_bit b 1 = 0 \<longleftrightarrow> \<not> block_bit (pbitmap ?p) ?i"
    using and_push_bit [OF b] i by (simp add: block_bit_def)
  have set: "(pbitmap ?p)[w := pbitmap ?p ! w OR push_bit b 1] = set_block_bit (pbitmap ?p) ?i"
    using i by (simp add: set_block_bit_def bit_mask_def)
  have pool: "pool = ?p\<lparr>pbitmap := set_block_bit (pbitmap ?p) ?i\<rparr>"
    and st: "st = (if block_bit (pbitmap ?p) ?i then try_word pool w pass (pbitmap ?p ! w OR push_bit b 1) else Store_hint w ?i)"
    using step unfolding acquire_step.simps Let_def b_def [symmetric] set bit by (auto split: if_splits)
  have pool_ok: "pool_ok pool" unfolding pool by (rule pool_ok_set_bit [OF p i(3)])
  have bits: "block_bit (pbitmap pool) j \<longleftrightarrow> block_bit (pbitmap ?p) j \<or> j = ?i" for j
    using block_bit_set [of ?i "pbitmap ?p" j] i(1) w(1) pool_okD(2,4) [OF p] by (simp add: pool)
  have range: "same_range ?p pool" by (simp add: same_range_def pool)
  show ?thesis
  proof (cases "block_bit (pbitmap ?p) ?i")
    case True
    have "w < pword_count pool" using w(1) by (simp add: pool)
    note t = try_word_ok [OF pool_ok this]
    show ?thesis
      by (rule system_ok_quiet [OF ok pool_ok range])
        (use t True st bits w(1) c range in \<open>auto simp: pool same_range_def\<close>)
  next
    case False
    then have new: "?i < pblock_count ?p" using pool_okD(7) [OF p _ i(3)] by simp
    have free: "owned (fclients s d) \<noteq> Some ?i" for d using system_okD(4) [OF ok new] False by blast
    have "system_ok (s\<lparr>fpool := pool, fclients := (fclients s)(c := Acquiring st), fhistory := fhistory s\<rparr>)"
      by (rule system_ok_move [OF ok pool_ok range])
        (use False st new free bits system_okD(4) [OF ok, where c = c] system_okD(6) [OF ok] c in \<open>auto simp: pool\<close>)
    then show ?thesis by (simp add: move_def)
  qed
qed

lemma acquire_ok:
  assumes ok: "system_ok s" and c: "fclients s c = Acquiring st" and step: "acquire_step st (fpool s) = (st', pool)"
  shows "system_ok (move c (Acquiring st') pool s)"
proof -
  note p = system_okD(1) [OF ok] and x = system_okD(2) [OF ok, of c, unfolded c]
  have own: "\<And>i. owned (Acquiring st) = Some i \<Longrightarrow> i < pblock_count (fpool s)" using system_okD(3) [OF ok, of c] c by simp
  show ?thesis
  proof (cases st)
    case (Scan w pass)
    then show ?thesis
      using step x try_word_ok [OF p, of w] c
      by (intro system_ok_quiet [OF ok]) (auto simp: p split: if_splits)
  next
    case (Claim w pass word)
    then show ?thesis using claim_ok [OF ok] c step by simp
  next
    case (Store_hint w i)
    then show ?thesis
      using step c p read_block_reports [OF system_okD(6) [OF ok own [of i]]]
      by (intro system_ok_quiet [OF ok])
        (auto simp: pool_ok_others same_range_def history_record_def split: block_history.splits)
  next
    case (Add_count a)
    then show ?thesis
      using step c p x
      by (intro system_ok_quiet [OF ok])
        (auto simp: pool_ok_others same_range_def history_record_def split: block_history.splits)
  next
    case (Acquired a)
    then show ?thesis using step c p x by (intro system_ok_quiet [OF ok]) auto
  next
    case Exhausted
    then show ?thesis using step c p x by (intro system_ok_quiet [OF ok]) auto
  qed
qed

lemma write_back_ok:
  assumes ok: "system_ok s" and c: "fclients s c = Releasing (Write i death)"
    and step: "release_step (Write i death) (fpool s) = (Some st, pool)"
  shows "system_ok (move c (Releasing st) pool s\<lparr>fhistory := (fhistory s)(i := Freed death)\<rparr>)"
proof -
  note p = system_okD(1) [OF ok]
  have i: "i < pblock_count (fpool s)" using system_okD(3) [OF ok, of c] c by simp
  have d: "\<forall>f. death = Some f \<longrightarrow> frontier_ok f" using system_okD(2) [OF ok, of c] c by simp
  note w = write_release [OF p i d]
  define q where "q = write_history i death (fpool s)"
  have len: "i < length (pblocks q)"
    using i pool_okD(5) [OF p] by (simp add: q_def write_history_def Let_def)
  have pool: "pool = write_release i death (fpool s)" and st: "st = Mark i \<or> st = Clear i"
  proof -
    have "adopt_generation i q = q" if "bgeneration (pblocks q ! i) = pgeneration q"
      using that len by (simp add: adopt_generation_def list_update_id flip: that)
    then show "pool = write_release i death (fpool s)" "st = Mark i \<or> st = Clear i"
      using step unfolding write_release_def by (auto simp: Let_def simp flip: q_def split: if_splits)
  qed
  have same: "same_range (fpool s) pool" "pbitmap pool = pbitmap (fpool s)" "pallocation_count pool = pallocation_count (fpool s)"
    by (simp_all add: pool write_release_def adopt_generation_def write_history_def Let_def same_range_def)
  have "system_ok (s\<lparr>fpool := pool, fclients := (fclients s)(c := Releasing st), fhistory := (fhistory s)(i := Freed death)\<rparr>)"
    by (rule system_ok_move [OF ok w(1) [folded pool] same(1)])
      (use st i c w(2,3) same system_okD(4,5) [OF ok, where c = c] system_okD(6) [OF ok] in
        \<open>auto simp: pool same_range_def split: if_splits\<close>)
  then show ?thesis by (simp add: move_def)
qed

lemma release_ok:
  assumes ok: "system_ok s" and c: "fclients s c = Releasing st" and st: "\<forall>i death. st \<noteq> Write i death"
    and step: "release_step st (fpool s) = (st', pool)"
  shows "system_ok (move c (case st' of None \<Rightarrow> Idle | Some st \<Rightarrow> Releasing st) pool s)"
proof -
  note p = system_okD(1) [OF ok]
  show ?thesis
  proof (cases st)
    case (Write i death)
    then show ?thesis using st by simp
  next
    case (Mark i)
    then show ?thesis
      using step c p by (intro system_ok_quiet [OF ok]) (auto simp: pool_ok_others, auto simp: mark_returned_def same_range_def)
  next
    case (Clear i)
    have i: "i < pblock_count (fpool s)" using system_okD(3) [OF ok, of c] c Clear by simp
    have pool: "pool = clear_bit i (fpool s)" "st' = Some Subtract" using step Clear by auto
    have ok': "pool_ok pool" unfolding pool by (rule pool_ok_clear_bit [OF p i])
    have bits: "block_bit (pbitmap pool) j \<longleftrightarrow> block_bit (pbitmap (fpool s)) j \<and> j \<noteq> i" for j
      using block_bit_clear [of i "pbitmap (fpool s)" j] pool_okD(2,4,6) [OF p] i
      by (fastforce simp: pool clear_bit_def)
    have range: "same_range (fpool s) pool" by (simp add: pool clear_bit_def same_range_def)
    have "system_ok (s\<lparr>fpool := pool, fclients := (fclients s)(c := Releasing Subtract), fhistory := fhistory s\<rparr>)"
      by (rule system_ok_move [OF ok ok' range])
        (use c Clear bits system_okD(4,5) [OF ok, where c = c] system_okD(6) [OF ok] range in
          \<open>auto simp: same_range_def pool(1), auto simp: clear_bit_def\<close>)
    then show ?thesis by (simp add: move_def pool(2))
  next
    case Subtract
    then show ?thesis
      using step c p by (intro system_ok_quiet [OF ok]) (auto simp: pool_ok_others, auto simp: sub_count_def same_range_def)
  qed
qed

lemma fb_step_ok:
  assumes "fb_step s s'" and "system_ok s"
  shows "system_ok s'"
  using assms(1)
proof cases
  case (start c)
  then show ?thesis
    using pool_okD(1) [OF system_okD(1) [OF assms(2)]]
    by (auto intro!: system_ok_quiet [OF assms(2)] simp: acquire_start_def system_okD(1) [OF assms(2)])
next
  case (acquire c st st' pool)
  then show ?thesis using acquire_ok [OF assms(2)] by simp
next
  case (give_up c)
  then show ?thesis by (auto intro!: system_ok_quiet [OF assms(2)] simp: system_okD(1) [OF assms(2)])
next
  case (begin_release c a death)
  then show ?thesis by (auto intro!: system_ok_quiet [OF assms(2)] simp: system_okD(1) [OF assms(2)])
next
  case (begin_restore c a)
  then show ?thesis by (auto intro!: system_ok_quiet [OF assms(2)] simp: system_okD(1) [OF assms(2)])
next
  case (write_back c i death st pool)
  then show ?thesis using write_back_ok [OF assms(2)] by simp
next
  case (release c st st' pool)
  then show ?thesis using release_ok [OF assms(2)] by simp
qed

lemma fb_steps_ok: "fb_step\<^sup>*\<^sup>* s s' \<Longrightarrow> system_ok s \<Longrightarrow> system_ok s'"
  by (induction rule: rtranclp_induct) (auto intro: fb_step_ok)

end
