(* ===== verification/Fixed_Block_Merge.thy ===== *)
theory Fixed_Block_Merge
  imports Fixed_Block_Laws
begin

text \<open>
  The merged history of a fixed-block allocator whose blocks are all free: the loops over the words and bits of
  the returned bitmap join the frontiers of all returned blocks and, once, the initial frontier of the others.
\<close>

section \<open>The lowest bit\<close>

lemma clear_lowest_bit:
  assumes "w \<noteq> (0 :: u64)"
  shows "bit (w AND (w - 1)) b \<longleftrightarrow> bit w b \<and> b \<noteq> iree_math_count_trailing_zeros_u64 w"
proof -
  define k where "k = iree_math_count_trailing_zeros_u64 w"
  define h where "h = w AND NOT (push_bit k 1)"
  have k: "bit w k" "\<And>j. j < k \<Longrightarrow> \<not> bit w j" unfolding k_def using ctz_u64_bit [OF assms] by auto
  have k64: "k < 64" using k(1) by (auto dest: bit_imp_le_length)
  have bits: "bit h j \<longleftrightarrow> bit w j \<and> j \<noteq> k" for j
    by (auto simp: h_def bit_simps dest: bit_imp_le_length)
  have "w = h OR push_bit k 1" by (rule bit_word_eqI) (use bits k(1) in \<open>auto simp: bit_simps\<close>)
  also have "\<dots> = h + push_bit k 1" by (rule disjunctive_add [symmetric]) (use bits in \<open>auto simp: bit_simps\<close>)
  finally have "w - 1 = h + mask k" by (simp add: mask_eq_exp_minus_1)
  also have "\<dots> = h OR mask k" by (rule disjunctive_add) (use bits k(2) in \<open>auto simp: bit_simps\<close>)
  finally show ?thesis using bits k(2) k64 by (auto simp: bit_simps simp flip: k_def dest: bit_imp_le_length)
qed

section \<open>Merging frontiers\<close>

definition out_ok :: "nat \<Rightarrow> iree_async_frontier_t \<Rightarrow> bool" where
  "out_ok cap f \<longleftrightarrow> frontier_ok f \<and> entry_count f \<le> cap \<and> cap \<le> length (entries f) \<and> cap \<le> 255"

text \<open>A handler for frontiers that do not fit yields one that covers both.\<close>

definition handler_ok ::
  "nat \<Rightarrow> (iree_async_frontier_t \<Rightarrow> iree_async_frontier_t \<Rightarrow> iree_async_frontier_t) option \<Rightarrow> bool" where
  "handler_ok cap overflow \<longleftrightarrow>
     (\<forall>h t f. overflow = Some h \<longrightarrow> out_ok cap t \<longrightarrow> frontier_ok f \<longrightarrow>
        out_ok cap (h t f) \<and> clock_le (live t) (live (h t f)) \<and> clock_le (live f) (live (h t f)))"

text \<open>What a successful merge of one frontier into the output gives.\<close>

definition absorbed :: "bool \<Rightarrow> nat \<Rightarrow> clock set \<Rightarrow> iree_async_frontier_t \<Rightarrow> iree_async_frontier_t \<Rightarrow> bool" where
  "absorbed exact cap fs out out' \<longleftrightarrow>
     out_ok cap out' \<and> clock_le (live out) (live out') \<and> (\<forall>f \<in> fs. clock_le f (live out')) \<and>
     (exact \<longrightarrow> (\<forall>c. clock_le (live out) c \<longrightarrow> (\<forall>f \<in> fs. clock_le f c) \<longrightarrow> clock_le (live out') c))"

lemma absorbed_trans:
  "absorbed exact cap fs out out1 \<Longrightarrow> absorbed exact cap gs out1 out2 \<Longrightarrow> absorbed exact cap (fs \<union> gs) out out2"
  unfolding absorbed_def by (meson UnE UnI1 UnI2 clock_le_trans)

lemma absorbed_none: "out_ok cap out \<Longrightarrow> absorbed exact cap {} out out"
  by (simp add: absorbed_def)

lemma absorb_merge:
  assumes "out_ok cap out" and "frontier_ok f" and "iree_async_frontier_merge out cap f = (ok, out')"
  shows "if ok then absorbed exact cap {live f} out out' else out' = out"
proof (cases ok)
  case True
  then have m: "iree_async_frontier_merge out cap f = (True, out')" using assms(3) by simp
  have o: "frontier_ok out" "entry_count out \<le> cap" "cap \<le> length (entries out)" "cap \<le> 255"
    using assms(1) by (auto simp: out_ok_def)
  note j = merge_True_join [OF o(1) assms(2) o(2-4) m]
  have c: "clock_ok (live out)" "clock_ok (live f)" using frontier_okD(3) o(1) assms(2) by auto
  show ?thesis
    using True j o clock_le_join [OF c] clocks.join_least [OF c]
    by (auto simp: absorbed_def out_ok_def clock_le_def)
next
  case False
  then show ?thesis
    using assms merge_fails [of out f cap] merge_succeeds [of out f cap]
    by (cases "length (clock_join (live out) (live f)) \<le> cap") (auto simp: out_ok_def)
qed

lemma absorb_merge_handled:
  assumes "out_ok cap out" and "frontier_ok f" and "handler_ok cap (Some h)"
    and "iree_async_frontier_merge out cap f = (False, out')"
  shows "absorbed False cap {live f} out (h out' f)"
  using absorb_merge [OF assms(1,2,4), of False] assms by (auto simp: absorbed_def handler_ok_def)

section \<open>The loops\<close>

abbreviation returned_clock :: "iree_hal_memory_fixed_block_allocator_t \<Rightarrow> nat \<Rightarrow> clock" where
  "returned_clock pool i \<equiv> live (bfrontier (pblocks pool ! i))"

lemma merge_returned_absorbs:
  assumes "out_ok cap out" and "handler_ok cap overflow"
    and "\<And>b. bit returned b \<Longrightarrow> frontier_ok (bfrontier (pblocks pool ! (i * 64 + b)))"
    and "merge_returned pool cap overflow i returned out = (True, out')"
  shows "absorbed (overflow = None) cap ((\<lambda>b. returned_clock pool (i * 64 + b)) ` {b. bit returned b}) out out' \<and>
    (\<forall>b. bit returned b \<longrightarrow> bflags (pblocks pool ! (i * 64 + b)) = 0)"
  using assms(1,3,4)
proof (induction "unat returned" arbitrary: returned out rule: less_induct)
  case less
  note unfold = merge_returned.simps [of pool cap overflow i returned out]
  show ?case
  proof (cases "returned = 0")
    case True
    then show ?thesis using less(2,4) unfold by (simp add: absorbed_none flip: bot_set_def)
  next
    case False
    define k where "k = iree_math_count_trailing_zeros_u64 returned"
    define f where "f = bfrontier (pblocks pool ! (i * 64 + k))"
    define rest where "rest = returned AND (returned - 1)"
    have k: "bit returned k" using ctz_u64_bit(1) [OF False] by (simp add: k_def)
    have bits: "bit rest b \<longleftrightarrow> bit returned b \<and> b \<noteq> k" for b
      using clear_lowest_bit [OF False] by (simp add: rest_def k_def)
    have f: "frontier_ok f" using less(3) [OF k] by (simp add: f_def)
    obtain ok out1 where m: "iree_async_frontier_merge out cap f = (ok, out1)" by fastforce
    note run = unfold [unfolded Let_def, folded k_def, folded f_def rest_def, unfolded m less(4)]
    have flags: "bflags (pblocks pool ! (i * 64 + k)) = 0" using run False by (simp split: if_splits)
    have "\<exists>out2. absorbed (overflow = None) cap {live f} out out2 \<and>
        merge_returned pool cap overflow i rest out2 = (True, out')"
    proof (cases ok)
      case True
      then show ?thesis using run False flags absorb_merge [OF less(2) f m, of "overflow = None"] by auto
    next
      case nok: False
      then obtain h where h: "overflow = Some h" using run False flags by (auto split: option.splits)
      then show ?thesis
        using run False flags nok absorb_merge_handled [OF less(2) f, of h out1] m assms(2) by auto
    qed
    then obtain out2 where o2: "absorbed (overflow = None) cap {live f} out out2"
      "merge_returned pool cap overflow i rest out2 = (True, out')" by blast
    have "absorbed (overflow = None) cap ((\<lambda>b. returned_clock pool (i * 64 + b)) ` {b. bit rest b}) out2 out' \<and>
        (\<forall>b. bit rest b \<longrightarrow> bflags (pblocks pool ! (i * 64 + b)) = 0)"
      by (rule less(1))
        (use clear_lowest_less [OF False] o2 less(3) bits in \<open>auto simp: rest_def word_less_nat_alt absorbed_def\<close>)
    moreover have "{live f} \<union> (\<lambda>b. returned_clock pool (i * 64 + b)) ` {b. bit rest b} =
        (\<lambda>b. returned_clock pool (i * 64 + b)) ` {b. bit returned b}"
      using k bits by (auto simp: f_def)
    ultimately show ?thesis using absorbed_trans [OF o2(1)] bits flags by metis
  qed
qed

text \<open>The valid bits of a word: those of existing blocks.\<close>

definition valid_word :: "iree_hal_memory_fixed_block_allocator_t \<Rightarrow> nat \<Rightarrow> u64" where
  "valid_word pool i =
     (if i + 1 = pword_count pool
      then drop_bit (unat ((- word_of_nat (pblock_count pool) :: u32) AND 63)) (NOT 0) else NOT 0)"

lemma negated_count:
  assumes "0 < n" and "n \<le> 4096"
  shows "unat ((- word_of_nat n :: u32) AND 63) = (4294967296 - n) mod 64"
proof -
  have "w AND 63 = take_bit 6 w" for w :: u32 by (simp add: take_bit_eq_mask mask_eq_exp_minus_1)
  then have "unat ((- word_of_nat n :: u32) AND 63) = unat (- word_of_nat n :: u32) mod 64"
    by (simp only: unsigned_take_bit_eq) (simp add: take_bit_eq_mod)
  moreover have "(- word_of_nat n :: u32) = word_of_nat (4294967296 - n)" using assms by (simp add: of_nat_diff)
  then have "unat (- word_of_nat n :: u32) = 4294967296 - n"
    using assms by (simp only: unat_of_nat) (simp add: take_bit_eq_mod)
  ultimately show ?thesis by simp
qed

lemma valid_word_bit:
  assumes "pool_ok pool" and "i < pword_count pool" and "b < 64"
  shows "bit (valid_word pool i) b \<longleftrightarrow> i * 64 + b < pblock_count pool"
proof -
  let ?n = "pblock_count pool"
  have n: "0 < ?n" "?n \<le> 4096" "pword_count pool = (?n + 63) div 64" using assms(1) by (auto simp: pool_ok_def)
  have lower: "(pword_count pool - 1) * 64 < ?n" using n(1) unfolding n(3) by linarith
  show ?thesis
  proof (cases "i + 1 = pword_count pool")
    case True
    define r where "r = (i + 1) * 64 - ?n"
    have last: "i * 64 < ?n" "?n \<le> (i + 1) * 64" "i < 64"
      using lower pool_okD(2,3) [OF assms(1)] unfolding True [symmetric] by simp_all
    then have "4294967296 - ?n = 64 * (67108864 - (i + 1)) + r" "r < 64" by (auto simp: r_def)
    then have "(4294967296 - ?n) mod 64 = r" by simp
    then have "unat ((- word_of_nat ?n :: u32) AND 63) = r" using negated_count [OF n(1,2)] by simp
    then have "bit (valid_word pool i) b \<longleftrightarrow> r + b < 64"
      using True by (auto simp: valid_word_def bit_simps)
    then show ?thesis using last by (auto simp: r_def)
  next
    case False
    then have "(i + 1) * 64 \<le> (pword_count pool - 1) * 64" using assms(2) by (intro mult_le_mono1) simp
    then have "i * 64 + b < ?n" using assms(3) lower by simp
    then show ?thesis using False assms(3) by (simp add: valid_word_def bit_simps)
  qed
qed

text \<open>The clocks of the returned blocks from a word on.\<close>

definition returned_from :: "iree_hal_memory_fixed_block_allocator_t \<Rightarrow> nat \<Rightarrow> nat set" where
  "returned_from pool i =
     {j. i \<le> j div 64 \<and> j div 64 < pword_count pool \<and> block_bit (preturned_bitmap pool) j}"

lemma returned_from_end: "pword_count pool \<le> i \<Longrightarrow> returned_from pool i = {}"
  by (auto simp: returned_from_def)

lemma returned_from_step:
  assumes "i < pword_count pool"
  shows "returned_from pool i = (\<lambda>b. i * 64 + b) ` {b. bit (preturned_bitmap pool ! i) b} \<union> returned_from pool (i + 1)"
proof (rule set_eqI)
  fix j
  have "j \<in> (\<lambda>b. i * 64 + b) ` {b. bit (preturned_bitmap pool ! i) b} \<longleftrightarrow> j div 64 = i \<and> block_bit (preturned_bitmap pool) j"
  proof
    assume "j \<in> (\<lambda>b. i * 64 + b) ` {b. bit (preturned_bitmap pool ! i) b}"
    then obtain b where b: "j = i * 64 + b" "bit (preturned_bitmap pool ! i) b" by auto
    then have "b < 64" using bit_imp_le_length [OF b(2)] by simp
    then show "j div 64 = i \<and> block_bit (preturned_bitmap pool) j" using b by (simp add: block_bit_def)
  next
    assume "j div 64 = i \<and> block_bit (preturned_bitmap pool) j"
    then have "bit (preturned_bitmap pool ! i) (j mod 64)" "j = i * 64 + j mod 64"
      using div_mod_decomp [of j 64] by (auto simp: block_bit_def)
    then show "j \<in> (\<lambda>b. i * 64 + b) ` {b. bit (preturned_bitmap pool ! i) b}" by blast
  qed
  then show "j \<in> returned_from pool i \<longleftrightarrow>
      j \<in> (\<lambda>b. i * 64 + b) ` {b. bit (preturned_bitmap pool ! i) b} \<union> returned_from pool (i + 1)"
    using assms by (auto simp: returned_from_def)
qed

lemma merge_words_absorbs:
  assumes "handler_ok cap overflow" and "out_ok cap out"
    and "\<And>j. j \<in> returned_from pool i \<Longrightarrow> frontier_ok (bfrontier (pblocks pool ! j))"
    and "merge_words pool cap overflow i untouched out = (True, untouched', out')"
  shows "absorbed (overflow = None) cap (returned_clock pool ` returned_from pool i) out out' \<and>
    (\<forall>j \<in> returned_from pool i. bflags (pblocks pool ! j) = 0) \<and>
    (untouched' \<longleftrightarrow> untouched \<or> (\<exists>w. i \<le> w \<and> w < pword_count pool \<and> preturned_bitmap pool ! w \<noteq> valid_word pool w))"
  using assms(2-4)
proof (induction "pword_count pool - i" arbitrary: i untouched out)
  case 0
  then show ?case
    using merge_words.simps [of pool cap overflow i untouched out] by (auto simp: absorbed_none returned_from_end)
next
  case (Suc n)
  have i: "i < pword_count pool" using Suc(2) by simp
  define touched where "touched = (untouched \<or> preturned_bitmap pool ! i \<noteq> valid_word pool i)"
  obtain ok out1 where r: "merge_returned pool cap overflow i (preturned_bitmap pool ! i) out = (ok, out1)" by fastforce
  have ok: ok and rest: "merge_words pool cap overflow (i + 1) touched out1 = (True, untouched', out')"
    using Suc(5) merge_words.simps [of pool cap overflow i untouched out] i r
    by (auto simp: Let_def touched_def valid_word_def split: bool.splits)
  note step = returned_from_step [OF i]
  have a1: "absorbed (overflow = None) cap ((\<lambda>b. returned_clock pool (i * 64 + b)) ` {b. bit (preturned_bitmap pool ! i) b}) out out1 \<and>
      (\<forall>b. bit (preturned_bitmap pool ! i) b \<longrightarrow> bflags (pblocks pool ! (i * 64 + b)) = 0)"
    by (rule merge_returned_absorbs [OF Suc(3) assms(1)]) (use Suc(4) step r ok in auto)
  have a2: "absorbed (overflow = None) cap (returned_clock pool ` returned_from pool (i + 1)) out1 out' \<and>
      (\<forall>j \<in> returned_from pool (i + 1). bflags (pblocks pool ! j) = 0) \<and>
      (untouched' \<longleftrightarrow> touched \<or> (\<exists>w. i + 1 \<le> w \<and> w < pword_count pool \<and> preturned_bitmap pool ! w \<noteq> valid_word pool w))"
    by (rule Suc(1)) (use Suc(2,4) a1 rest step in \<open>auto simp: absorbed_def\<close>)
  have all: "returned_clock pool ` returned_from pool i =
      (\<lambda>b. returned_clock pool (i * 64 + b)) ` {b. bit (preturned_bitmap pool ! i) b} \<union>
      returned_clock pool ` returned_from pool (i + 1)"
    unfolding step by (simp add: image_Un image_image)
  have unt: "touched \<or> (\<exists>w. i + 1 \<le> w \<and> w < pword_count pool \<and> preturned_bitmap pool ! w \<noteq> valid_word pool w) \<longleftrightarrow>
      untouched \<or> (\<exists>w. i \<le> w \<and> w < pword_count pool \<and> preturned_bitmap pool ! w \<noteq> valid_word pool w)"
  proof -
    have "i \<le> w \<longleftrightarrow> w = i \<or> i + 1 \<le> w" for w by auto
    then show ?thesis using i unfolding touched_def by auto
  qed
  have flags: "\<forall>j \<in> returned_from pool i. bflags (pblocks pool ! j) = 0" using a1 a2 step by auto
  have "untouched' \<longleftrightarrow> untouched \<or> (\<exists>w. i \<le> w \<and> w < pword_count pool \<and> preturned_bitmap pool ! w \<noteq> valid_word pool w)"
    using a2 unt by blast
  then show ?case unfolding all using absorbed_trans [OF conjunct1 [OF a1] conjunct1 [OF a2]] flags by blast
qed

section \<open>The returned bitmap\<close>

text \<open>A block is marked exactly when it was released in this generation.\<close>

definition returned_ok :: "iree_hal_memory_fixed_block_allocator_t \<Rightarrow> bool" where
  "returned_ok pool \<longleftrightarrow>
     (\<forall>i < pword_count pool * 64. block_bit (preturned_bitmap pool) i \<longleftrightarrow>
        i < pblock_count pool \<and> bgeneration (pblocks pool ! i) = pgeneration pool)"

lemma untouched_iff:
  assumes "pool_ok pool" and "returned_ok pool"
    and "unt \<longleftrightarrow> (\<exists>w. w < pword_count pool \<and> preturned_bitmap pool ! w \<noteq> valid_word pool w)"
  shows "unt \<longleftrightarrow> (\<exists>j < pblock_count pool. j \<notin> returned_from pool 0)"
proof -
  have word: "preturned_bitmap pool ! w = valid_word pool w \<longleftrightarrow>
      (\<forall>b < 64. block_bit (preturned_bitmap pool) (w * 64 + b) \<longleftrightarrow> w * 64 + b < pblock_count pool)"
    if "w < pword_count pool" for w
  proof -
    have "preturned_bitmap pool ! w = valid_word pool w \<longleftrightarrow>
        (\<forall>b < 64. bit (preturned_bitmap pool ! w) b = bit (valid_word pool w) b)"
      by (auto intro: bit_word_eqI)
    then show ?thesis using valid_word_bit [OF assms(1) that] by (simp add: block_bit_def)
  qed
  have block: "j \<in> returned_from pool 0 \<longleftrightarrow> block_bit (preturned_bitmap pool) j" if "j < pblock_count pool" for j
    using pool_okD(6) [OF assms(1) that] by (simp add: returned_from_def)
  have past: "j < pblock_count pool" if "block_bit (preturned_bitmap pool) j" "j < pword_count pool * 64" for j
    using that assms(2) by (simp add: returned_ok_def)
  show ?thesis
  proof
    assume unt
    then obtain w b where "w < pword_count pool" "b < 64"
      "block_bit (preturned_bitmap pool) (w * 64 + b) \<noteq> (w * 64 + b < pblock_count pool)"
      using assms(3) word by blast
    then show "\<exists>j < pblock_count pool. j \<notin> returned_from pool 0" using block past [of "w * 64 + b"] by force
  next
    assume "\<exists>j < pblock_count pool. j \<notin> returned_from pool 0"
    then obtain j where j: "j < pblock_count pool" "\<not> block_bit (preturned_bitmap pool) j" using block by blast
    have "j div 64 < pword_count pool" "j = (j div 64) * 64 + j mod 64" "j mod 64 < 64"
      using pool_okD(6) [OF assms(1) j(1)] by simp_all
    then show unt using assms(3) word [of "j div 64"] j by metis
  qed
qed

lemma merge_free_frontiers_covers:
  assumes ok: "pool_ok pool" "returned_ok pool" and h: "handler_ok cap overflow" and cap: "cap \<le> 255" "cap \<le> length (entries out)"
    and run: "iree_hal_memory_fixed_block_allocator_merge_free_frontiers pool cap overflow out = (True, out')"
  defines "a \<equiv> iree_hal_memory_fixed_block_allocator_read_block pool"
  shows "i < pblock_count pool \<Longrightarrow> ablock_flags (a i) = 0 \<and> clock_le (snd (reported (a i))) (live out')"
    and "overflow = None \<Longrightarrow> (\<And>i. i < pblock_count pool \<Longrightarrow> clock_le (snd (reported (a i))) c) \<Longrightarrow> clock_le (live out') c"
proof -
  let ?out0 = "iree_async_frontier_initialize out 0"
  have out0: "out_ok cap ?out0" "live ?out0 = []"
    using cap frontier_empty [of out] by (auto simp: out_ok_def iree_async_frontier_initialize_def)
  have mem: "j \<in> returned_from pool 0 \<longleftrightarrow> j < pblock_count pool \<and> bgeneration (pblocks pool ! j) = pgeneration pool" for j
  proof -
    have "j div 64 < pword_count pool \<longleftrightarrow> j < pword_count pool * 64" by (simp add: div_less_iff_less_mult)
    then show ?thesis using ok(2) pool_okD(6) [OF ok(1), of j] by (auto simp: returned_from_def returned_ok_def)
  qed
  have fr: "frontier_ok (bfrontier (pblocks pool ! j))" if "j < pblock_count pool" for j
    using ok(1) that pool_okD(5) [OF ok(1)] by (auto simp: pool_ok_def history_ok_def)
  have init: "frontier_ok (pinitial_frontier pool)" using ok(1) by (simp add: pool_ok_def history_ok_def)
  have rep: "reported (a j) = (if j \<in> returned_from pool 0 then (bflags (pblocks pool ! j), returned_clock pool j)
      else (0, live (pinitial_frontier pool)))" if "j < pblock_count pool" for j
    using that mem [of j]
    by (auto simp: a_def reported_def iree_hal_memory_fixed_block_allocator_read_block_def Let_def live_none)
  obtain unt out1 where w: "merge_words pool cap overflow 0 False ?out0 = (True, unt, out1)"
    using run by (auto simp: iree_hal_memory_fixed_block_allocator_merge_free_frontiers_def split: prod.splits bool.splits)
  have m: "absorbed (overflow = None) cap (returned_clock pool ` returned_from pool 0) ?out0 out1"
      "\<forall>j \<in> returned_from pool 0. bflags (pblocks pool ! j) = 0"
      "unt \<longleftrightarrow> (\<exists>w. w < pword_count pool \<and> preturned_bitmap pool ! w \<noteq> valid_word pool w)"
    using merge_words_absorbs [OF h out0(1) _ w] fr mem by auto
  have o1: "out_ok cap out1" using m(1) by (simp add: absorbed_def)
  have last: "if unt then absorbed (overflow = None) cap {live (pinitial_frontier pool)} out1 out' else out' = out1"
  proof (cases unt)
    case False
    then show ?thesis using run w by (simp add: iree_hal_memory_fixed_block_allocator_merge_free_frontiers_def)
  next
    case True
    obtain ok out2 where f: "iree_async_frontier_merge out1 cap (pinitial_frontier pool) = (ok, out2)" by fastforce
    show ?thesis
    proof (cases ok)
      case okay: True
      then show ?thesis
        using run w True f absorb_merge [OF o1 init f, of "overflow = None"]
        by (simp add: iree_hal_memory_fixed_block_allocator_merge_free_frontiers_def)
    next
      case nok: False
      then obtain hd where "overflow = Some hd" "out' = hd out2 (pinitial_frontier pool)"
        using run w True f
        by (auto simp: iree_hal_memory_fixed_block_allocator_merge_free_frontiers_def split: option.splits)
      then show ?thesis using absorb_merge_handled [OF o1 init, of hd out2] h f nok True by simp
    qed
  qed
  have le1: "clock_le (live out1) (live out')" using last by (auto simp: absorbed_def split: if_splits)
  have unt: "unt \<longleftrightarrow> (\<exists>j < pblock_count pool. j \<notin> returned_from pool 0)"
    by (rule untouched_iff [OF ok m(3)])
  show "i < pblock_count pool \<Longrightarrow> ablock_flags (a i) = 0 \<and> clock_le (snd (reported (a i))) (live out')"
  proof -
    assume i: "i < pblock_count pool"
    have "clock_le (snd (reported (a i))) (live out')"
    proof (cases "i \<in> returned_from pool 0")
      case True
      then have "clock_le (returned_clock pool i) (live out1)" using m(1) by (simp add: absorbed_def)
      then show ?thesis using clock_le_trans [OF _ le1] rep [OF i] True by simp
    next
      case False
      then show ?thesis using last unt i rep [OF i] by (auto simp: absorbed_def split: if_splits)
    qed
    moreover have "ablock_flags (a i) = fst (reported (a i))" by (simp add: reported_def)
    ultimately show ?thesis using rep [OF i] m(2) by auto
  qed
  show "clock_le (live out') c"
    if ex: "overflow = None" and c: "\<And>i. i < pblock_count pool \<Longrightarrow> clock_le (snd (reported (a i))) c"
  proof -
    have "clock_le f c" if "f \<in> returned_clock pool ` returned_from pool 0" for f
      using that c rep mem by (auto, metis snd_conv)
    then have "clock_le (live out1) c" using m(1) ex out0(2) by (simp add: absorbed_def)
    moreover have "clock_le (live (pinitial_frontier pool)) c" if "unt"
      using that unt c rep by (metis snd_conv)
    ultimately show ?thesis using last ex by (auto simp: absorbed_def split: if_splits)
  qed
qed

text \<open>Releases keep the bitmap in step with the generations; acquisitions and restores do not touch it.\<close>

lemma returned_ok_same:
  "preturned_bitmap pool' = preturned_bitmap pool \<Longrightarrow> pblocks pool' = pblocks pool \<Longrightarrow>
   pgeneration pool' = pgeneration pool \<Longrightarrow> pword_count pool' = pword_count pool \<Longrightarrow>
   pblock_count pool' = pblock_count pool \<Longrightarrow> returned_ok pool' = returned_ok pool"
  by (simp add: returned_ok_def)

lemma release_returned:
  assumes "pool_ok pool" and "returned_ok pool" and "i < pblock_count pool"
  shows "returned_ok (iree_hal_memory_fixed_block_allocator_release i death pool)"
proof -
  define q where "q = write_history i death pool"
  have len: "length (preturned_bitmap pool) = pword_count pool" "length (pblocks q) = pblock_count pool"
    using assms(1) pool_okD(5) [OF assms(1)] by (simp_all add: pool_ok_def q_def write_history_def Let_def)
  have same: "preturned_bitmap q = preturned_bitmap pool" "pgeneration q = pgeneration pool"
    "pword_count q = pword_count pool" "pblock_count q = pblock_count pool"
    by (simp_all add: q_def write_history_def Let_def)
  have gens: "bgeneration (pblocks q ! j) = bgeneration (pblocks pool ! j)" for j
    using assms(3) pool_okD(5) [OF assms(1)]
    by (cases "j = i") (auto simp: q_def write_history_def Let_def split: option.splits)
  have qok: "returned_ok q" using assms(2) by (simp add: returned_ok_def same gens)
  have mark: "returned_ok (mark_returned i (adopt_generation i q))"
    using qok block_bit_set [of i "preturned_bitmap q"] pool_okD(6) [OF assms(1,3)] len same assms(3)
    by (auto simp: returned_ok_def mark_returned_def adopt_generation_def nth_list_update)
  have "returned_ok (iree_hal_memory_fixed_block_allocator_release_bit i p) = returned_ok p" for p
    by (rule returned_ok_same)
      (simp_all add: iree_hal_memory_fixed_block_allocator_release_bit_def sub_count_def clear_bit_def)
  then show ?thesis
    using qok mark by (simp add: iree_hal_memory_fixed_block_allocator_release_def Let_def flip: q_def)
qed

end
