(* ===== verification/Fixed_Block_Properties.thy ===== *)
theory Fixed_Block_Properties
  imports Fixed_Block_Threads Fixed_Block_Merge
begin

text \<open>
  The properties of the fixed-block allocator: creation, acquisition alone, exclusive ownership and reported
  histories under concurrent use, and the history of the whole range.
\<close>

section \<open>Creation\<close>

lemma initial_bitmap:
  assumes "0 < n" and "n \<le> 4096" and "i < (n + 63) div 64 * 64"
  shows "block_bit (initial_bitmap n) i \<longleftrightarrow> n \<le> i"
proof -
  define q r where "q = n div 64" and "r = n mod 64"
  define iq ir where "iq = i div 64" and "ir = i mod 64"
  have n: "n = 64 * q + r" "r < 64" and i: "i = 64 * iq + ir" "ir < 64"
    by (simp_all add: q_def r_def iq_def ir_def)
  have bits: "bit (NOT (push_bit r 1 - 1) :: u64) ir \<longleftrightarrow> r \<le> ir"
    using n(2) i(2) by (simp add: bit_simps not_less flip: mask_eq_exp_minus_1)
  have words: "(n + 63) div 64 = (if r = 0 then q else q + 1)" using n by (auto intro: div_nat_eqI)
  have "64 * iq + ir < 64 * ((n + 63) div 64)" using assms(3) i(1) by simp
  then have iq: "iq < (n + 63) div 64" by linarith
  moreover have "(n + 63) div 64 \<le> 64" using assms(2) by linarith
  ultimately have iq64: "iq < 64" by simp
  show ?thesis
  proof (cases "r = 0")
    case True
    then show ?thesis
      using iq iq64 words n i by (auto simp: block_bit_def initial_bitmap_def Let_def IREE_HAL_MEMORY_FIXED_BLOCK_ALLOCATOR_BITMAP_WORDS_def simp flip: iq_def ir_def r_def)
  next
    case False
    then have "n \<le> i \<longleftrightarrow> iq = q \<and> r \<le> ir" using iq words n i by auto
    then show ?thesis
      using iq iq64 False bits words
      by (cases "iq = q") (auto simp: block_bit_def initial_bitmap_def Let_def IREE_HAL_MEMORY_FIXED_BLOCK_ALLOCATOR_BITMAP_WORDS_def simp flip: iq_def ir_def r_def)
  qed
qed

lemma fixed_block_reset_ok:
  assumes "pool_ok pool" and "\<forall>f. initial = Some f \<longrightarrow> frontier_ok f \<and> entry_count f \<le> pfrontier_capacity pool"
  defines "pool' \<equiv> iree_hal_memory_fixed_block_allocator_reset initial pool"
  shows "pool_ok pool'" and "i < pblock_count pool \<Longrightarrow> recorded pool' i Initial"
    and "live (pinitial_frontier pool') = (case initial of None \<Rightarrow> [] | Some f \<Rightarrow> live f)"
    and "pbitmap pool' = pbitmap pool" and "pallocation_count pool' = pallocation_count pool"
    and "pblock_count pool' = pblock_count pool" and "pblock_size pool' = pblock_size pool"
    and "pfrontier_capacity pool' = pfrontier_capacity pool"
proof -
  let ?g = "pgeneration pool + 1"
  define blocks where "blocks = (if ?g = 0 then map (\<lambda>b. b\<lparr>bgeneration := 0\<rparr>) (pblocks pool) else pblocks pool)"
  define g where "g = (if ?g = 0 then 1 else ?g)"
  define f where "f = (case initial of Some f \<Rightarrow> frontier_copy (pinitial_frontier pool) f
    | None \<Rightarrow> iree_async_frontier_initialize (pinitial_frontier pool) 0)"
  have pool': "pool' = pool\<lparr>pgeneration := g, pblocks := blocks, pinitial_frontier := f,
      preturned_bitmap := replicate (pword_count pool) 0, palloc_hint_word := 0\<rparr>"
    by (cases initial; cases "?g = 0")
      (simp_all add: pool'_def iree_hal_memory_fixed_block_allocator_reset_def Let_def blocks_def g_def f_def)
  have "?g \<noteq> 0 \<Longrightarrow> unat (pgeneration pool) < unat ?g" using unatSuc [of "pgeneration pool"] by (simp add: add.commute)
  then have "?g \<noteq> 0 \<Longrightarrow> pgeneration pool < ?g" by (simp add: word_less_nat_alt)
  then have gen: "bgeneration b < g" if "b \<in> set blocks" for b
    using that assms(1) by (auto simp: blocks_def g_def pool_ok_def split: if_splits)
  have hist: "history_ok (pfrontier_capacity pool) (bfrontier b)" if "b \<in> set blocks" for b
    using that assms(1) by (auto simp: blocks_def pool_ok_def split: if_splits)
  have len: "length blocks = pblock_count pool" using pool_okD(5) [OF assms(1)] by (simp add: blocks_def)
  have old: "length (entries (pinitial_frontier pool)) = pfrontier_capacity pool"
    using assms(1) by (simp add: pool_ok_def history_ok_def)
  have f: "history_ok (pfrontier_capacity pool) f" "live f = (case initial of None \<Rightarrow> [] | Some f \<Rightarrow> live f)"
    using assms(2) old
    by (auto simp: f_def history_ok_def iree_async_frontier_initialize_def frontier_copy frontier_empty split: option.splits)
  show "pool_ok pool'"
    using assms(1) len gen hist f(1) unfolding pool' pool_ok_def by (auto intro: less_imp_le)
  show "recorded pool' i Initial" if "i < pblock_count pool"
    using gen [of "blocks ! i"] that len by (auto simp: pool' recorded_def Let_def)
  show "live (pinitial_frontier pool') = (case initial of None \<Rightarrow> [] | Some f \<Rightarrow> live f)" using f(2) by (simp add: pool')
qed (simp_all add: pool'_def iree_hal_memory_fixed_block_allocator_reset_def Let_def)

lemma allocate_ok:
  assumes "iree_hal_memory_fixed_block_allocator_allocate options allocator = Inr pool"
    and "\<forall>f. obs_initial_frontier options = Some f \<longrightarrow> frontier_ok f"
  shows "pool_ok pool" and "acquired_blocks pool = {}" and "pallocation_count pool = 0"
    and "\<forall>i < pblock_count pool. recorded pool i Initial"
    and "live (pinitial_frontier pool) = (case obs_initial_frontier options of None \<Rightarrow> [] | Some f \<Rightarrow> live f)"
    and "pblock_count pool = unat (obs_block_count options)" and "pblock_size pool = obs_block_size options"
proof -
  let ?n = "unat (obs_block_count options)"
  define cap where "cap = (if obs_frontier_capacity options = 0 then IREE_HAL_MEMORY_FIXED_BLOCK_ALLOCATOR_DEFAULT_FRONTIER_CAPACITY else unat (obs_frontier_capacity options))"
  have guards: "obs_block_size options \<noteq> 0" "?n \<noteq> 0" "?n \<le> 4096"
      "iree_checked_mul_u64 (ucast (obs_block_count options)) (obs_block_size options) \<noteq> None"
      "\<forall>f. obs_initial_frontier options = Some f \<longrightarrow> entry_count f \<le> cap"
    and made: "\<exists>stride offset. pool = iree_hal_memory_fixed_block_allocator_reset (obs_initial_frontier options)
        \<lparr>pblock_size = obs_block_size options, pblock_count = ?n, pfrontier_capacity = cap,
         pword_count = (?n + 63) div 64, pblock_stride = stride, pfrontier_offset = offset,
         pgeneration = 0, pinitial_frontier = empty_frontier cap,
         preturned_bitmap = replicate ((?n + 63) div 64) 0, palloc_hint_word = 0, pallocation_count = 0,
         phost_allocator = allocator, pbitmap = initial_bitmap ?n,
         pblocks = replicate ?n \<lparr>bflags = 0, bgeneration = 0, bfrontier = empty_frontier cap\<rparr>\<rparr>"
    using assms(1)
    by (auto simp: iree_hal_memory_fixed_block_allocator_allocate_def Let_def cap_def IREE_HAL_MEMORY_FIXED_BLOCK_ALLOCATOR_MAX_BLOCKS_def not_less
        split: if_splits sum.splits prod.splits iree_status_code_t.splits option.splits)
  then obtain p0 where p0: "pool = iree_hal_memory_fixed_block_allocator_reset (obs_initial_frontier options) p0"
    "pblock_size p0 = obs_block_size options" "pblock_count p0 = ?n" "pfrontier_capacity p0 = cap"
    "pword_count p0 = (?n + 63) div 64" "pinitial_frontier p0 = empty_frontier cap"
    "preturned_bitmap p0 = replicate ((?n + 63) div 64) 0" "pallocation_count p0 = 0" "pbitmap p0 = initial_bitmap ?n"
    "pgeneration p0 = 0"
    "pblocks p0 = replicate ?n \<lparr>bflags = 0, bgeneration = 0, bfrontier = empty_frontier cap\<rparr>"
    by auto
  have empty: "history_ok cap (empty_frontier cap)"
    by (simp add: history_ok_def empty_frontier_def frontier_ok_def live_def clock_ok_def)
  have mul: "?n * unat (obs_block_size options) < 2 ^ 64"
    using guards(4) unat_u32_lt [of "obs_block_count options"]
    by (auto simp: checked_mul_iff unsigned_ucast_eq take_bit_eq_mod split: if_splits)
  have bits: "block_bit (initial_bitmap ?n) i \<longleftrightarrow> ?n \<le> i" if "i < (?n + 63) div 64 * 64" for i
    using initial_bitmap [of ?n i] guards that by simp
  have "0 < obs_block_size options" using guards(1) by (simp add: word_gt_0)
  then have ok0: "pool_ok p0"
    using guards bits mul empty
    by (auto simp: pool_ok_def p0 initial_bitmap_def Let_def IREE_HAL_MEMORY_FIXED_BLOCK_ALLOCATOR_BITMAP_WORDS_def)
  have init: "\<forall>f. obs_initial_frontier options = Some f \<longrightarrow> frontier_ok f \<and> entry_count f \<le> pfrontier_capacity p0"
    using assms(2) guards(5) p0(4) by simp
  note r = fixed_block_reset_ok [OF ok0 init, folded p0(1)]
  show "pool_ok pool" "pallocation_count pool = 0" "pblock_count pool = ?n" "pblock_size pool = obs_block_size options"
    "\<forall>i < pblock_count pool. recorded pool i Initial"
    "live (pinitial_frontier pool) = (case obs_initial_frontier options of None \<Rightarrow> [] | Some f \<Rightarrow> live f)"
    using r p0 by auto
  have "i < (?n + 63) div 64 * 64" if "i < ?n" for i using that by linarith
  then show "acquired_blocks pool = {}" using bits r(4,6) p0(3,9) by (auto simp: acquired_blocks_def)
qed

section \<open>Acquisition and release\<close>

text \<open>
  C13. An acquisition that runs alone returns: with resource-exhausted, changing nothing, if and only if every
  block is acquired, and otherwise with a block that was free, at its multiple of the block size, and the flags
  and frontier of its history. Releasing the block frees it and no other, and the next reader of the block sees
  exactly the frontier of that release, or the taint if it did not fit.
\<close>

theorem fixed_block_acquire_release:
  assumes "pool_ok pool" and "\<forall>f. death = Some f \<longrightarrow> frontier_ok f"
  shows "\<exists>res pool'. iree_hal_memory_fixed_block_allocator_acquire pool = Some (res, pool') \<and>
    (case res of
       Inl e \<Rightarrow> e = IREE_STATUS_RESOURCE_EXHAUSTED \<and> pool' = pool \<and> acquired_blocks pool = {..<pblock_count pool}
     | Inr a \<Rightarrow>
         let i = ablock_index a; pool'' = iree_hal_memory_fixed_block_allocator_release i death pool'
         in i < pblock_count pool \<and> i \<notin> acquired_blocks pool \<and> acquired_blocks pool' = insert i (acquired_blocks pool) \<and>
            a = iree_hal_memory_fixed_block_allocator_read_block pool i \<and>
            unat (aoffset a) = i * unat (pblock_size pool) \<and>
            pool_ok pool'' \<and> acquired_blocks pool'' = acquired_blocks pool \<and>
            reported (iree_hal_memory_fixed_block_allocator_read_block pool'' i) =
              release_record (pfrontier_capacity pool) death)"
proof -
  obtain res pool' where t: "iree_hal_memory_fixed_block_allocator_try_acquire pool = Some (res, pool')"
    "case res of None \<Rightarrow> pool' = pool \<and> acquired_blocks pool = {..<pblock_count pool} | Some a \<Rightarrow> claimed pool a pool'"
    using try_acquire_alone [OF assms(1)] by blast
  show ?thesis
  proof (cases res)
    case None
    then show ?thesis using t by (simp add: iree_hal_memory_fixed_block_allocator_acquire_def)
  next
    case (Some a)
    then have "claimed pool a pool'" using t by simp
    note c = claimedD [OF assms(1) this]
    define i where "i = ablock_index a"
    define pool'' where "pool'' = iree_hal_memory_fixed_block_allocator_release i death pool'"
    note r = release_alone [OF c(4) _ assms(2), of i, folded pool''_def]
    have i: "i < pblock_count pool'" using c(1,7) by (simp add: i_def)
    have "reported (iree_hal_memory_fixed_block_allocator_read_block pool'' i) = release_record (pfrontier_capacity pool) death"
      using read_block_reports [OF r(3) [OF i]] r(5) [OF i] c(8) by (simp add: history_record_def)
    moreover have "unat (aoffset a) = i * unat (pblock_size pool)"
      using block_offset [OF assms(1) c(1)] by (subst c(5)) (simp add: i_def)
    moreover have "pool_ok pool''" "acquired_blocks pool'' = acquired_blocks pool"
      using r(1,2) [OF i] c(2,3) by (auto simp: i_def)
    ultimately show ?thesis
      using t(1) Some c(1,2,3,5)
      by (simp add: iree_hal_memory_fixed_block_allocator_acquire_def Let_def pool''_def i_def)
  qed
qed

section \<open>Concurrent use\<close>

text \<open>
  C12. Whatever the interleaving of the atomic steps of any number of clients that acquire, release and restore
  blocks of a new allocator: no block is owned by two clients; an acquired block lies at its multiple of the
  block size and its holder was told the frontier of the last release of that block, its taint, or the initial
  frontier; and the counter is the number of blocks that are acquired and not yet returned.
\<close>

theorem fixed_block_exclusive:
  assumes "iree_hal_memory_fixed_block_allocator_allocate options allocator = Inr pool"
    and "\<forall>f. obs_initial_frontier options = Some f \<longrightarrow> frontier_ok f"
    and "fb_step\<^sup>*\<^sup>* \<lparr>fpool = pool, fclients = \<lambda>_. Idle, fhistory = \<lambda>_. Initial\<rparr> s"
  shows "(\<forall>c d i. owned (fclients s c) = Some i \<longrightarrow> owned (fclients s d) = Some i \<longrightarrow> c = d) \<and>
    (\<forall>c a. fclients s c = Acquiring (Acquired a) \<longrightarrow>
       ablock_index a < pblock_count (fpool s) \<and>
       unat (aoffset a) = ablock_index a * unat (pblock_size (fpool s)) \<and>
       reported a = history_record (fpool s) (fhistory s (ablock_index a))) \<and>
    pallocation_count (fpool s) = word_of_nat (card {c. counted (fclients s c)})"
proof -
  note a = allocate_ok [OF assms(1,2)]
  have "\<not> block_bit (pbitmap pool) i" if "i < pblock_count pool" for i
    using a(2) that by (auto simp: acquired_blocks_def)
  then have "system_ok \<lparr>fpool = pool, fclients = \<lambda>_. Idle, fhistory = \<lambda>_. Initial\<rparr>"
    using a(1,3,4) by (simp add: system_ok_def)
  from fb_steps_ok [OF assms(3) this] have ok: "system_ok s" .
  have held: "ablock_index a < pblock_count (fpool s) \<and>
       unat (aoffset a) = ablock_index a * unat (pblock_size (fpool s)) \<and>
       reported a = history_record (fpool s) (fhistory s (ablock_index a))"
    if "fclients s c = Acquiring (Acquired a)" for c a
    using system_okD(2,3) [OF ok, of c] that block_offset [OF system_okD(1) [OF ok], of "ablock_index a"] by simp
  have "pallocation_count (fpool s) = word_of_nat (card {c. counted (fclients s c)})"
    using ok by (simp add: system_ok_def)
  then show ?thesis using held system_okD(5) [OF ok] by blast
qed

section \<open>The history of the range\<close>


section \<open>Examples\<close>

definition example_options :: iree_hal_memory_fixed_block_allocator_options_t where
  "example_options =
     \<lparr>obs_block_size = 256, obs_block_count = 3, obs_frontier_capacity = 0,
      obs_initial_frontier = Some \<lparr>entry_count = 1, entries = [\<lparr>axis = 5, epoch = 7\<rparr>]\<rparr>\<rparr>"

definition example_allocator :: iree_allocator_t where
  "example_allocator = \<lparr>ctl = Some (\<lambda>_ _. IREE_STATUS_OK)\<rparr>"

definition example_pool :: iree_hal_memory_fixed_block_allocator_t where
  "example_pool =
     (case iree_hal_memory_fixed_block_allocator_allocate example_options example_allocator of Inr pool \<Rightarrow> pool)"

lemma example_allocate:
  "iree_hal_memory_fixed_block_allocator_allocate example_options example_allocator = Inr example_pool"
proof -
  have "\<not> isl (iree_hal_memory_fixed_block_allocator_allocate example_options example_allocator)" by code_simp
  then show ?thesis
    by (cases "iree_hal_memory_fixed_block_allocator_allocate example_options example_allocator")
      (simp_all add: example_pool_def)
qed

lemma example_frontier_ok:
  "\<forall>f. obs_initial_frontier example_options = Some f \<longrightarrow> frontier_ok f"
  by (simp add: example_options_def frontier_ok_def live_def clock_ok_def)

lemmas example_ok = allocate_ok [OF example_allocate example_frontier_ok]

theorem fixed_block_acquire_release_witness:
  "pool_ok example_pool \<and>
   (\<exists>a pool'. iree_hal_memory_fixed_block_allocator_acquire example_pool = Some (Inr a, pool') \<and>
      ablock_index a < 3 \<and> acquired_blocks pool' = {ablock_index a})"
proof -
  have count: "pblock_count example_pool = 3" using example_ok(6) by (simp add: example_options_def)
  then have ne: "{..<pblock_count example_pool} \<noteq> {}" by (auto simp: lessThan_empty_iff)
  from fixed_block_acquire_release [OF example_ok(1), of None] obtain res pool'
    where r: "iree_hal_memory_fixed_block_allocator_acquire example_pool = Some (res, pool')"
      "case res of Inl e \<Rightarrow> acquired_blocks example_pool = {..<pblock_count example_pool}
       | Inr a \<Rightarrow> ablock_index a < pblock_count example_pool \<and>
           acquired_blocks pool' = insert (ablock_index a) (acquired_blocks example_pool)"
    by (fastforce simp: Let_def split: sum.splits)
  then show ?thesis using example_ok(1,2) count ne by (cases res) auto
qed

text \<open>A client runs the steps of an acquisition.\<close>

definition advance ::
  "nat \<Rightarrow> acquire_state \<times> iree_hal_memory_fixed_block_allocator_t \<Rightarrow> acquire_state \<times> iree_hal_memory_fixed_block_allocator_t" where
  "advance n x = ((\<lambda>(st, pool). acquire_step st pool) ^^ n) x"

lemma advance_steps:
  assumes "fclients s c = Idle" and "advance n (acquire_start (fpool s), fpool s) = (st, pool)"
  shows "fb_step\<^sup>*\<^sup>* s (move c (Acquiring st) pool s)"
  using assms(2)
proof (induction n arbitrary: st pool)
  case 0
  then show ?case using fb_step.start [OF assms(1)] by (auto simp: advance_def)
next
  case (Suc n)
  obtain st1 pool1 where a: "advance n (acquire_start (fpool s), fpool s) = (st1, pool1)" by fastforce
  then have "acquire_step st1 pool1 = (st, pool)" using Suc(2) by (simp add: advance_def)
  then have "fb_step (move c (Acquiring st1) pool1 s) (move c (Acquiring st) pool (move c (Acquiring st1) pool1 s))"
    by (intro fb_step.acquire [of _ c st1]) (simp_all add: move_def)
  moreover have "move c (Acquiring st) pool (move c (Acquiring st1) pool1 s) = move c (Acquiring st) pool s"
    by (simp add: move_def)
  ultimately show ?case using Suc.IH [OF a] by auto
qed

theorem fixed_block_exclusive_witness:
  "iree_hal_memory_fixed_block_allocator_allocate example_options example_allocator = Inr example_pool \<and>
   (\<exists>s a. fb_step\<^sup>*\<^sup>* \<lparr>fpool = example_pool, fclients = \<lambda>_. Idle, fhistory = \<lambda>_. Initial\<rparr> s \<and>
      fclients s 0 = Acquiring (Acquired a) \<and> unat (aoffset a) = ablock_index a * unat (pblock_size (fpool s)))"
proof -
  let ?s = "\<lparr>fpool = example_pool, fclients = \<lambda>_. Idle, fhistory = \<lambda>_. Initial\<rparr>"
  obtain st pool where a: "advance 4 (acquire_start example_pool, example_pool) = (st, pool)" by fastforce
  have "case fst (advance 4 (acquire_start example_pool, example_pool)) of Acquired _ \<Rightarrow> True | _ \<Rightarrow> False" by code_simp
  then obtain b where b: "st = Acquired b" using a by (auto split: acquire_state.splits)
  have run: "fb_step\<^sup>*\<^sup>* ?s (move 0 (Acquiring st) pool ?s)" using advance_steps [of ?s 0 4] a by simp
  have "fclients (move 0 (Acquiring st) pool ?s) 0 = Acquiring (Acquired b)" by (simp add: move_def b)
  then show ?thesis
    using fixed_block_exclusive [OF example_allocate example_frontier_ok run] run example_allocate by blast
qed


end
