(* ===== verification/Spec2Isabelle.thy ===== *)
theory Spec2Isabelle
  imports TLSF_Properties Base64_Properties String_View_Properties Hex_Float_Properties
    String_Numbers_Properties Spsc_Properties Fixed_Block_Properties
begin

text \<open>
  Verification of core data structures of the HRX runtime.

  The repository holds a runtime in the tradition of IREE under \<^verbatim>\<open>src/runtime\<close>, the loom compiler, a HIP
  binding (\<^verbatim>\<open>src/libhrx\<close>) and a kernel-driver library (\<^verbatim>\<open>src/libamdf\<close>). This library models parts of the
  runtime that carry its own logic, all paths below being relative to \<^verbatim>\<open>src/runtime/src/iree\<close>.

  \<^bold>\<open>Parts and how they interact.\<close> The asynchronous device memory of the runtime is handed out by a two-level
  segregated fit allocator of offsets (\<^verbatim>\<open>hal/memory/tlsf\<close>). A freed block remembers the frontier, a vector
  clock (\<^verbatim>\<open>async/frontier\<close>), after which its bytes may be reused; coalescing merges frontiers and falls back
  to a TAINTED flag when they do not fit, and an allocation reports the frontier so that the caller can wait.
  Pools of equal blocks are served by a lock-free allocator over an atomic bitmap
  (\<^verbatim>\<open>hal/memory/fixed_block_allocator\<close>), whose blocks carry the same frontiers. The metadata of both lives in
  host memory from an allocator interface (\<^verbatim>\<open>base/allocator\<close>). Messages
  between processes go through a byte ring in shared memory (\<^verbatim>\<open>base/internal/spsc_queue\<close>). Configuration text
  is handled as string views (\<^verbatim>\<open>base/string_view\<close>) with parsers of numbers, sizes, bytes and
  floating-point values, and binary data as text by base64 (\<^verbatim>\<open>base/internal/base64\<close>).

  \<^bold>\<open>Theories and sources.\<close>

  \<^item> \<^verbatim>\<open>HRX_Prelude\<close>: machine integers, status codes (\<^verbatim>\<open>base/status.h\<close>) and shared lemmas and collections;
    \<^verbatim>\<open>Machine_Math\<close>, \<^verbatim>\<open>Machine_Laws\<close>: bit scans (\<^verbatim>\<open>base/internal/math.h\<close>), alignment and
    checked arithmetic (\<^verbatim>\<open>base/alignment.h\<close>, \<^verbatim>\<open>base/checked_math.h\<close>) and their meaning on naturals.
  \<^item> \<^verbatim>\<open>Host_Allocator\<close>: the allocation calls and the overflow-checked struct layout. The control routine
    behind an allocator is a parameter.
  \<^item> \<^verbatim>\<open>Frontier\<close> (\<^verbatim>\<open>async/frontier.{h,c}\<close>): axes, validation, comparison, in-place merge, undominated scan,
    satisfaction. \<^verbatim>\<open>Frontier_Laws\<close> relates the index loops to clocks (functions from axes to epochs), states
    the interface \<^verbatim>\<open>causal_join\<close> that the allocator relies on and interprets it on the code's merge;
    \<^verbatim>\<open>Frontier_Properties\<close> holds the properties.
  \<^item> \<^verbatim>\<open>Linked_Lists\<close>: chains of nodes in a store. \<^verbatim>\<open>TLSF\<close> (\<^verbatim>\<open>hal/memory/tlsf.{h,c}\<close>): every operation of the
    allocator. \<^verbatim>\<open>TLSF_Store\<close> states the interface \<^verbatim>\<open>block_store\<close> of segmented block storage and
    interprets it; \<^verbatim>\<open>TLSF_Classes\<close> the size classes, \<^verbatim>\<open>TLSF_Bins\<close> the free lists and bitmaps;
    \<^verbatim>\<open>TLSF_Core\<close>, \<^verbatim>\<open>TLSF_Split\<close>, \<^verbatim>\<open>TLSF_Coalesce\<close> and \<^verbatim>\<open>TLSF_Invariant\<close> the invariant and its
    preservation; \<^verbatim>\<open>TLSF_Free\<close>, \<^verbatim>\<open>TLSF_Allocate\<close>, \<^verbatim>\<open>TLSF_Growth\<close>, \<^verbatim>\<open>TLSF_Initialize\<close> and
    \<^verbatim>\<open>TLSF_Queries\<close> the operations; \<^verbatim>\<open>TLSF_Properties\<close> the properties.
  \<^item> \<^verbatim>\<open>Fixed_Block\<close> (\<^verbatim>\<open>hal/memory/fixed_block_allocator.{h,c}\<close>): acquisition and release as atomic steps, and
    the other operations. \<^verbatim>\<open>Fixed_Block_Laws\<close> describes them when they run alone, \<^verbatim>\<open>Fixed_Block_Threads\<close>
    under any interleaving, \<^verbatim>\<open>Fixed_Block_Merge\<close> the history of the range; \<^verbatim>\<open>Fixed_Block_Properties\<close> holds the
    properties.
  \<^item> \<^verbatim>\<open>Base64\<close> (\<^verbatim>\<open>base/internal/base64.{h,c}\<close>) with \<^verbatim>\<open>Base64_Properties\<close>.
  \<^item> \<^verbatim>\<open>String_View\<close>, \<^verbatim>\<open>Hex_Float\<close> and \<^verbatim>\<open>String_Numbers\<close> (\<^verbatim>\<open>base/string_view.{h,c}\<close>) with their laws and
    properties; \<^verbatim>\<open>Hex_Float_Format\<close> states what a binary floating-point format is as the interface
    \<^verbatim>\<open>ieee_format\<close>, interpreted for binary32 and binary64.
  \<^item> \<^verbatim>\<open>Spsc_Queue\<close> (\<^verbatim>\<open>base/internal/spsc_queue.{h,c}\<close>): the message ring. \<^verbatim>\<open>Spsc_Laws\<close> describes its bytes
    as frames, \<^verbatim>\<open>Spsc_Channel\<close> the invariant and the effect of each operation on the messages,
    \<^verbatim>\<open>Spsc_Fifo\<close> the interface \<^verbatim>\<open>fifo_channel\<close>, whose runs refine a FIFO queue, and its interpretation on
    the interleaved steps of producer and consumer; \<^verbatim>\<open>Spsc_Properties\<close> the properties.

  State is explicit: a C structure is a record, arrays are lists or functions from indices, pointers into an
  array are indices, a null pointer is \<^term>\<open>None\<close>, and operations return the updated record. Status results are
  sums with the status code on the left. Integers keep their width as words, except indices and positions that
  the code bounds, which are naturals, with the wrap-around written out where it can happen.

  \<^bold>\<open>What is shown.\<close>

  \<^item> Allocator: the physical list tiles the range, free lists and bitmaps agree, and counters do not wrap, in
    every state reachable from a successful initialization; allocations are aligned, of exactly the rounded
    length, inside the range and disjoint from live blocks; a refusal means no block was large enough by 33/32;
    and no byte loses its causal history across free, coalescing, split and allocation.
  \<^item> Fixed blocks: acquisition returns a free block exactly when there is one, no interleaving hands a block to
    two owners, a holder is told the frontier of the last release, and the merged history covers every block.
  \<^item> Frontiers: the scans compute the order, join and difference of vector clocks.
  \<^item> Text: matching, searching, splitting and parsing agree with declarative definitions, conversions round
    trip or round to nearest, and every malformed input is refused with the code's status.
  \<^item> Message ring: every interleaving refines a FIFO queue, writes are refused exactly for lack of the space
    they need, and messages of up to half the ring can always be sent after the consumer has drained it.

  \<^bold>\<open>Bounds and fuel.\<close> Recursion is structural or has a termination proof, with these exceptions. The candidate
  query of the allocator walks bins and lists with fuel: 2049 steps cover the 64 times 32 bins, and one more
  than the number of blocks covers any list; a property shows that it returns. Peeking at the ring and
  acquiring a fixed block are partial functions in the option monad; the properties show that they return, the
  latter when it runs alone.

  \<^bold>\<open>Parameters.\<close> The control routine of a host allocator, the C library's \<^verbatim>\<open>strtof\<close> and \<^verbatim>\<open>strtod\<close>, the handler
  for frontiers too wide for a merge, assumed to cover its inputs, and the
  values that atomic loads of the other side's position return, constrained only to lie between the last
  loaded value and the current one.

  \<^bold>\<open>Not modelled.\<close> The loom compiler, the HIP binding, libamdf, the device drivers, the proactors, the
  virtual machine and the task system: compilers, I/O and calls into libraries and devices outside the
  repository. Of the modelled files: tracing and status messages, the bytes left behind by a failed decode, the
  wrap of 64-bit ring positions after 2^63 bytes, and allocator entry points that no modelled part calls.
\<close>

end
